(* ===== verification/Prelude.thy ===== *)
theory Prelude
  imports
    Main
    "HOL-Library.AList"
    "HOL-Library.Char_ord"
    "HOL-Library.List_Lexorder"
    "HOL-Library.Product_Lexorder"
    "HOL-Library.Multiset"
    "HOL-Library.Sublist"
begin

text \<open>
  Shared ground of the development: the collections of rewrite rules, the representation
  of Go maps, and generic facts on lists, sorting and suffixes.

  A Go map is an association list with distinct keys (\<open>gomap_ok\<close>). The list order is one
  of the orders in which a \<^verbatim>\<open>for k, v := range m\<close> may visit the map, which Go leaves
  unspecified: a result that must not depend on the iteration order is therefore proved
  for every list that represents the same map. Strings are byte lists, ordered as Go
  orders them (bytewise, lexicographically: \<open>Char_ord\<close> and \<open>List_Lexorder\<close>).
\<close>

named_theorems go_defs \<open>definitions of the Go library functions\<close>
named_theorems op_defs \<open>definitions of the operations of a component\<close>

type_synonym ('k, 'v) gomap = "('k \<times> 'v) list"

abbreviation gomap_ok :: "('k, 'v) gomap \<Rightarrow> bool" where
  "gomap_ok m \<equiv> distinct (map fst m)"

definition get_or :: "'v \<Rightarrow> ('k, 'v) gomap \<Rightarrow> 'k \<Rightarrow> 'v" where
  \<comment> \<open>\<^verbatim>\<open>m[k]\<close>: the zero value where the key is absent\<close>
  "get_or z m k = (case map_of m k of None \<Rightarrow> z | Some v \<Rightarrow> v)"

definition same_map :: "('k, 'v) gomap \<Rightarrow> ('k, 'v) gomap \<Rightarrow> bool" where
  \<comment> \<open>two iteration orders of one map\<close>
  "same_map m m' \<longleftrightarrow> gomap_ok m \<and> gomap_ok m' \<and> map_of m = map_of m'"

section \<open>Go maps\<close>

lemma get_or_Nil [simp]: "get_or z [] k = z"
  by (simp add: get_or_def)

lemma get_or_Cons [simp]: "get_or z ((k', v) # m) k = (if k = k' then v else get_or z m k)"
  by (simp add: get_or_def)

lemma get_or_update [simp]: "get_or z (AList.update k v m) k' = (if k' = k then v else get_or z m k')"
  by (simp add: get_or_def update_conv)

lemma get_or_Some: "map_of m k = Some v \<Longrightarrow> get_or z m k = v"
  by (simp add: get_or_def)

lemma get_or_None: "map_of m k = None \<Longrightarrow> get_or z m k = z"
  by (simp add: get_or_def)

lemma get_or_mem: "gomap_ok m \<Longrightarrow> (k, v) \<in> set m \<Longrightarrow> get_or z m k = v"
  by (simp add: get_or_def)

lemma same_map_get_or: "same_map m m' \<Longrightarrow> get_or z m k = get_or z m' k"
  by (simp add: same_map_def get_or_def)

lemma same_map_set: "same_map m m' \<Longrightarrow> set m = set m'"
  unfolding same_map_def by (metis map_of_eq_Some_iff subrelI subset_antisym)

lemma same_map_mset: "same_map m m' \<Longrightarrow> mset m = mset m'"
  using same_map_set [of m m']
  by (simp add: same_map_def distinct_map set_eq_iff_mset_eq_distinct)

lemma mset_same_map: "gomap_ok m \<Longrightarrow> mset m = mset m' \<Longrightarrow> same_map m m'"
proof -
  assume ok: "gomap_ok m" and eq: "mset m = mset m'"
  have "mset (map fst m) = mset (map fst m')"
    using eq by (metis mset_map)
  then have ok': "gomap_ok m'"
    using ok by (metis mset_eq_imp_distinct_iff)
  have "set m = set m'" using eq by (metis set_mset_mset)
  then have "map_of m = map_of m'"
    using ok ok' by (simp add: map_of_inject_set)
  with ok ok' show "same_map m m'" by (simp add: same_map_def)
qed

section \<open>Searching\<close>

lemma find_filter: "find P xs = (case filter P xs of [] \<Rightarrow> None | x # _ \<Rightarrow> Some x)"
  by (induction xs) auto

lemma map_of_find: "map_of (map (\<lambda>a. (f a, g a)) as) k = map_option g (find (\<lambda>a. f a = k) as)"
  by (induction as) auto

lemma find_Some_mem: "find P xs = Some x \<Longrightarrow> x \<in> set xs \<and> P x"
  by (auto simp: find_Some_iff)

section \<open>Sorting\<close>

lemma sort_key_perm_eq:
  \<comment> \<open>with pairwise different keys the sorted list depends on the elements only\<close>
  assumes eq: "mset xs = mset ys" and dist: "distinct (map f xs)"
  shows "sort_key f xs = sort_key f ys"
proof -
  have sets: "set xs = set ys" using eq by (metis set_mset_mset)
  have d: "distinct (map f (sort_key f xs))" "distinct (map f (sort_key f ys))"
    using dist eq by (metis mset_eq_imp_distinct_iff mset_map mset_sort)+
  have "map f (sort_key f xs) = map f (sort_key f ys)"
    by (rule sorted_distinct_set_unique) (use d sets in auto)
  moreover have "inj_on f (set (sort_key f xs) \<union> set (sort_key f ys))"
    using dist sets by (simp add: distinct_map)
  ultimately show ?thesis using inj_on_map_eq_map by blast
qed

lemma sorted_last: "sorted (map f xs) \<Longrightarrow> x \<in> set xs \<Longrightarrow> f x \<le> f (last xs)"
  by (induction xs) auto

end
