(* ===== verification/GoLib.thy ===== *)
theory GoLib
  imports Prelude
begin

text \<open>
  The parts of Go's standard library that the admin service computes with: package
  \<^verbatim>\<open>strings\<close>, \<^verbatim>\<open>strconv.Atoi\<close>, \<^verbatim>\<open>net.SplitHostPort\<close> and the untyped JSON trees
  (\<^verbatim>\<open>map[string]any\<close>) the renderers build. A Go string is a byte sequence, so a
  \<^typ>\<open>string\<close>. The one table that is not written out is Unicode's lower-case mapping: for a
  string with a byte above 127, \<open>ToLower\<close> calls its argument \<open>uni\<close>.
\<close>

section \<open>Package strings\<close>

definition HasPrefix :: "string \<Rightarrow> string \<Rightarrow> bool" where
  "HasPrefix s p \<longleftrightarrow> length p \<le> length s \<and> take (length p) s = p"

definition HasSuffix :: "string \<Rightarrow> string \<Rightarrow> bool" where
  "HasSuffix s suf \<longleftrightarrow> length suf \<le> length s \<and> drop (length s - length suf) s = suf"

definition CutPrefix :: "string \<Rightarrow> string \<Rightarrow> string \<times> bool" where
  "CutPrefix s p = (if HasPrefix s p then (drop (length p) s, True) else (s, False))"

fun Cut :: "string \<Rightarrow> string \<Rightarrow> string \<times> string \<times> bool" where
  \<comment> \<open>around the first occurrence of the separator; (s, "", false) when there is none\<close>
  "Cut [] sep = (if sep = [] then ([], [], True) else ([], [], False))"
| "Cut (c # s) sep =
     (if HasPrefix (c # s) sep then ([], drop (length sep) (c # s), True)
      else (case Cut s sep of (before, after, ok) \<Rightarrow> (c # before, after, ok)))"

definition Contains :: "string \<Rightarrow> string \<Rightarrow> bool" where
  "Contains s sub = snd (snd (Cut s sub))"

definition TrimRight :: "string \<Rightarrow> string \<Rightarrow> string" where
  \<comment> \<open>the cut set is a set of ASCII characters at every call\<close>
  "TrimRight s cutset = rev (dropWhile (\<lambda>c. c \<in> set cutset) (rev s))"

definition ReplaceAll :: "string \<Rightarrow> char \<Rightarrow> string \<Rightarrow> string" where
  \<comment> \<open>with a one-byte pattern\<close>
  "ReplaceAll s old new = concat (map (\<lambda>c. if c = old then new else [c]) s)"

fun Join :: "string list \<Rightarrow> string \<Rightarrow> string" where
  "Join [] sep = []"
| "Join [s] sep = s"
| "Join (s # ss) sep = s @ sep @ Join ss sep"

definition byte :: "nat \<Rightarrow> char" where
  "byte n = char_of n"

abbreviation code :: "char \<Rightarrow> nat" where
  "code c \<equiv> of_char c"

definition isASCII :: "string \<Rightarrow> bool" where
  "isASCII s = list_all (\<lambda>c. code c < 128) s"

definition ascii_lower :: "char \<Rightarrow> char" where
  "ascii_lower c = (if 65 \<le> code c \<and> code c \<le> 90 then byte (code c + 32) else c)"

definition ToLower :: "(string \<Rightarrow> string) \<Rightarrow> string \<Rightarrow> string" where
  "ToLower uni s = (if isASCII s then map ascii_lower s else uni s)"

definition space_seqs :: "string list" where
  \<comment> \<open>UTF-8 encodings of the code points with Unicode's White_Space property\<close>
  "space_seqs =
     [[CHR 0x09], [CHR 0x0A], [CHR 0x0B], [CHR 0x0C], [CHR 0x0D], [CHR 0x20],
      [CHR 0xC2, CHR 0x85], [CHR 0xC2, CHR 0xA0], [CHR 0xE1, CHR 0x9A, CHR 0x80]]
      @ map (\<lambda>b. [CHR 0xE2, CHR 0x80, b])
          [CHR 0x80, CHR 0x81, CHR 0x82, CHR 0x83, CHR 0x84, CHR 0x85, CHR 0x86, CHR 0x87,
           CHR 0x88, CHR 0x89, CHR 0x8A, CHR 0xA8, CHR 0xA9, CHR 0xAF]
      @ [[CHR 0xE2, CHR 0x81, CHR 0x9F], [CHR 0xE3, CHR 0x80, CHR 0x80]]"

function trim_by :: "string list \<Rightarrow> string \<Rightarrow> string" where
  "trim_by qs s = (case find (\<lambda>q. q \<noteq> [] \<and> HasPrefix s q) qs of
      None \<Rightarrow> s
    | Some q \<Rightarrow> trim_by qs (drop (length q) s))"
  by pat_completeness auto
termination
proof (relation "measure (\<lambda>(qs, s). length s)")
  fix qs s q
  assume "find (\<lambda>q. q \<noteq> [] \<and> HasPrefix s q) qs = Some q"
  then have "q \<noteq> []" and "length q \<le> length s"
    by (auto simp: find_Some_iff HasPrefix_def)
  then have "0 < length q" and "0 < length s" by auto
  then show "((qs, drop (length q) s), qs, s) \<in> measure (\<lambda>(qs, s). length s)"
    by simp
qed simp

declare trim_by.simps [simp del]

definition TrimSpace :: "string \<Rightarrow> string" where
  "TrimSpace s = rev (trim_by (map rev space_seqs) (rev (trim_by space_seqs s)))"

section \<open>strconv.Atoi\<close>

datatype num_error = ErrSyntax | ErrRange

definition is_digit :: "char \<Rightarrow> bool" where
  "is_digit c \<longleftrightarrow> 48 \<le> code c \<and> code c \<le> 57"

fun parse_uint :: "int \<Rightarrow> string \<Rightarrow> int \<times> num_error option" where
  \<comment> \<open>the loop of ParseUint in base 10: the range error stops the scan at once\<close>
  "parse_uint n [] = (n, None)"
| "parse_uint n (c # cs) =
     (if \<not> is_digit c then (0, Some ErrSyntax)
      else let n1 = n * 10 + (int (code c) - 48) in
        if 2 ^ 64 \<le> n1 then (2 ^ 64 - 1, Some ErrRange) else parse_uint n1 cs)"

definition ParseUint :: "string \<Rightarrow> int \<times> num_error option" where
  "ParseUint s = (if s = [] then (0, Some ErrSyntax) else parse_uint 0 s)"

definition Atoi :: "string \<Rightarrow> int \<times> num_error option" where
  "Atoi s0 =
     (if s0 = [] then (0, Some ErrSyntax)
      else let neg = (hd s0 = CHR ''-'');
               s = (if hd s0 = CHR ''+'' \<or> neg then tl s0 else s0) in
        (case ParseUint s of
           (un, Some ErrSyntax) \<Rightarrow> (0, Some ErrSyntax)
         | (un, e) \<Rightarrow>
             if \<not> neg \<and> 2 ^ 63 \<le> un then (2 ^ 63 - 1, Some ErrRange)
             else if neg \<and> 2 ^ 63 < un then (- (2 ^ 63), Some ErrRange)
             else (if neg then - un else un, None)))"

section \<open>net.SplitHostPort\<close>

fun index_byte :: "string \<Rightarrow> char \<Rightarrow> nat option" where
  "index_byte [] c = None"
| "index_byte (x # xs) c = (if x = c then Some 0 else map_option Suc (index_byte xs c))"

definition last_index_byte :: "string \<Rightarrow> char \<Rightarrow> nat option" where
  "last_index_byte s c = map_option (\<lambda>i. length s - 1 - i) (index_byte (rev s) c)"

definition SplitHostPort :: "string \<Rightarrow> (string \<times> string) option" where
  \<comment> \<open>None is the AddrError\<close>
  "SplitHostPort hp = (case last_index_byte hp (CHR '':'') of
      None \<Rightarrow> None
    | Some i \<Rightarrow>
        (case (if hd hp = CHR ''['' then
                 (case index_byte hp (CHR '']'') of
                    None \<Rightarrow> None
                  | Some e \<Rightarrow> if e + 1 = length hp then None
                      else if e + 1 = i then Some (drop 1 (take e hp), 1, e + 1)
                      else None)
               else if CHR '':'' \<in> set (take i hp) then None
               else Some (take i hp, 0, 0)) of
           None \<Rightarrow> None
         | Some (host, j, k) \<Rightarrow>
             if CHR ''['' \<in> set (drop j hp) \<or> CHR '']'' \<in> set (drop k hp) then None
             else Some (host, drop (i + 1) hp)))"

section \<open>Printing integers\<close>

function utoa :: "int \<Rightarrow> string" where
  "utoa n = (if n < 10 then [char_of (48 + n mod 10)] else utoa (n div 10) @ [char_of (48 + n mod 10)])"
  by auto
termination
  by (relation "measure nat") auto

declare utoa.simps [simp del]

definition Itoa :: "int \<Rightarrow> string" where
  \<comment> \<open>\<^verbatim>\<open>%d\<close>\<close>
  "Itoa n = (if n < 0 then ''-'' @ utoa (- n) else utoa n)"

section \<open>Durations\<close>

definition int_seconds :: "int \<Rightarrow> int" where
  \<comment> \<open>\<^verbatim>\<open>int(d.Seconds())\<close> of a duration in nanoseconds, truncated towards zero\<close>
  "int_seconds d = (if 0 \<le> d then d div 1000000000 else - (- d div 1000000000))"

section \<open>Untyped JSON trees\<close>

datatype json =
    JStr string
  | JNum int
  | JBool bool
  | JArr "json list"
  | JObj "(string \<times> json) list"

fun jfield :: "string \<Rightarrow> json \<Rightarrow> json option" where
  "jfield k (JObj fs) = map_of fs k"
| "jfield k _ = None"

fun jarr :: "json option \<Rightarrow> json list" where
  "jarr (Some (JArr xs)) = xs"
| "jarr _ = []"

definition jpath :: "string list \<Rightarrow> json \<Rightarrow> json option" where
  "jpath ks j = fold (\<lambda>k r. case r of None \<Rightarrow> None | Some v \<Rightarrow> jfield k v) ks (Some j)"

fun DeepEqual :: "json \<Rightarrow> json \<Rightarrow> bool" where
  \<comment> \<open>reflect.DeepEqual on such trees: objects are Go maps, compared key by key\<close>
  "DeepEqual (JStr a) (JStr b) = (a = b)"
| "DeepEqual (JNum a) (JNum b) = (a = b)"
| "DeepEqual (JBool a) (JBool b) = (a = b)"
| "DeepEqual (JArr as) (JArr bs) = (length as = length bs \<and> list_all2 DeepEqual as bs)"
| "DeepEqual (JObj as) (JObj bs) =
     (length as = length bs \<and>
      (\<forall>kv \<in> set as. case map_of bs (fst kv) of None \<Rightarrow> False | Some w \<Rightarrow> DeepEqual (snd kv) w))"
| "DeepEqual _ _ = False"

section \<open>Facts on strings\<close>

lemmas [go_defs] = HasPrefix_def HasSuffix_def CutPrefix_def Contains_def TrimRight_def
  ReplaceAll_def isASCII_def ascii_lower_def ToLower_def byte_def

lemma HasPrefix_iff: "HasPrefix s p \<longleftrightarrow> (\<exists>t. s = p @ t)"
  unfolding HasPrefix_def by (metis append_eq_conv_conj append_take_drop_id length_append le_add1)

lemma HasPrefix_append [simp]: "HasPrefix (p @ t) p"
  by (auto simp: HasPrefix_iff)

lemma HasSuffix_iff: "HasSuffix s suf \<longleftrightarrow> (\<exists>t. s = t @ suf)"
proof
  assume "HasSuffix s suf"
  then show "\<exists>t. s = t @ suf"
    unfolding HasSuffix_def by (metis append_take_drop_id)
next
  assume "\<exists>t. s = t @ suf"
  then show "HasSuffix s suf" by (auto simp: HasSuffix_def)
qed

lemma HasSuffix_suffix: "HasSuffix s suf \<longleftrightarrow> suffix suf s"
  by (simp add: HasSuffix_iff suffix_def)

lemma HasSuffix_trans: "HasSuffix a b \<Longrightarrow> HasSuffix b c \<Longrightarrow> HasSuffix a c"
  by (auto simp: HasSuffix_iff)

lemma CutPrefix_star: "CutPrefix h ''*'' = (suf, True) \<longleftrightarrow> h = CHR ''*'' # suf"
  by (auto simp: CutPrefix_def HasPrefix_iff)

lemma Contains_iff: "Contains s sub \<longleftrightarrow> (\<exists>a b. s = a @ sub @ b)"
proof (induction s)
  case Nil
  then show ?case by (auto simp: Contains_def)
next
  case (Cons c s)
  have "(\<exists>a b. c # s = a @ sub @ b) \<longleftrightarrow> HasPrefix (c # s) sub \<or> (\<exists>a b. s = a @ sub @ b)"
    unfolding HasPrefix_iff by (metis append_Cons append_Nil list.exhaust_sel list.sel(3) tl_append2)
  then show ?case using Cons by (auto simp: Contains_def split: prod.splits)
qed

lemma parse_uint_nonneg: "0 \<le> n \<Longrightarrow> 0 \<le> fst (parse_uint n s)"
proof (induction n s rule: parse_uint.induct)
  case (2 n c cs)
  have "is_digit c \<Longrightarrow> 0 \<le> n * 10 + (int (code c) - 48)"
    using "2.prems" by (simp add: is_digit_def)
  then show ?case using "2.IH" by (auto simp: Let_def)
qed simp

lemma Atoi_bounds: "- (2 ^ 63) \<le> fst (Atoi s) \<and> fst (Atoi s) < 2 ^ 63"
proof -
  define t where "t = (if hd s = CHR ''+'' \<or> hd s = CHR ''-'' then tl s else s)"
  obtain un e where un: "ParseUint t = (un, e)" by fastforce
  have "0 \<le> fst (ParseUint t)"
    using parse_uint_nonneg [of 0 t] by (simp add: ParseUint_def)
  then have "0 \<le> un" by (simp add: un)
  then show ?thesis
    using un by (auto simp: Atoi_def Let_def t_def split: option.splits num_error.splits)
qed

end
