(* ===== verification/Http.thy ===== *)
theory Http
  imports GoLib
begin

text \<open>
  The parts of Go's \<^verbatim>\<open>net/http\<close>, \<^verbatim>\<open>net/url\<close> and \<^verbatim>\<open>path\<close> that the service runs on: requests and
  responses as records of what the handlers read and write, \<^verbatim>\<open>http.Error\<close>, \<^verbatim>\<open>http.Redirect\<close> with
  the cleaning of its target, and the pattern matching of \<^verbatim>\<open>http.ServeMux\<close>.

  The URL parser is the argument \<open>parse\<close> (scheme, host and path, None on an error) wherever it is
  used, and what is shown holds for every such function. The body that \<^verbatim>\<open>http.Redirect\<close> adds for
  browsers that do not follow it is left out.
\<close>

section \<open>Requests and responses\<close>

record Req =
  hr_Method :: string
  hr_EscapedPath :: string
  hr_URLPath :: string
  hr_RawQuery :: string
  hr_URI :: string
  hr_Query :: "(string, string) gomap"
  hr_Form :: "(string, string) gomap" \<comment> \<open>FormValue: body first, then query\<close>
  hr_Path :: "(string, string) gomap" \<comment> \<open>PathValue, set by the mux\<close>
  hr_Cookies :: "(string \<times> string) list"
  hr_Authorization :: string

record Cookie =
  ck_Name :: string
  ck_Value :: string
  ck_Path :: string
  ck_HttpOnly :: bool
  ck_SameSite :: string
  ck_MaxAge :: int

record Resp =
  re_Cookies :: "Cookie list"
  re_Header :: "(string, string) gomap"
  re_Status :: int
  re_Location :: "string option"
  re_Body :: string

definition with_cookie :: "Cookie \<Rightarrow> Resp \<Rightarrow> Resp" where
  "with_cookie c r = r\<lparr>re_Cookies := c # re_Cookies r\<rparr>"

definition http_Error :: "string \<Rightarrow> int \<Rightarrow> Resp" where
  "http_Error msg status = \<lparr>re_Cookies = [],
     re_Header = [(''Content-Type'', ''text/plain; charset=utf-8''), (''X-Content-Type-Options'', ''nosniff'')],
     re_Status = status, re_Location = None, re_Body = msg @ [CHR 0x0A]\<rparr>"

section \<open>Paths\<close>

fun split_on :: "char \<Rightarrow> string \<Rightarrow> string list" where
  \<comment> \<open>\<^verbatim>\<open>strings.Split\<close> with a one-byte separator\<close>
  "split_on c [] = [[]]"
| "split_on c (d # s) = (if d = c then [] # split_on c s else (d # hd (split_on c s)) # tl (split_on c s))"

fun clean_segs :: "bool \<Rightarrow> string list \<Rightarrow> string list \<Rightarrow> string list" where
  \<comment> \<open>the last argument is the output so far, in reverse\<close>
  "clean_segs rooted [] out = rev out"
| "clean_segs rooted (s # ss) out =
     (if s = [] \<or> s = ''.'' then clean_segs rooted ss out
      else if s = ''..'' then
        (case out of
           [] \<Rightarrow> clean_segs rooted ss (if rooted then [] else [s])
         | t # out' \<Rightarrow> clean_segs rooted ss (if t = ''..'' then s # out else out'))
      else clean_segs rooted ss (s # out))"

definition path_Clean :: "string \<Rightarrow> string" where
  "path_Clean p =
     (let rooted = HasPrefix p ''/''; out = Join (clean_segs rooted (split_on (CHR ''/'') p) []) ''/''
      in if rooted then CHR ''/'' # out else if out = [] then ''.'' else out)"

definition path_dir :: "string \<Rightarrow> string" where
  \<comment> \<open>the first result of \<^verbatim>\<open>path.Split\<close>: up to and with the last slash\<close>
  "path_dir p = rev (dropWhile (\<lambda>c. c \<noteq> CHR ''/'') (rev p))"

definition clean_keep :: "string \<Rightarrow> string" where
  \<comment> \<open>clean, but keep a trailing slash\<close>
  "clean_keep p = (let q = path_Clean p in if HasSuffix p ''/'' \<and> \<not> HasSuffix q ''/'' then q @ ''/'' else q)"

definition hex_upper :: "nat \<Rightarrow> char" where
  "hex_upper n = ''0123456789ABCDEF'' ! (n mod 16)"

definition pct :: "char \<Rightarrow> string" where
  "pct c = [CHR ''%'', hex_upper (code c div 16), hex_upper (code c)]"

definition hexEscapeNonASCII :: "string \<Rightarrow> string" where
  "hexEscapeNonASCII s = concat (map (\<lambda>c. if 128 \<le> code c
     then [CHR ''%'', ''0123456789abcdef'' ! (code c div 16), ''0123456789abcdef'' ! (code c mod 16)] else [c]) s)"

section \<open>Redirects\<close>

type_synonym url_parser = "string \<Rightarrow> (string \<times> string \<times> string) option"

definition redirect_target :: "url_parser \<Rightarrow> Req \<Rightarrow> string \<Rightarrow> string" where
  "redirect_target parse r url = (case parse url of
      None \<Rightarrow> url
    | Some (scheme, host, _) \<Rightarrow>
        if scheme \<noteq> [] \<or> host \<noteq> [] then url
        else let old = (if hr_URLPath r = [] then ''/'' else hr_URLPath r);
                 u = (if HasPrefix url ''/'' then url else path_dir old @ url)
             in case Cut u ''?'' of (p, q, ok) \<Rightarrow> clean_keep p @ (if ok then CHR ''?'' # q else []))"

definition http_Redirect :: "url_parser \<Rightarrow> Req \<Rightarrow> string \<Rightarrow> int \<Rightarrow> Resp" where
  "http_Redirect parse r url status = \<lparr>re_Cookies = [], re_Header = [], re_Status = status,
     re_Location = Some (hexEscapeNonASCII (redirect_target parse r url)), re_Body = []\<rparr>"

section \<open>Query strings\<close>

definition unreserved :: "char \<Rightarrow> bool" where
  "unreserved c \<longleftrightarrow> c \<in> set (''abcdefghijklmnopqrstuvwxyzABCDEFGHIJKLMNOPQRSTUVWXYZ0123456789-_.~'')"

definition QueryEscape :: "string \<Rightarrow> string" where
  "QueryEscape s = concat (map (\<lambda>c. if unreserved c then [c] else if c = CHR '' '' then ''+'' else pct c) s)"

definition hex_value :: "char \<Rightarrow> nat option" where
  "hex_value c = (if is_digit c then Some (code c - 48)
     else if 97 \<le> code c \<and> code c \<le> 102 then Some (code c - 87)
     else if 65 \<le> code c \<and> code c \<le> 70 then Some (code c - 55) else None)"

fun unescape :: "string \<Rightarrow> string option" where
  \<comment> \<open>percent-decoding of a path segment\<close>
  "unescape [] = Some []"
| "unescape (c # s) =
     (if c \<noteq> CHR ''%'' then map_option (Cons c) (unescape s)
      else case s of
        a # b # t \<Rightarrow> (case (hex_value a, hex_value b) of
            (Some x, Some y) \<Rightarrow> map_option (Cons (byte (16 * x + y))) (unescape t)
          | _ \<Rightarrow> None)
      | _ \<Rightarrow> None)"

definition QueryUnescape :: "string \<Rightarrow> string option" where
  "QueryUnescape s = unescape (map (\<lambda>c. if c = CHR ''+'' then CHR '' '' else c) s)"

definition ParseQuery :: "string \<Rightarrow> (string, string) gomap" where
  \<comment> \<open>\<^verbatim>\<open>URL.Query\<close>, with the values of a key in order: parts with a semicolon or an invalid escape are skipped\<close>
  "ParseQuery raw = concat (map (\<lambda>part.
     if CHR '';'' \<in> set part \<or> part = [] then []
     else case Cut part ''='' of (k, v, _) \<Rightarrow>
       (case (QueryUnescape k, QueryUnescape v) of (Some k', Some v') \<Rightarrow> [(k', v')] | _ \<Rightarrow> [])) (split_on (CHR ''&'') raw))"

definition pathUnescape :: "string \<Rightarrow> string" where
  "pathUnescape s = (case unescape s of None \<Rightarrow> s | Some t \<Rightarrow> t)"

definition path_escape :: "string \<Rightarrow> string" where
  \<comment> \<open>how \<^verbatim>\<open>URL.String\<close> prints a path\<close>
  "path_escape s = concat (map (\<lambda>c. if unreserved c \<or> c \<in> set ''$&+,/:;=@'' then [c] else pct c) s)"

section \<open>The request multiplexer\<close>

datatype seg = Lit string | Wild string

fun mux_segments :: "string list \<Rightarrow> string list" where
  \<comment> \<open>a trailing slash counts as the segment "/"\<close>
  "mux_segments [] = []"
| "mux_segments [s] = [if s = [] then ''/'' else pathUnescape s]"
| "mux_segments (s # ss) = pathUnescape s # mux_segments ss"

fun seg_match :: "seg list \<Rightarrow> string list \<Rightarrow> (string, string) gomap option" where
  "seg_match [] [] = Some []"
| "seg_match (Lit l # ps) (s # ss) = (if l = s then seg_match ps ss else None)"
| "seg_match (Wild n # ps) (s # ss) = (if s = ''/'' then None else map_option (Cons (n, s)) (seg_match ps ss))"
| "seg_match _ _ = None"

definition method_match :: "string \<Rightarrow> string \<Rightarrow> bool" where
  \<comment> \<open>a GET pattern also matches HEAD\<close>
  "method_match pm m \<longleftrightarrow> pm = m \<or> (pm = ''GET'' \<and> m = ''HEAD'')"

definition cleanPath :: "string \<Rightarrow> string" where
  "cleanPath p = (if p = [] then ''/'' else clean_keep (if HasPrefix p ''/'' then p else CHR ''/'' # p))"

definition path_segments :: "string \<Rightarrow> string list" where
  "path_segments path = mux_segments (tl (split_on (CHR ''/'') path))"

type_synonym 'h pattern = "string \<times> seg list \<times> 'h"

definition allowed_methods :: "'h pattern list \<Rightarrow> string list \<Rightarrow> string list" where
  "allowed_methods pats segs =
     (let ms = map fst (filter (\<lambda>(_, ps, _). seg_match ps segs \<noteq> None) pats)
      in sort (remdups (if ''GET'' \<in> set ms then ''HEAD'' # ms else ms)))"

datatype 'h routed = Handler 'h "(string, string) gomap" | Reply Resp

definition findHandler :: "url_parser \<Rightarrow> 'h pattern list \<Rightarrow> Req \<Rightarrow> 'h routed" where
  \<comment> \<open>the patterns of the service never overlap, so the first match is the only one\<close>
  "findHandler parse pats r =
     (let path = (if hr_Method r = ''CONNECT'' then hr_EscapedPath r else cleanPath (hr_EscapedPath r));
          segs = path_segments path in
      if path \<noteq> hr_EscapedPath r then
        Reply (http_Redirect parse r (path_escape path @ (if hr_RawQuery r = [] then [] else CHR ''?'' # hr_RawQuery r)) 301)
      else case find (\<lambda>(m, ps, _). method_match m (hr_Method r) \<and> seg_match ps segs \<noteq> None) pats of
        Some (_, ps, h) \<Rightarrow> Handler h (case seg_match ps segs of None \<Rightarrow> [] | Some vs \<Rightarrow> vs)
      | None \<Rightarrow>
          (case allowed_methods pats segs of
             [] \<Rightarrow> Reply (http_Error ''404 page not found'' 404)
           | ms \<Rightarrow> Reply (let e = http_Error ''Method Not Allowed'' 405
                          in e\<lparr>re_Header := (''Allow'', Join ms '', '') # re_Header e\<rparr>)))"

section \<open>Plain query strings\<close>

lemma split_on_nonempty [simp]: "split_on c s \<noteq> []"
  by (induction s) auto

definition query_plain :: "string \<Rightarrow> bool" where
  "query_plain s \<longleftrightarrow> CHR ''&'' \<notin> set s \<and> CHR '';'' \<notin> set s \<and> CHR ''='' \<notin> set s \<and> CHR ''+'' \<notin> set s \<and> CHR ''%'' \<notin> set s"

lemma unescape_plain: "CHR ''%'' \<notin> set s \<Longrightarrow> unescape s = Some s"
  by (induction s) auto

lemma QueryUnescape_plain: "query_plain s \<Longrightarrow> QueryUnescape s = Some s"
proof -
  assume q: "query_plain s"
  have "CHR ''+'' \<notin> set t \<Longrightarrow> map (\<lambda>c. if c = CHR ''+'' then CHR '' '' else c) t = t" for t by (induction t) auto
  then show ?thesis using q by (simp add: QueryUnescape_def unescape_plain query_plain_def)
qed

lemma split_on_plain: "c \<notin> set p \<Longrightarrow> split_on c (p @ c # s) = p # split_on c s" "c \<notin> set p \<Longrightarrow> split_on c p = [p]"
  by (induction p) auto

lemma Cut_eq: "CHR ''='' \<notin> set k \<Longrightarrow> Cut (k @ CHR ''='' # v) ''='' = (k, v, True)"
  by (induction k) (auto simp: HasPrefix_def)

lemma ParseQuery_two:
  assumes "query_plain k" "query_plain v" "query_plain k'" "query_plain v'"
  shows "ParseQuery (k @ ''='' @ v @ ''&'' @ k' @ ''='' @ v') = [(k, v), (k', v')]"
proof -
  have amp: "CHR ''&'' \<notin> set (k @ CHR ''='' # v)" "CHR ''&'' \<notin> set (k' @ CHR ''='' # v')" using assms by (simp_all add: query_plain_def)
  have "split_on (CHR ''&'') ((k @ CHR ''='' # v) @ CHR ''&'' # (k' @ CHR ''='' # v')) = [k @ CHR ''='' # v, k' @ CHR ''='' # v']"
    by (simp only: split_on_plain(1) [OF amp(1)] split_on_plain(2) [OF amp(2)])
  moreover have "CHR ''='' \<notin> set k" "CHR ''='' \<notin> set k'" using assms by (simp_all add: query_plain_def)
  moreover have "CHR '';'' \<notin> set (k @ CHR ''='' # v)" "CHR '';'' \<notin> set (k' @ CHR ''='' # v')" using assms by (simp_all add: query_plain_def)
  ultimately show ?thesis using assms by (simp add: ParseQuery_def Cut_eq QueryUnescape_plain)
qed

section \<open>Redirects stay on the site\<close>

lemma split_on_parts: "t \<in> set (split_on c s) \<Longrightarrow> c \<notin> set t \<and> set t \<subseteq> set s"
proof (induction s arbitrary: t)
  case (Cons d s)
  obtain h ts where "split_on c s = h # ts" by (cases "split_on c s") auto
  with Cons show ?case by (fastforce split: if_splits)
qed simp

lemma clean_segs_parts:
  "t \<in> set (clean_segs rooted ss out) \<Longrightarrow> [] \<notin> set out \<Longrightarrow> t \<in> set ss \<union> set out \<and> t \<noteq> []"
proof (induction ss arbitrary: out)
  case (Cons s ss)
  define out' where "out' = (if s = [] \<or> s = ''.'' then out else if s = ''..''
    then (case out of [] \<Rightarrow> if rooted then [] else [s] | t # o' \<Rightarrow> if t = ''..'' then s # out else o') else s # out)"
  have "clean_segs rooted (s # ss) out = clean_segs rooted ss out'" by (simp add: out'_def split: list.split)
  moreover have "[] \<notin> set out'" "set out' \<subseteq> insert s (set out)"
    using Cons.prems(2) by (auto simp: out'_def split: list.splits if_splits)
  ultimately show ?case using Cons.IH [of out'] Cons.prems(1) by auto
qed auto

lemma hd_Join: "xs \<noteq> [] \<Longrightarrow> hd xs \<noteq> [] \<Longrightarrow> Join xs sep \<noteq> [] \<and> hd (Join xs sep) = hd (hd xs)"
  by (cases "(xs, sep)" rule: Join.cases) auto

definition one_slash :: "string \<Rightarrow> bool" where
  \<comment> \<open>a path of this host: not \<^verbatim>\<open>//host\<close>, nor \<^verbatim>\<open>/\\host\<close>, which browsers read as that\<close>
  "one_slash u \<longleftrightarrow> (\<exists>t. u = CHR ''/'' # t \<and> (t = [] \<or> hd t \<noteq> CHR ''/'' \<and> hd t \<noteq> CHR 0x5C))"

definition control :: "char \<Rightarrow> bool" where
  "control c \<longleftrightarrow> code c < 0x20 \<or> code c = 0x7f"

definition browser_reads :: "string \<Rightarrow> string" where
  \<comment> \<open>what a browser makes of a URL first: tabs and line breaks are dropped\<close>
  "browser_reads u = filter (\<lambda>c. c \<notin> {CHR 0x09, CHR 0x0A, CHR 0x0D}) u"

lemma browser_reads_plain: "\<not> list_ex control u \<Longrightarrow> browser_reads u = u"
  by (auto simp: browser_reads_def list_ex_iff control_def filter_id_conv)

lemma one_slash_append: "one_slash u \<Longrightarrow> v = [] \<or> hd v \<noteq> CHR ''/'' \<and> hd v \<noteq> CHR 0x5C \<Longrightarrow> one_slash (u @ v)"
  unfolding one_slash_def by (cases u; cases "tl u") auto

lemma path_Clean_one_slash:
  assumes "HasPrefix p ''/''" "CHR 0x5C \<notin> set p"
  shows "one_slash (path_Clean p)"
proof -
  define segs where "segs = clean_segs True (split_on (CHR ''/'') p) []"
  have c: "path_Clean p = CHR ''/'' # Join segs ''/''" using assms(1) by (simp add: path_Clean_def segs_def)
  show ?thesis
  proof (cases "segs = []")
    case False
    have "hd segs \<in> set (clean_segs True (split_on (CHR ''/'') p) [])" using False by (simp add: segs_def)
    from clean_segs_parts [OF this] have h: "hd segs \<in> set (split_on (CHR ''/'') p)" "hd segs \<noteq> []" by auto
    have "hd (hd segs) \<in> set (hd segs)" using h(2) by simp
    moreover have "CHR ''/'' \<notin> set (hd segs)" "CHR 0x5C \<notin> set (hd segs)" using split_on_parts [OF h(1)] assms(2) by blast+
    ultimately have "hd (hd segs) \<noteq> CHR ''/''" "hd (hd segs) \<noteq> CHR 0x5C" by (metis, metis)
    then show ?thesis using hd_Join [OF False h(2)] by (auto simp: c one_slash_def)
  qed (simp add: c one_slash_def)
qed

lemma clean_keep_one_slash:
  assumes "HasPrefix p ''/''" "CHR 0x5C \<notin> set p"
  shows "one_slash (clean_keep p)"
proof -
  have "path_Clean p \<noteq> ''/'' \<Longrightarrow> one_slash (path_Clean p @ ''/'')"
    using path_Clean_one_slash [OF assms] by (auto simp: one_slash_def)
  then show ?thesis using path_Clean_one_slash [OF assms]
    by (cases "path_Clean p = ''/''") (auto simp: clean_keep_def Let_def HasSuffix_def)
qed

lemma hexEscape_one_slash: "one_slash u \<Longrightarrow> one_slash (hexEscapeNonASCII u)"
proof -
  assume "one_slash u"
  then obtain t where t: "u = CHR ''/'' # t" "t = [] \<or> hd t \<noteq> CHR ''/'' \<and> hd t \<noteq> CHR 0x5C" by (auto simp: one_slash_def)
  show ?thesis using t(2) by (cases t) (auto simp: t(1) hexEscapeNonASCII_def one_slash_def)
qed

lemma Cut_set: "Cut s sep = (a, b, ok) \<Longrightarrow> set a \<subseteq> set s \<and> set b \<subseteq> set s"
proof (induction s arbitrary: a b ok)
  case (Cons c s)
  then show ?case by (auto split: if_splits prod.splits dest: in_set_dropD)
qed (auto split: if_splits)

lemma Cut_char_hd: "Cut (d # s) [c] = (a, b, ok) \<Longrightarrow> d \<noteq> c \<Longrightarrow> a \<noteq> [] \<and> hd a = d"
  by (auto simp: HasPrefix_def split: prod.splits)

lemma path_dir_slash: "HasPrefix p ''/'' \<Longrightarrow> HasPrefix (path_dir p) ''/'' \<and> set (path_dir p) \<subseteq> set p"
proof -
  assume "HasPrefix p ''/''"
  then obtain t where t: "p = CHR ''/'' # t" by (auto simp: HasPrefix_iff)
  have "path_dir p = CHR ''/'' # rev (dropWhile (\<lambda>c. c \<noteq> CHR ''/'') (rev t)) \<or> path_dir p = ''/''"
    unfolding path_dir_def t by (auto simp: dropWhile_append)
  then show ?thesis using set_dropWhileD [of _ "\<lambda>c. c \<noteq> CHR ''/''" "rev p"]
    by (auto simp: HasPrefix_def path_dir_def)
qed

lemma set_Join: "set (Join xs sep) \<subseteq> \<Union> (set ` set xs) \<union> set sep"
  by (induction xs sep rule: Join.induct) auto

lemma set_clean_keep: "HasPrefix p ''/'' \<Longrightarrow> set (clean_keep p) \<subseteq> insert (CHR ''/'') (set p)"
proof -
  assume p: "HasPrefix p ''/''"
  define segs where "segs = clean_segs True (split_on (CHR ''/'') p) []"
  have "path_Clean p = CHR ''/'' # Join segs ''/''" using p by (simp add: path_Clean_def segs_def)
  moreover have "set t \<subseteq> set p" if "t \<in> set segs" for t
    using clean_segs_parts [of t True "split_on (CHR ''/'') p" "[]"] split_on_parts [of t "CHR ''/''" p] that by (auto simp: segs_def)
  ultimately have "set (path_Clean p) \<subseteq> insert (CHR ''/'') (set p)" using set_Join [of segs "''/''"] by fastforce
  then show ?thesis by (auto simp: clean_keep_def Let_def)
qed

lemma hexEscape_control: "\<not> list_ex control u \<Longrightarrow> \<not> list_ex control (hexEscapeNonASCII u)"
proof -
  have "list_all (\<lambda>i. \<not> control (''0123456789abcdef'' ! i)) [0..<16]" by code_simp
  then have hex: "\<not> control (''0123456789abcdef'' ! i)" if "i < 16" for i using that by (simp add: list_all_iff)
  have "code c < 256" for c by (cases c) (auto simp: of_char_Char split: bool.splits)
  then have "code c div 16 < 16" "code c mod 16 < 16" for c by (simp_all add: div_less_iff_less_mult)
  then show "\<not> list_ex control u \<Longrightarrow> \<not> list_ex control (hexEscapeNonASCII u)" using hex
    by (auto simp: hexEscapeNonASCII_def list_ex_iff) (simp add: control_def)
qed

lemma redirect_one_slash:
  assumes "parse url = Some ([], [], path)" "CHR 0x5C \<notin> set url" "\<not> list_ex control url"
    and "HasPrefix (hr_URLPath r) ''/''" "CHR 0x5C \<notin> set (hr_URLPath r)" "\<not> list_ex control (hr_URLPath r)"
  shows "\<exists>u. re_Location (http_Redirect parse r url status) = Some u \<and> one_slash u \<and> \<not> list_ex control u"
proof -
  define u where "u = (if HasPrefix url ''/'' then url else path_dir (hr_URLPath r) @ url)"
  have u: "HasPrefix u ''/''" "CHR 0x5C \<notin> set u" "\<not> list_ex control u"
    using assms path_dir_slash [OF assms(4)] by (auto simp: u_def HasPrefix_iff list_ex_iff)
  obtain p q ok where cut: "Cut u ''?'' = (p, q, ok)" by (metis prod_cases3)
  obtain t where t: "u = CHR ''/'' # t" using u(1) by (auto simp: HasPrefix_iff)
  have "p \<noteq> []" "hd p = CHR ''/''" using Cut_char_hd cut t by force+
  then have p: "HasPrefix p ''/''" by (cases p) (auto simp: HasPrefix_iff)
  define w where "w = clean_keep p @ (if ok then CHR ''?'' # q else [])"
  have "CHR 0x5C \<notin> set p" using Cut_set [OF cut] u(2) by blast
  with p have "one_slash w" unfolding w_def by (intro one_slash_append clean_keep_one_slash) auto
  moreover have "set w \<subseteq> {CHR ''/'', CHR ''?''} \<union> set u"
    using set_clean_keep [OF p] Cut_set [OF cut] by (auto simp: w_def)
  then have "\<not> list_ex control w" using u(3) by (auto simp: list_ex_iff control_def)
  moreover have "redirect_target parse r url = w" unfolding w_def
    using assms(1,4) cut by (cases "hr_URLPath r = []") (auto simp: redirect_target_def Let_def u_def HasPrefix_def)
  ultimately show ?thesis using hexEscape_one_slash hexEscape_control by (simp add: http_Redirect_def)
qed

end
