(* ===== verification/Json.thy ===== *)
theory Json
  imports Http
begin

text \<open>
  The parts of \<^verbatim>\<open>encoding/json\<close> that the cookies and Coder's replies go through: printing strings, the parser with the
  treatment of escapes, surrogates and invalid UTF-8, and the rules by which a value is stored in a
  field. Strings are byte sequences; \<open>rune_len\<close> is the length of the UTF-8 sequence at the start of one. The limit on
  the depth of nesting is left out. The parser's fuel is twice the length of its input: two nested calls consume at least a byte.
\<close>

section \<open>UTF-8\<close>

definition between :: "nat \<Rightarrow> nat \<Rightarrow> char \<Rightarrow> bool" where
  "between a b c \<longleftrightarrow> a \<le> code c \<and> code c \<le> b"

fun rune_len :: "string \<Rightarrow> nat option" where
  \<comment> \<open>None where \<^verbatim>\<open>utf8.DecodeRune\<close> reports an error of width one\<close>
  "rune_len (a # s) =
     (if code a < 0x80 then Some 1
      else case s of
        b # s \<Rightarrow>
          if between 0xC2 0xDF a then (if between 0x80 0xBF b then Some 2 else None)
          else (case s of
            c # s \<Rightarrow>
              if between 0xE0 0xEF a then
                (if between (if code a = 0xE0 then 0xA0 else 0x80) (if code a = 0xED then 0x9F else 0xBF) b \<and> between 0x80 0xBF c
                 then Some 3 else None)
              else (case s of
                d # _ \<Rightarrow>
                  if between 0xF0 0xF4 a \<and> between (if code a = 0xF0 then 0x90 else 0x80) (if code a = 0xF4 then 0x8F else 0xBF) b \<and>
                     between 0x80 0xBF c \<and> between 0x80 0xBF d
                  then Some 4 else None
              | [] \<Rightarrow> None)
          | [] \<Rightarrow> None)
      | [] \<Rightarrow> None)"
| "rune_len [] = None"

definition EncodeRune :: "nat \<Rightarrow> string" where
  "EncodeRune r =
     (if r < 0x80 then [byte r]
      else if r < 0x800 then [byte (0xC0 + r div 0x40), byte (0x80 + r mod 0x40)]
      else if r < 0x10000 then [byte (0xE0 + r div 0x1000), byte (0x80 + r div 0x40 mod 0x40), byte (0x80 + r mod 0x40)]
      else [byte (0xF0 + r div 0x40000), byte (0x80 + r div 0x1000 mod 0x40), byte (0x80 + r div 0x40 mod 0x40), byte (0x80 + r mod 0x40)])"

definition rune_error :: string where
  "rune_error = [byte 0xEF, byte 0xBF, byte 0xBD]"

function utf8_ok :: "string \<Rightarrow> bool" where
  "utf8_ok s = (s = [] \<or> (case rune_len s of None \<Rightarrow> False | Some w \<Rightarrow> utf8_ok (drop (max 1 w) s)))"
  by auto
termination
proof (relation "measure length")
  fix s w assume "rune_len s = Some w"
  then have "s \<noteq> []" by auto
  then show "(drop (max 1 w) s, s) \<in> measure length" by simp
qed simp

declare utf8_ok.simps [simp del]

section \<open>Strings\<close>

definition hex_lower :: "nat \<Rightarrow> char" where
  "hex_lower n = ''0123456789abcdef'' ! (n mod 16)"

definition bs :: char where
  "bs = CHR 0x5C"

definition dq :: char where
  "dq = CHR 0x22"

definition esc :: "char \<Rightarrow> string" where
  \<comment> \<open>an ASCII character inside a string, with HTML escaping\<close>
  "esc c =
     (if c = dq \<or> c = bs then [bs, c]
      else if c = CHR 0x08 then [bs, CHR ''b''] else if c = CHR 0x0C then [bs, CHR ''f'']
      else if c = CHR 0x0A then [bs, CHR ''n''] else if c = CHR 0x0D then [bs, CHR ''r''] else if c = CHR 0x09 then [bs, CHR ''t'']
      else if code c < 0x20 \<or> c = CHR ''<'' \<or> c = CHR ''>'' \<or> c = CHR 0x26
      then [bs, CHR ''u'', CHR ''0'', CHR ''0'', hex_lower (code c div 16), hex_lower (code c)]
      else [c])"

function quote :: "string \<Rightarrow> string" where
  \<comment> \<open>the inside of a printed string\<close>
  "quote [] = []"
| "quote (c # s) =
     (if code c < 0x80 then esc c @ quote s
      else case rune_len (c # s) of
        None \<Rightarrow> bs # ''ufffd'' @ quote s
      | Some w \<Rightarrow>
          (if take 3 (c # s) = EncodeRune 0x2028 then bs # ''u2028''
           else if take 3 (c # s) = EncodeRune 0x2029 then bs # ''u2029''
           else take w (c # s)) @ quote (drop (w - 1) s))"
  by pat_completeness auto
termination
  by (relation "measure length") auto

declare quote.simps(2) [simp del]

definition jstring :: "string \<Rightarrow> string" where
  "jstring s = dq # quote s @ [dq]"

definition jbool :: "bool \<Rightarrow> string" where
  "jbool b = (if b then ''true'' else ''false'')"

definition hex4 :: "char \<Rightarrow> char \<Rightarrow> char \<Rightarrow> char \<Rightarrow> nat option" where
  "hex4 a b c d = (case (hex_value a, hex_value b, hex_value c, hex_value d) of
      (Some x, Some y, Some z, Some w) \<Rightarrow> Some (((x * 16 + y) * 16 + z) * 16 + w)
    | _ \<Rightarrow> None)"

definition surrogate :: "nat \<Rightarrow> bool" where
  "surrogate r \<longleftrightarrow> 0xD800 \<le> r \<and> r < 0xE000"

definition pair_rune :: "nat \<Rightarrow> nat \<Rightarrow> nat option" where
  \<comment> \<open>\<^verbatim>\<open>utf16.DecodeRune\<close>\<close>
  "pair_rune hi lo = (if 0xD800 \<le> hi \<and> hi < 0xDC00 \<and> 0xDC00 \<le> lo \<and> lo < 0xE000
     then Some ((hi - 0xD800) * 0x400 + (lo - 0xDC00) + 0x10000) else None)"

definition simple_esc :: "(char \<times> char) list" where
  "simple_esc = [(dq, dq), (bs, bs), (CHR ''/'', CHR ''/''), (CHR ''b'', CHR 0x08), (CHR ''f'', CHR 0x0C),
     (CHR ''n'', CHR 0x0A), (CHR ''r'', CHR 0x0D), (CHR ''t'', CHR 0x09)]"

definition second_unit :: "string \<Rightarrow> nat option" where
  \<comment> \<open>the value of an escape \<^verbatim>\<open>uXXXX\<close> at the start\<close>
  "second_unit s = (case s of
      x # u # a # b # c # d # _ \<Rightarrow> if x = bs \<and> u = CHR ''u'' then hex4 a b c d else None
    | _ \<Rightarrow> None)"

function unquote :: "string \<Rightarrow> (string \<times> string) option" where
  \<comment> \<open>a string literal after its opening quote: its value and what follows the closing one\<close>
  "unquote [] = None"
| "unquote (c # s) =
     (if c = dq then Some ([], s)
      else if c = bs then
        (case s of
           [] \<Rightarrow> None
         | e # t \<Rightarrow>
             (case map_of simple_esc e of
                Some v \<Rightarrow> map_option (apfst (Cons v)) (unquote t)
              | None \<Rightarrow>
                  if e \<noteq> CHR ''u'' then None
                  else (case t of
                    h1 # h2 # h3 # h4 # t' \<Rightarrow>
                      (case hex4 h1 h2 h3 h4 of
                         None \<Rightarrow> None
                       | Some r \<Rightarrow>
                           if \<not> surrogate r then map_option (apfst (append (EncodeRune r))) (unquote t')
                           else (case map_option (pair_rune r) (second_unit t') of
                             Some (Some p) \<Rightarrow> map_option (apfst (append (EncodeRune p))) (unquote (drop 6 t'))
                           | _ \<Rightarrow> map_option (apfst (append rune_error)) (unquote t')))
                  | _ \<Rightarrow> None)))
      else if code c < 0x20 then None
      else if code c < 0x80 then map_option (apfst (Cons c)) (unquote s)
      else (case rune_len (c # s) of
          None \<Rightarrow> map_option (apfst (append rune_error)) (unquote s)
        | Some w \<Rightarrow> map_option (apfst (append (take w (c # s)))) (unquote (drop (w - 1) s))))"
  by pat_completeness auto
termination
  by (relation "measure length") auto

declare unquote.simps(2) [simp del]

section \<open>Values\<close>

datatype jtext = TNull | TBool bool | TNum string | TStr string | TArr "jtext list" | TObj "(string \<times> jtext) list"

definition skip :: "string \<Rightarrow> string" where
  "skip s = dropWhile (\<lambda>c. c = CHR '' '' \<or> c = CHR 0x09 \<or> c = CHR 0x0A \<or> c = CHR 0x0D) s"

definition jdigits :: "string \<Rightarrow> (string \<times> string) option" where
  \<comment> \<open>one digit or more\<close>
  "jdigits s = (let ds = takeWhile is_digit s in if ds = [] then None else Some (ds, dropWhile is_digit s))"

definition jint :: "string \<Rightarrow> (string \<times> string) option" where
  "jint s = (case jdigits s of None \<Rightarrow> None
    | Some (ds, t) \<Rightarrow> if hd ds = CHR ''0'' then Some (''0'', tl s) else Some (ds, t))"

definition jfrac :: "string \<Rightarrow> (string \<times> string) option" where
  "jfrac s = (case s of
      c # t \<Rightarrow> if c = CHR ''.'' then map_option (apfst (Cons c)) (jdigits t) else Some ([], s)
    | [] \<Rightarrow> Some ([], s))"

definition jexp :: "string \<Rightarrow> (string \<times> string) option" where
  "jexp s = (case s of
      c # t \<Rightarrow> if c = CHR ''e'' \<or> c = CHR ''E'' then
          (case t of
             d # u \<Rightarrow> if d = CHR ''+'' \<or> d = CHR ''-'' then map_option (apfst (\<lambda>x. c # d # x)) (jdigits u)
                      else map_option (apfst (Cons c)) (jdigits t)
           | [] \<Rightarrow> None)
        else Some ([], s)
    | [] \<Rightarrow> Some ([], s))"

definition jnumber :: "string \<Rightarrow> (string \<times> string) option" where
  "jnumber s =
     (let (sign, s1) = (if HasPrefix s ''-'' then (''-'', tl s) else ([], s)) in
      case jint s1 of None \<Rightarrow> None | Some (i, s2) \<Rightarrow>
     (case jfrac s2 of None \<Rightarrow> None | Some (f, s3) \<Rightarrow>
     (case jexp s3 of None \<Rightarrow> None | Some (e, s4) \<Rightarrow> Some (sign @ i @ f @ e, s4))))"

fun jvalue :: "nat \<Rightarrow> string \<Rightarrow> (jtext \<times> string) option"
  and jmembers :: "nat \<Rightarrow> string \<Rightarrow> ((string \<times> jtext) list \<times> string) option"
  and jelems :: "nat \<Rightarrow> string \<Rightarrow> (jtext list \<times> string) option" where
  "jvalue 0 s = None"
| "jvalue (Suc n) s = (case skip s of
      [] \<Rightarrow> None
    | c # t \<Rightarrow>
        if c = CHR ''{'' then
          (if HasPrefix (skip t) ''}'' then Some (TObj [], tl (skip t)) else map_option (apfst TObj) (jmembers n t))
        else if c = CHR ''['' then
          (if HasPrefix (skip t) '']'' then Some (TArr [], tl (skip t)) else map_option (apfst TArr) (jelems n t))
        else if c = dq then map_option (apfst TStr) (unquote t)
        else if HasPrefix (c # t) ''true'' then Some (TBool True, drop 4 (c # t))
        else if HasPrefix (c # t) ''false'' then Some (TBool False, drop 5 (c # t))
        else if HasPrefix (c # t) ''null'' then Some (TNull, drop 4 (c # t))
        else map_option (apfst TNum) (jnumber (c # t)))"
| "jmembers 0 s = None"
| "jmembers (Suc n) s = (if \<not> HasPrefix (skip s) [dq] then None else
     case unquote (tl (skip s)) of None \<Rightarrow> None | Some (k, u) \<Rightarrow>
     if \<not> HasPrefix (skip u) '':'' then None else
     case jvalue n (tl (skip u)) of None \<Rightarrow> None | Some (v, w) \<Rightarrow>
     if HasPrefix (skip w) '','' then map_option (apfst (Cons (k, v))) (jmembers n (tl (skip w)))
     else if HasPrefix (skip w) ''}'' then Some ([(k, v)], tl (skip w)) else None)"
| "jelems 0 s = None"
| "jelems (Suc n) s = (case jvalue n s of None \<Rightarrow> None | Some (v, w) \<Rightarrow>
     if HasPrefix (skip w) '','' then map_option (apfst (Cons v)) (jelems n (tl (skip w)))
     else if HasPrefix (skip w) '']'' then Some ([v], tl (skip w)) else None)"

definition json_first :: "string \<Rightarrow> jtext option" where
  \<comment> \<open>\<^verbatim>\<open>Decoder.Decode\<close> reads the first value\<close>
  "json_first s = map_option fst (jvalue (2 * length s + 2) s)"

definition json_whole :: "string \<Rightarrow> jtext option" where
  \<comment> \<open>\<^verbatim>\<open>json.Unmarshal\<close> wants nothing after it\<close>
  "json_whole s = (case jvalue (2 * length s + 2) s of
      Some (v, rest) \<Rightarrow> if skip rest = [] then Some v else None | None \<Rightarrow> None)"

section \<open>Storing a value in a struct\<close>

fun fold_key :: "string \<Rightarrow> string" where
  \<comment> \<open>the case folding of keys: ASCII, and the two other characters that fold to an ASCII letter\<close>
  "fold_key (a # b # c # s) = (if [a, b, c] = [byte 0xE2, byte 0x84, byte 0xAA] then CHR ''K'' # fold_key s
     else if [a, b] = [byte 0xC5, byte 0xBF] then CHR ''S'' # fold_key (c # s)
     else (if 97 \<le> code a \<and> code a \<le> 122 then byte (code a - 32) else a) # fold_key (b # c # s))"
| "fold_key [a, b] = (if [a, b] = [byte 0xC5, byte 0xBF] then ''S''
     else (if 97 \<le> code a \<and> code a \<le> 122 then byte (code a - 32) else a) # fold_key [b])"
| "fold_key [a] = [if 97 \<le> code a \<and> code a \<le> 122 then byte (code a - 32) else a]"
| "fold_key [] = []"

definition key_is :: "string \<Rightarrow> string \<Rightarrow> bool" where
  "key_is k name \<longleftrightarrow> fold_key k = fold_key name"

definition put_string :: "jtext \<Rightarrow> (string \<Rightarrow> 'u) \<Rightarrow> 'u \<Rightarrow> 'u option" where
  "put_string v f u = (case v of TStr s \<Rightarrow> Some (f s) | TNull \<Rightarrow> Some u | _ \<Rightarrow> None)"

definition put_bool :: "jtext \<Rightarrow> (bool \<Rightarrow> 'u) \<Rightarrow> 'u \<Rightarrow> 'u option" where
  "put_bool v f u = (case v of TBool b \<Rightarrow> Some (f b) | TNull \<Rightarrow> Some u | _ \<Rightarrow> None)"

definition put_int :: "jtext \<Rightarrow> (int \<Rightarrow> 'u) \<Rightarrow> 'u \<Rightarrow> 'u option" where
  "put_int v f u = (case v of TNum l \<Rightarrow> (case Atoi l of (n, None) \<Rightarrow> Some (f n) | _ \<Rightarrow> None) | TNull \<Rightarrow> Some u | _ \<Rightarrow> None)"

fun put_all :: "(string \<Rightarrow> jtext \<Rightarrow> 'u \<Rightarrow> 'u option) \<Rightarrow> (string \<times> jtext) list \<Rightarrow> 'u \<Rightarrow> 'u option" where
  \<comment> \<open>a value of the wrong type is an error of the whole\<close>
  "put_all put [] u = Some u"
| "put_all put ((k, v) # fs) u = (case put k v u of None \<Rightarrow> None | Some u' \<Rightarrow> put_all put fs u')"

definition into_struct :: "(string \<Rightarrow> jtext \<Rightarrow> 'u \<Rightarrow> 'u option) \<Rightarrow> 'u \<Rightarrow> jtext \<Rightarrow> 'u option" where
  "into_struct put u v = (case v of TObj fs \<Rightarrow> put_all put fs u | TNull \<Rightarrow> Some u | _ \<Rightarrow> None)"

end
