(* ===== verification/JsonFacts.thy ===== *)
theory JsonFacts
  imports Json
begin

text \<open>
  Facts on the JSON model: a printed string of valid UTF-8 and a printed number are read back, every parser consumes
  input, and the fuel that \<open>json_whole\<close> and \<open>json_first\<close> give is enough (\<open>fuel_enough\<close>).
\<close>

section \<open>A printed string is read back\<close>

lemma rune_len_bounds: "rune_len s = Some w \<Longrightarrow> 1 \<le> w \<and> w \<le> length s \<and> w \<le> 4"
  by (cases s rule: rune_len.cases) (auto split: if_splits list.splits)

lemma rune_len_take: "rune_len s = Some w \<Longrightarrow> rune_len (take w s @ t) = Some w"
  by (cases s rule: rune_len.cases) (auto split: if_splits list.splits)

lemma rune_len_hd: "rune_len (c # s) = Some w \<Longrightarrow> 0x80 \<le> code c \<Longrightarrow> 2 \<le> w"
  by (auto split: if_splits list.splits)

lemma rune_len_E2: "rune_len (c # s) = Some w \<Longrightarrow> code c = 0xE2 \<Longrightarrow> w = 3"
  by (auto simp: between_def split: if_splits list.splits)

lemma hex_lower_value: "n < 16 \<Longrightarrow> hex_value (hex_lower n) = Some n"
proof -
  have "list_all (\<lambda>n. hex_value (hex_lower n) = Some n) [0..<16]" by code_simp
  then show "n < 16 \<Longrightarrow> hex_value (hex_lower n) = Some n" by (simp add: list_all_iff)
qed

lemma hex_lower_mod: "hex_lower (n mod 16) = hex_lower n"
  by (simp add: hex_lower_def)

lemma hex4_esc: "code c < 0x80 \<Longrightarrow> hex4 (CHR ''0'') (CHR ''0'') (hex_lower (code c div 16)) (hex_lower (code c)) = Some (code c)"
proof -
  assume c: "code c < 0x80"
  have "hex_value (CHR ''0'') = Some 0" by code_simp
  moreover have "code c div 16 < 16" using c by (simp add: div_less_iff_less_mult)
  moreover have "hex_value (hex_lower (code c)) = Some (code c mod 16)" using hex_lower_value [of "code c mod 16"] by (simp add: hex_lower_mod)
  ultimately show ?thesis by (simp add: hex4_def hex_lower_value)
qed

lemma simple_esc_lookup:
  "map_of simple_esc dq = Some dq" "map_of simple_esc bs = Some bs" "map_of simple_esc (CHR ''b'') = Some (CHR 0x08)" "map_of simple_esc (CHR ''f'') = Some (CHR 0x0C)"
  "map_of simple_esc (CHR ''n'') = Some (CHR 0x0A)" "map_of simple_esc (CHR ''r'') = Some (CHR 0x0D)" "map_of simple_esc (CHR ''t'') = Some (CHR 0x09)"
  "map_of simple_esc (CHR ''u'') = None" "bs \<noteq> dq"
  by (simp_all add: simple_esc_def dq_def bs_def)

lemma unquote_simple: "map_of simple_esc e = Some v \<Longrightarrow> unquote (bs # e # t) = map_option (apfst (Cons v)) (unquote t)"
  by (subst unquote.simps) (simp add: simple_esc_lookup)

lemma unquote_u: "hex4 a b c d = Some r \<Longrightarrow> \<not> surrogate r \<Longrightarrow>
    unquote (bs # CHR ''u'' # a # b # c # d # t) = map_option (apfst (append (EncodeRune r))) (unquote t)"
  by (subst unquote.simps) (simp add: simple_esc_lookup)

lemma unquote_esc: "code c < 0x80 \<Longrightarrow> unquote (esc c @ t) = map_option (apfst (Cons c)) (unquote t)"
proof -
  assume c: "code c < 0x80"
  have u: "unquote (bs # CHR ''u'' # CHR ''0'' # CHR ''0'' # hex_lower (code c div 16) # hex_lower (code c) # t) = map_option (apfst (Cons c)) (unquote t)"
    using c by (subst unquote_u [OF hex4_esc [OF c]]) (simp_all add: surrogate_def EncodeRune_def byte_def append_Cons [abs_def])
  have plain: "unquote (c # t) = map_option (apfst (Cons c)) (unquote t)" if "c \<noteq> dq" "c \<noteq> bs" "0x20 \<le> code c"
    using that c by (subst unquote.simps) simp
  show ?thesis using u plain
    by (auto simp: esc_def simple_esc_lookup unquote_simple)
qed

lemma unquote_quote: "utf8_ok s \<Longrightarrow> unquote (quote s @ dq # t) = Some (s, t)"
proof (induction s rule: quote.induct)
  case 1
  show ?case by (simp add: unquote.simps)
next
  case (2 c s)
  show ?case
  proof (cases "code c < 0x80")
    case True
    then have "utf8_ok s" using "2.prems" by (subst (asm) utf8_ok.simps) simp
    then show ?thesis using "2.IH"(1) True unquote_esc [of c "quote s @ dq # t"] by (simp add: quote.simps(2))
  next
    case False
    then obtain w where w: "rune_len (c # s) = Some w" "utf8_ok (drop w (c # s))"
      using "2.prems" rune_len_bounds [of "c # s"] by (subst (asm) utf8_ok.simps) (auto simp: max_def split: option.splits if_splits)
    note b = rune_len_bounds [OF w(1)] and w2 = rune_len_hd [OF w(1)]
    have rest: "drop w (c # s) = drop (w - 1) s" using b by (simp add: drop_Cons')
    have IH: "unquote (quote (drop (w - 1) s) @ dq # t) = Some (drop w (c # s), t)"
      using "2.IH"(3) [OF False w(1)] w(2) by (simp add: rest)
    have copied: "unquote (take w (c # s) @ quote (drop (w - 1) s) @ dq # t) = Some (c # s, t)"
    proof -
      let ?x = "quote (drop (w - 1) s) @ dq # t"
      have hd: "take w (c # s) @ ?x = c # take (w - 1) s @ ?x" using b by (simp add: take_Cons')
      have len: "rune_len (c # take (w - 1) s @ ?x) = Some w" using rune_len_take [OF w(1), of ?x] unfolding hd .
      have ne: "c \<noteq> dq" "c \<noteq> bs" using False by (auto simp: dq_def bs_def)
      have "take w (take w (c # s) @ ?x) = take w (c # s)" using b by (simp add: min_def)
      then have "take w (c # take (w - 1) s @ ?x) = take w (c # s)" unfolding hd .
      moreover have "drop (w - 1) (take (w - 1) s @ ?x) = ?x" using b by (simp add: min_def)
      ultimately
      have "unquote (take w (c # s) @ ?x) = map_option (apfst (append (take w (c # s)))) (unquote ?x)"
        unfolding hd using ne False len by (subst unquote.simps) simp
      then show ?thesis using IH by simp
    qed
    have sep: "unquote (bs # CHR ''u'' # h @ quote (drop (w - 1) s) @ dq # t) = Some (c # s, t)"
      if h: "h = [CHR ''2'', CHR ''0'', CHR ''2'', d]" "hex4 (CHR ''2'') (CHR ''0'') (CHR ''2'') d = Some r" "\<not> surrogate r" "take 3 (c # s) = EncodeRune r"
        "hd (EncodeRune r) = byte 0xE2" for h d r
    proof -
      have "c = byte 0xE2" using h(4,5) by (metis Suc_numeral list.sel(1) semiring_norm(5) numeral_3_eq_3 take_Suc_Cons)
      then have "code c = 0xE2" by (simp add: byte_def)
      then have "w = 3" by (rule rune_len_E2 [OF w(1)])
      then have "EncodeRune r @ drop w (c # s) = c # s" using h(4) append_take_drop_id [of 3 "c # s"] by metis
      then show ?thesis using IH unquote_u [OF h(2,3), of "quote (drop (w - 1) s) @ dq # t"] by (simp add: h(1))
    qed
    have q: "quote (c # s) = (if take 3 (c # s) = EncodeRune 0x2028 then bs # ''u2028''
           else if take 3 (c # s) = EncodeRune 0x2029 then bs # ''u2029'' else take w (c # s)) @ quote (drop (w - 1) s)"
      using False w(1) by (subst quote.simps) simp
    have "hex4 (CHR ''2'') (CHR ''0'') (CHR ''2'') (CHR ''8'') = Some 0x2028" "hex4 (CHR ''2'') (CHR ''0'') (CHR ''2'') (CHR ''9'') = Some 0x2029"
      "\<not> surrogate 0x2028" "\<not> surrogate 0x2029" "hd (EncodeRune 0x2028) = byte 0xE2" "hd (EncodeRune 0x2029) = byte 0xE2"
      by (simp_all add: hex4_def hex_value_def is_digit_def surrogate_def EncodeRune_def)
    note sep1 = sep [OF refl this(1,3) _ this(5)] and sep2 = sep [OF refl this(2,4) _ this(6)]
    consider "take 3 (c # s) = EncodeRune 0x2028" | "take 3 (c # s) \<noteq> EncodeRune 0x2028" "take 3 (c # s) = EncodeRune 0x2029"
      | "take 3 (c # s) \<noteq> EncodeRune 0x2028" "take 3 (c # s) \<noteq> EncodeRune 0x2029" by blast
    then show ?thesis
    proof cases
      case 1
      then have "quote (c # s) = (bs # ''u2028'') @ quote (drop (w - 1) s)" unfolding q by (simp only: if_True simp_thms)
      then show ?thesis using sep1 [OF 1] by simp
    next
      case 2
      then have "quote (c # s) = (bs # ''u2029'') @ quote (drop (w - 1) s)" unfolding q by (simp only: if_True if_False simp_thms)
      then show ?thesis using sep2 [OF 2(2)] by simp
    next
      case 3
      then have "quote (c # s) = take w (c # s) @ quote (drop (w - 1) s)" unfolding q by (simp only: if_False simp_thms)
      then show ?thesis using copied by (simp only: append_assoc)
    qed
  qed
qed

section \<open>A printed number is read back\<close>

lemma digit_chars:
  assumes "0 \<le> m" "m < 10"
  shows "is_digit (char_of (48 + m))" "int (code (char_of (48 + m))) - 48 = m" "char_of (48 + m) = CHR ''0'' \<longleftrightarrow> m = 0"
proof -
  have "list_all (\<lambda>m. is_digit (char_of (48 + m)) \<and> int (code (char_of (48 + m))) - 48 = m \<and> (char_of (48 + m) = CHR ''0'') = (m = 0)) [0..9]" by code_simp
  then have "is_digit (char_of (48 + m)) \<and> int (code (char_of (48 + m))) - 48 = m \<and> (char_of (48 + m) = CHR ''0'') = (m = 0)"
    using assms by (simp add: list_all_iff)
  then show "is_digit (char_of (48 + m))" "int (code (char_of (48 + m))) - 48 = m" "char_of (48 + m) = CHR ''0'' \<longleftrightarrow> m = 0" by blast+
qed

lemma utoa_digits: "0 \<le> n \<Longrightarrow> utoa n \<noteq> [] \<and> list_all is_digit (utoa n) \<and> (hd (utoa n) = CHR ''0'' \<longrightarrow> n = 0)"
proof (induction n rule: utoa.induct)
  case (1 n)
  have d: "0 \<le> n mod 10" "n mod 10 < 10" by simp_all
  show ?case
  proof (cases "n < 10")
    case True
    then have u: "utoa n = [char_of (48 + n mod 10)]" by (subst utoa.simps) simp
    have "n mod 10 = n" using True 1 by simp
    then show ?thesis using digit_chars [OF d] unfolding u by simp
  next
    case False
    then have u: "utoa n = utoa (n div 10) @ [char_of (48 + n mod 10)]" by (subst utoa.simps) simp
    have "utoa (n div 10) \<noteq> [] \<and> list_all is_digit (utoa (n div 10)) \<and> (hd (utoa (n div 10)) = CHR ''0'' \<longrightarrow> n div 10 = 0)"
      using 1 False by simp
    moreover have "n div 10 \<noteq> 0" using False 1 by (simp add: div_eq_0_iff) 
    ultimately show ?thesis using digit_chars(1) [OF d] unfolding u by simp
  qed
qed

lemma parse_uint_append:
  "parse_uint a s = (b, None) \<Longrightarrow> is_digit c \<Longrightarrow> b * 10 + (int (code c) - 48) < 2 ^ 64 \<Longrightarrow>
     parse_uint a (s @ [c]) = (b * 10 + (int (code c) - 48), None)"
  by (induction a s rule: parse_uint.induct) (auto simp: Let_def split: if_splits)

lemma parse_uint_utoa: "0 \<le> n \<Longrightarrow> n < 2 ^ 64 \<Longrightarrow> parse_uint 0 (utoa n) = (n, None)"
proof (induction n rule: utoa.induct)
  case (1 n)
  have d: "0 \<le> n mod 10" "n mod 10 < 10" by simp_all
  show ?case
  proof (cases "n < 10")
    case True
    then have u: "utoa n = [char_of (48 + n mod 10)]" by (subst utoa.simps) simp
    have "n mod 10 = n" using True 1 by simp
    then show ?thesis using digit_chars [OF d] True unfolding u by simp
  next
    case False
    then have u: "utoa n = utoa (n div 10) @ [char_of (48 + n mod 10)]" by (subst utoa.simps) simp
    have "parse_uint 0 (utoa (n div 10)) = (n div 10, None)" using 1 False by simp
    then show ?thesis unfolding u using parse_uint_append [of 0 "utoa (n div 10)" "n div 10" "char_of (48 + n mod 10)"] digit_chars [OF d] 1 by simp
  qed
qed

lemma Atoi_Itoa: "0 \<le> n \<Longrightarrow> n < 2 ^ 63 \<Longrightarrow> Atoi (Itoa n) = (n, None)"
proof -
  assume n: "0 \<le> n" "n < 2 ^ 63"
  note d = utoa_digits [OF n(1)]
  have "is_digit (hd (utoa n))" using d by (cases "utoa n") auto
  then have "hd (utoa n) \<noteq> CHR ''-''" "hd (utoa n) \<noteq> CHR ''+''" by (auto simp: is_digit_def)
  then show ?thesis using n d parse_uint_utoa [of n] by (simp add: Atoi_def Itoa_def ParseUint_def)
qed

definition delim :: "string \<Rightarrow> bool" where
  \<comment> \<open>what may follow a printed value\<close>
  "delim t \<longleftrightarrow> t = [] \<or> hd t \<in> {CHR '','', CHR ''}'', CHR '']''}"

lemma jnumber_utoa:
  assumes "0 \<le> n" "delim t"
  shows "jint (utoa n @ t) = Some (utoa n, t)" "jfrac t = Some ([], t)" "jexp t = Some ([], t)"
proof -
  note d = utoa_digits [OF assms(1)]
  have h: "t = [] \<or> (\<exists>h u. t = h # u \<and> \<not> is_digit h \<and> h \<noteq> CHR ''.'' \<and> h \<noteq> CHR ''e'' \<and> h \<noteq> CHR ''E'')"
    using assms(2) by (cases t) (auto simp: delim_def is_digit_def)
  have w: "takeWhile is_digit (utoa n @ t) = utoa n" "dropWhile is_digit (utoa n @ t) = t"
    using d h by (auto simp: takeWhile_append dropWhile_append list_all_iff)
  have zero: "utoa 0 = ''0''" by code_simp
  show "jint (utoa n @ t) = Some (utoa n, t)"
    using d by (cases "hd (utoa n) = CHR ''0''") (auto simp: jint_def jdigits_def w zero Let_def)
  show "jfrac t = Some ([], t)" "jexp t = Some ([], t)" using h by (auto simp: jfrac_def jexp_def)
qed

lemma jnumber_Itoa: "delim t \<Longrightarrow> jnumber (Itoa n @ t) = Some (Itoa n, t)"
proof (cases "n < 0")
  case False
  then have "\<not> HasPrefix (utoa n @ t) ''-''" using utoa_digits [of n] by (cases "utoa n") (auto simp: HasPrefix_def is_digit_def)
  then show "delim t \<Longrightarrow> ?thesis" using False jnumber_utoa [of n t] by (simp add: jnumber_def Itoa_def)
next
  case True
  then show "delim t \<Longrightarrow> ?thesis" using jnumber_utoa [of "- n" t] by (simp add: jnumber_def Itoa_def HasPrefix_def)
qed

section \<open>Printed values\<close>

lemma utf8_ok_ascii [simp]: "utf8_ok []" "code c < 0x80 \<Longrightarrow> utf8_ok (c # s) = utf8_ok s"
  by (subst utf8_ok.simps, simp)+

lemma ascii_utf8: "list_all (\<lambda>c. code c < 0x80) s \<Longrightarrow> utf8_ok s"
  by (induction s) simp_all

lemma skip_simps [simp]: "skip (c # s) = (if c = CHR '' '' \<or> c = CHR 0x09 \<or> c = CHR 0x0A \<or> c = CHR 0x0D then skip s else c # s)" "skip [] = []"
  by (simp_all add: skip_def)

lemma HasPrefix_Cons [simp]: "HasPrefix (c # s) (d # p) \<longleftrightarrow> c = d \<and> HasPrefix s p" "HasPrefix s []" "\<not> HasPrefix [] (d # p)"
  by (auto simp: HasPrefix_def)

lemma jvalue_string: "utf8_ok s \<Longrightarrow> jvalue (Suc n) (jstring s @ t) = Some (TStr s, t)"
  using unquote_quote [of s t] by (simp add: jstring_def dq_def)

lemma jvalue_bool: "jvalue (Suc n) (jbool b @ t) = Some (TBool b, t)"
  by (simp add: jbool_def dq_def)

lemma jvalue_int: "delim t \<Longrightarrow> jvalue (Suc n) (Itoa k @ t) = Some (TNum (Itoa k), t)"
proof -
  assume t: "delim t"
  obtain c u where u: "Itoa k = c # u" "is_digit c \<or> c = CHR ''-''"
    using utoa_digits [of k] by (cases "k < 0"; cases "utoa k") (auto simp: Itoa_def)
  have c: "c \<noteq> CHR ''{''" "c \<noteq> CHR ''[''" "c \<noteq> dq" "c \<noteq> CHR ''t''" "c \<noteq> CHR ''f''" "c \<noteq> CHR ''n''" "c \<noteq> CHR '' ''" "c \<noteq> CHR 0x09" "c \<noteq> CHR 0x0A" "c \<noteq> CHR 0x0D"
    using u(2) by (auto simp: is_digit_def dq_def)
  show ?thesis using jnumber_Itoa [OF t, of k] c unfolding u(1) by simp
qed

section \<open>The fuel is enough\<close>

lemma skip_le: "length (skip s) \<le> length s"
  by (simp add: skip_def length_dropWhile_le)

lemma unquote_rest:
  assumes "unquote (c # s) = Some (v, t)"
  shows "t = s \<or> (\<exists>s' v'. length s' \<le> length s \<and> unquote s' = Some (v', t))"
proof -
  have via: ?thesis if "map_option (apfst f) (unquote s') = Some (v, t)" "length s' \<le> length s" for f s'
    using that by (cases "unquote s'") auto
  consider "c = dq" | "c \<noteq> dq" "c = bs" | "c \<noteq> dq" "c \<noteq> bs" by blast
  then show ?thesis
  proof cases
    case 1
    then show ?thesis using assms by (simp add: unquote.simps(2))
  next
    case 3
    then show ?thesis using assms via [of _ s] via [of _ "drop n s" for n]
      by (simp add: unquote.simps(2) split: if_splits option.splits)
  next
    case 2
    then obtain e u where s: "s = e # u" using assms by (cases s) (simp_all add: unquote.simps(2))
    show ?thesis
    proof (cases "map_of simple_esc e")
      case (Some x)
      then show ?thesis using assms 2 via [of _ u] by (simp add: unquote.simps(2) s)
    next
      case None
      then obtain a b d h u' r where u: "u = a # b # d # h # u'" "hex4 a b d h = Some r"
        using assms 2 by (auto simp: unquote.simps(2) s split: if_splits list.splits option.splits)
      show ?thesis using assms 2 None via [of _ u'] via [of _ "drop 6 u'"]
        by (simp add: unquote.simps(2) s u split: if_splits option.splits)
    qed
  qed
qed

lemma unquote_shrinks: "unquote s = Some (v, t) \<Longrightarrow> length t < length s"
proof (induction s arbitrary: v t rule: length_induct)
  case (1 s)
  then obtain c s1 where s: "s = c # s1" by (cases s) auto
  from unquote_rest [of c s1 v t] 1 s show ?case by (metis length_Cons less_SucI less_Suc_eq_le le_less_trans lessI)
qed

lemma jdigits_shrinks: "jdigits s = Some (d, t) \<Longrightarrow> length t < length s"
  by (induction s) (auto simp: jdigits_def Let_def split: if_splits intro: le_imp_less_Suc length_dropWhile_le)

lemma jnumber_shrinks: "jnumber s = Some (d, t) \<Longrightarrow> length t < length s"
proof -
  have i: "length t < length s" if "jint s = Some (d, t)" for s d t
    using that jdigits_shrinks [of s] by (cases s) (auto simp: jint_def split: option.splits if_splits prod.splits)
  have f: "length t \<le> length s" if "jfrac s = Some (d, t)" for s d t
    using that jdigits_shrinks by (fastforce simp: jfrac_def split: list.splits if_splits)
  have e: "length t \<le> length s" if "jexp s = Some (d, t)" for s d t
    using that jdigits_shrinks by (fastforce simp: jexp_def split: list.splits if_splits)
  show "jnumber s = Some (d, t) \<Longrightarrow> length t < length s"
    by (auto simp: jnumber_def Let_def split: option.splits if_splits prod.splits dest!: i f e)
qed

lemma HasPrefix_tl: "HasPrefix (skip s) [c] \<Longrightarrow> length (tl (skip s)) < length s"
  using skip_le [of s] by (cases "skip s") (auto simp: HasPrefix_def)

lemma HasPrefix_drop: "HasPrefix s p \<Longrightarrow> p \<noteq> [] \<Longrightarrow> length (drop (length p) s) < length s"
  by (cases p) (auto simp: HasPrefix_def)

lemma parser_shrinks:
  "(jvalue n s = Some (v, w) \<longrightarrow> length w < length s) \<and> (jmembers n s = Some (ms, w) \<longrightarrow> length w < length s) \<and> (jelems n s = Some (es, w) \<longrightarrow> length w < length s)"
proof (induction n arbitrary: s v w ms es)
  case (Suc n)
  have v: "length w < length s" if run: "jvalue (Suc n) s = Some (v, w)"
  proof -
    obtain c t where t: "skip s = c # t" using run by (cases "skip s") auto
    have le: "length (c # t) \<le> length s" using skip_le [of s] t by simp
    have "length w < length (c # t)"
    proof (cases "c = CHR ''{'' \<or> c = CHR ''['' \<or> c = dq")
      case True
      have "length w < length t"
        using run t True Suc.IH [of t] HasPrefix_tl [of t] unquote_shrinks [of t] by (auto simp: dq_def split: if_splits)
      then show ?thesis by simp
    next
      case False
      then show ?thesis
        using run t jnumber_shrinks [of "c # t"] HasPrefix_drop [of "c # t" "''true''"] HasPrefix_drop [of "c # t" "''false''"] HasPrefix_drop [of "c # t" "''null''"]
        by (auto simp: dq_def split: if_splits)
    qed
    then show ?thesis using le by simp
  qed
  have m: "length w < length s" if run: "jmembers (Suc n) s = Some (ms, w)"
  proof -
    obtain k u where u: "HasPrefix (skip s) [dq]" "unquote (tl (skip s)) = Some (k, u)" "HasPrefix (skip u) '':''"
      using run by (auto split: if_splits option.splits)
    obtain x y where x: "jvalue n (tl (skip u)) = Some (x, y)" using run u by (auto split: option.splits)
    have "length y < length s"
      using HasPrefix_tl [OF u(1)] unquote_shrinks [OF u(2)] HasPrefix_tl [OF u(3)] Suc.IH [THEN conjunct1, rule_format, OF x] by linarith
    moreover have "length w < length y"
      using run u x Suc.IH [of "tl (skip y)"] HasPrefix_tl [of y] by (auto split: if_splits) (fastforce dest: less_trans)
    ultimately show ?thesis by simp
  qed
  have e: "length w < length s" if run: "jelems (Suc n) s = Some (es, w)"
  proof -
    obtain x y where x: "jvalue n s = Some (x, y)" using run by (auto split: option.splits)
    have "length y < length s" by (rule Suc.IH [THEN conjunct1, rule_format, OF x])
    moreover have "length w < length y"
      using run x Suc.IH [of "tl (skip y)"] HasPrefix_tl [of y] by (auto split: if_splits) (fastforce dest: less_trans)
    ultimately show ?thesis by simp
  qed
  show ?case using v m e by blast
qed simp

lemmas jvalue_shrinks = parser_shrinks [THEN conjunct1, rule_format]

lemma fuel_step:
  "(2 * length s + 1 \<le> n \<longrightarrow> jvalue (Suc n) s = jvalue n s) \<and> (2 * length s + 1 \<le> n \<longrightarrow> jmembers (Suc n) s = jmembers n s) \<and>
   (2 * length s + 2 \<le> n \<longrightarrow> jelems (Suc n) s = jelems n s)"
proof (induction n arbitrary: s)
  case (Suc n)
  have IH: "2 * length s + 1 \<le> n \<Longrightarrow> jvalue (Suc n) s = jvalue n s" "2 * length s + 1 \<le> n \<Longrightarrow> jmembers (Suc n) s = jmembers n s"
    "2 * length s + 2 \<le> n \<Longrightarrow> jelems (Suc n) s = jelems n s" for s using Suc.IH by blast+
  have v: "jvalue (Suc (Suc n)) s = jvalue (Suc n) s" if l: "2 * length s + 1 \<le> Suc n"
  proof (cases "skip s")
    case (Cons c t)
    have "2 * length t + 2 \<le> n" using skip_le [of s] l Cons by simp
    then have "jmembers (Suc n) t = jmembers n t" "jelems (Suc n) t = jelems n t" using IH by simp_all
    then show ?thesis by (simp only: jvalue.simps Cons list.case)
  qed simp
  have m: "jmembers (Suc (Suc n)) s = jmembers (Suc n) s" if l: "2 * length s + 1 \<le> Suc n"
  proof (cases "HasPrefix (skip s) [dq]")
    case True
    show ?thesis
    proof (cases "unquote (tl (skip s))")
      case (Some p)
      obtain k u where p: "p = (k, u)" by fastforce
      have u: "length u < length s" using HasPrefix_tl [OF True] unquote_shrinks Some p by fastforce
      show ?thesis
      proof (cases "HasPrefix (skip u) '':''")
        case colon: True
        have eq: "jvalue (Suc n) (tl (skip u)) = jvalue n (tl (skip u))" using HasPrefix_tl [OF colon] u l by (intro IH(1)) simp
        have "jmembers (Suc n) (tl (skip y)) = jmembers n (tl (skip y))" if y: "jvalue n (tl (skip u)) = Some (x, y)" "HasPrefix (skip y) '',''" for x y
          using HasPrefix_tl [OF y(2)] jvalue_shrinks [OF y(1)] HasPrefix_tl [OF colon] u l by (intro IH(2)) simp
        note next_eq = this
        have unf: "jmembers (Suc m) s = (case jvalue m (tl (skip u)) of None \<Rightarrow> None | Some (v, w) \<Rightarrow>
            if HasPrefix (skip w) '','' then map_option (apfst (Cons (k, v))) (jmembers m (tl (skip w)))
            else if HasPrefix (skip w) ''}'' then Some ([(k, v)], tl (skip w)) else None)" for m
          using True Some p colon by simp
        show ?thesis unfolding unf [of "Suc n"] unf [of n] eq
          by (cases "jvalue n (tl (skip u))") (auto simp: next_eq simp del: jmembers.simps jvalue.simps)
      qed (simp add: Some p)
    qed (simp add: True)
  qed simp
  have e: "jelems (Suc (Suc n)) s = jelems (Suc n) s" if l: "2 * length s + 2 \<le> Suc n"
  proof -
    have eq: "jvalue (Suc n) s = jvalue n s" using l by (intro IH(1)) simp
    have "jelems (Suc n) (tl (skip y)) = jelems n (tl (skip y))" if y: "jvalue n s = Some (x, y)" "HasPrefix (skip y) '',''" for x y
      using HasPrefix_tl [OF y(2)] jvalue_shrinks [OF y(1)] l by (intro IH(3)) simp
    then show ?thesis unfolding jelems.simps(2) eq by (cases "jvalue n s") (auto simp del: jelems.simps jvalue.simps)
  qed
  show ?case using v m e by blast
qed simp

lemma fuel_enough: "2 * length s + 2 \<le> n \<Longrightarrow> jvalue n s = jvalue (2 * length s + 2) s"
proof (induction n)
  case (Suc n)
  show ?case
  proof (cases "Suc n = 2 * length s + 2")
    case False
    then have "2 * length s + 2 \<le> n" using Suc.prems by simp
    then show ?thesis using Suc.IH fuel_step [of s n] by simp
  qed (simp only:)
qed simp

end
