(* ===== verification/Base64.thy ===== *)
theory Base64
  imports GoLib
begin

text \<open>
  \<^verbatim>\<open>base64.RawURLEncoding\<close> of Go's standard library: the URL alphabet without padding, with the
  decoder's treatment of line breaks (skipped) and of trailing bits (ignored).
\<close>

section \<open>Definitions\<close>

definition b64_alphabet :: string where
  "b64_alphabet = ''ABCDEFGHIJKLMNOPQRSTUVWXYZabcdefghijklmnopqrstuvwxyz0123456789-_''"

definition b64_char :: "nat \<Rightarrow> char" where
  "b64_char i = b64_alphabet ! i"

definition b64_index :: "char \<Rightarrow> nat option" where
  "b64_index c = index_byte b64_alphabet c"

fun b64 :: "string \<Rightarrow> string" where
  "b64 [] = []"
| "b64 [a] = map b64_char [code a div 4, code a mod 4 * 16]"
| "b64 [a, b] = map b64_char [code a div 4, code a mod 4 * 16 + code b div 16, code b mod 16 * 4]"
| "b64 (a # b # c # s) =
     map b64_char [code a div 4, code a mod 4 * 16 + code b div 16, code b mod 16 * 4 + code c div 64, code c mod 64] @ b64 s"

fun b64_bytes :: "nat list \<Rightarrow> string option" where
  "b64_bytes [] = Some []"
| "b64_bytes [i] = None"
| "b64_bytes [i, j] = Some [byte (i * 4 + j div 16)]"
| "b64_bytes [i, j, k] = Some [byte (i * 4 + j div 16), byte (j mod 16 * 16 + k div 4)]"
| "b64_bytes (i # j # k # l # is) =
     map_option (\<lambda>s. byte (i * 4 + j div 16) # byte (j mod 16 * 16 + k div 4) # byte (k mod 4 * 64 + l) # s) (b64_bytes is)"

definition DecodeString :: "string \<Rightarrow> string option" where
  "DecodeString s =
     (let cs = filter (\<lambda>c. c \<noteq> CHR 0x0A \<and> c \<noteq> CHR 0x0D) s; is = map b64_index cs in
      if None \<in> set is then None else b64_bytes (map the is))"

section \<open>Round trip\<close>

lemma b64_index_char: "i < 64 \<Longrightarrow> b64_index (b64_char i) = Some i"
proof -
  have "list_all (\<lambda>i. b64_index (b64_char i) = Some i) [0..<64]" by code_simp
  then show "i < 64 \<Longrightarrow> b64_index (b64_char i) = Some i" by (simp add: list_all_iff)
qed

lemma b64_char_safe: "i < 64 \<Longrightarrow> b64_char i \<notin> {CHR ''.'', CHR ''|'', CHR 0x0A, CHR 0x0D}"
proof -
  have "list_all (\<lambda>i. b64_char i \<notin> {CHR ''.'', CHR ''|'', CHR 0x0A, CHR 0x0D}) [0..<64]" by code_simp
  then show "i < 64 \<Longrightarrow> b64_char i \<notin> {CHR ''.'', CHR ''|'', CHR 0x0A, CHR 0x0D}" by (simp add: list_all_iff)
qed

fun b64_indices :: "string \<Rightarrow> nat list" where
  \<comment> \<open>the encoder before the alphabet\<close>
  "b64_indices [] = []"
| "b64_indices [a] = [code a div 4, code a mod 4 * 16]"
| "b64_indices [a, b] = [code a div 4, code a mod 4 * 16 + code b div 16, code b mod 16 * 4]"
| "b64_indices (a # b # c # s) =
     [code a div 4, code a mod 4 * 16 + code b div 16, code b mod 16 * 4 + code c div 64, code c mod 64] @ b64_indices s"

lemma b64_map: "b64 s = map b64_char (b64_indices s)"
  by (induction s rule: b64.induct) simp_all

lemma code_less: "code c < 256"
  by simp

lemma sextets:
  fixes x y z :: nat
  assumes "x < 256" "y < 256" "z < 256"
  shows "x div 4 < 64" "x mod 4 * 16 + y div 16 < 64" "y mod 16 * 4 + z div 64 < 64" "x mod 4 * 16 < 64" "y mod 16 * 4 < 64" "z mod 64 < 64"
    "x div 4 * 4 + (x mod 4 * 16 + y div 16) div 16 = x"
    "(x mod 4 * 16 + y div 16) mod 16 * 16 + (y mod 16 * 4 + z div 64) div 4 = y"
    "(y mod 16 * 4 + z div 64) mod 4 * 64 + z mod 64 = z"
    "x div 4 * 4 + (x mod 4 * 16) div 16 = x" "(x mod 4 * 16 + y div 16) mod 16 * 16 + (y mod 16 * 4) div 4 = y"
proof -
  have small: "y div 16 < 16" "z div 64 < 4" "x div 4 < 64" using assms by (simp_all add: div_less_iff_less_mult)
  have split: "(x mod 4 * 16 + y div 16) div 16 = x mod 4" "(x mod 4 * 16 + y div 16) mod 16 = y div 16"
    "(y mod 16 * 4 + z div 64) div 4 = y mod 16" "(y mod 16 * 4 + z div 64) mod 4 = z div 64"
    using small by simp_all
  have m: "x mod 4 < 4" "y mod 16 < 16" "z mod 64 < 64" by simp_all
  show "x div 4 < 64" "z mod 64 < 64" by (rule small(3), rule m(3))
  show "x mod 4 * 16 + y div 16 < 64" "y mod 16 * 4 + z div 64 < 64" "x mod 4 * 16 < 64" "y mod 16 * 4 < 64"
    using m small by linarith+
  show "x div 4 * 4 + (x mod 4 * 16 + y div 16) div 16 = x" "x div 4 * 4 + (x mod 4 * 16) div 16 = x"
    "(x mod 4 * 16 + y div 16) mod 16 * 16 + (y mod 16 * 4 + z div 64) div 4 = y"
    "(x mod 4 * 16 + y div 16) mod 16 * 16 + (y mod 16 * 4) div 4 = y"
    "(y mod 16 * 4 + z div 64) mod 4 * 64 + z mod 64 = z"
    unfolding split by simp_all
qed

lemma byte_code: "n = code c \<Longrightarrow> byte n = c"
  by (simp add: byte_def)

lemma b64_indices_less: "i \<in> set (b64_indices s) \<Longrightarrow> i < 64"
proof (induction s rule: b64_indices.induct)
  case (2 a) then show ?case using sextets [OF code_less [of a] code_less code_less] by auto
next
  case (3 a b) then show ?case using sextets [OF code_less [of a] code_less [of b] code_less] by auto
next
  case (4 a b c s) then show ?case using sextets [OF code_less [of a] code_less [of b] code_less [of c]] by auto
qed simp

lemma bytes_indices: "b64_bytes (b64_indices s) = Some s"
proof (induction s rule: b64_indices.induct)
  case (2 a)
  show ?case using sextets(10) [OF code_less [of a] code_less code_less] by (simp only: b64_indices.simps b64_bytes.simps byte_code)
next
  case (3 a b)
  show ?case using sextets(7,11) [OF code_less [of a] code_less [of b] code_less]
    by (simp only: b64_indices.simps b64_bytes.simps byte_code)
next
  case (4 a b c s)
  then show ?case using sextets(7-9) [OF code_less [of a] code_less [of b] code_less [of c]]
    by (simp only: b64_indices.simps append.simps b64_bytes.simps byte_code option.map)
qed simp

lemma b64_chars: "c \<in> set (b64 s) \<Longrightarrow> c \<notin> {CHR ''.'', CHR ''|'', CHR 0x0A, CHR 0x0D}"
  using b64_indices_less b64_char_safe unfolding b64_map by fastforce

lemma DecodeString_b64: "DecodeString (b64 s) = Some s"
proof -
  have "filter (\<lambda>c. c \<noteq> CHR 0x0A \<and> c \<noteq> CHR 0x0D) (b64 s) = b64 s"
    using b64_chars by (intro filter_True) auto
  moreover have "map b64_index (b64 s) = map Some (b64_indices s)"
    unfolding b64_map map_map by (rule map_cong) (auto simp: b64_index_char b64_indices_less)
  ultimately show ?thesis unfolding DecodeString_def Let_def by (simp only: set_map) (auto simp: bytes_indices comp_def)
qed

lemma b64_inj: "b64 s = b64 t \<Longrightarrow> s = t"
  by (metis DecodeString_b64 option.inject)

end
