(* ===== verification/Auth.thy ===== *)
theory Auth
  imports JsonFacts Sha256 Base64
begin

text \<open>
  Package auth (src/admin/internal/auth/auth.go): login through Coder, the signed cookies, and the
  gate in front of every handler.

  A request is the record of what the code reads of it; a response the record of what it writes
  (cookies, status, redirect target, body). A handler may change a state of its own, which is passed
  through. What is not computed here is in the record \<open>Env\<close>: the clock in seconds, the random bytes,
  \<^verbatim>\<open>net/url.Parse\<close> (scheme, host and path, None on an error), the oauth2 package, and Coder's
  reply to \<^verbatim>\<open>users/me\<close> (status and body, None when the request fails).
\<close>

section \<open>Definitions\<close>

definition sessionCookie :: string where
  "sessionCookie = ''sc_session''"

definition flowCookie :: string where
  "flowCookie = ''sc_oauth''"

definition sessionTTL :: int where
  \<comment> \<open>8 hours in nanoseconds\<close>
  "sessionTTL = 8 * 3600 * 1000000000"

record Config =
  CoderURL :: string
  CoderInternalURL :: string
  ClientID :: string
  ClientSecret :: string
  CallbackURL :: string
  Key :: string
  TestToken :: string

record User =
  u_ID :: string
  u_Name :: string
  u_Admin :: bool
  u_CSRF :: string
  u_Exp :: int
  u_Bearer :: bool

definition zero_user :: User where
  "zero_user = \<lparr>u_ID = [], u_Name = [], u_Admin = False, u_CSRF = [], u_Exp = 0, u_Bearer = False\<rparr>"

definition testUser :: User where
  "testUser = \<lparr>u_ID = ''test-hook'', u_Name = ''test-hook'', u_Admin = True, u_CSRF = [], u_Exp = 0, u_Bearer = True\<rparr>"

record flow =
  f_State :: string
  f_Verifier :: string
  f_Next :: string
  f_Exp :: int

definition zero_flow :: flow where
  "zero_flow = \<lparr>f_State = [], f_Verifier = [], f_Next = [], f_Exp = 0\<rparr>"

record OAuth =
  oa_ClientID :: string
  oa_ClientSecret :: string
  oa_RedirectURL :: string
  oa_AuthURL :: string
  oa_TokenURL :: string

record Authn =
  au_c :: Config
  au_oauth :: OAuth

record MeBody =
  mb_id :: string
  mb_username :: string
  mb_roles :: "string list"

record Env =
  e_now :: int
  e_rand :: string
  e_verifier :: string
  e_parse :: url_parser
  e_authcode :: "OAuth \<Rightarrow> string \<Rightarrow> string \<Rightarrow> string"
  e_exchange :: "OAuth \<Rightarrow> string \<Rightarrow> string \<Rightarrow> string option"
  e_me :: "string \<Rightarrow> string \<Rightarrow> (int \<times> string) option"

definition jkey :: "string \<Rightarrow> string" where
  "jkey k = dq # k @ [dq, CHR '':'']"

definition marshal_user :: "User \<Rightarrow> string" where
  \<comment> \<open>Bearer is not in the payload\<close>
  "marshal_user u = ''{'' @ jkey ''ID'' @ jstring (u_ID u) @ '','' @ jkey ''Name'' @ jstring (u_Name u) @ '','' @ jkey ''Admin'' @ jbool (u_Admin u) @ '','' @
     jkey ''CSRF'' @ jstring (u_CSRF u) @ '','' @ jkey ''Exp'' @ Itoa (u_Exp u) @ ''}''"

definition put_user :: "string \<Rightarrow> jtext \<Rightarrow> User \<Rightarrow> User option" where
  "put_user k v u =
     (if key_is k ''ID'' then put_string v (\<lambda>s. u\<lparr>u_ID := s\<rparr>) u
      else if key_is k ''Name'' then put_string v (\<lambda>s. u\<lparr>u_Name := s\<rparr>) u
      else if key_is k ''Admin'' then put_bool v (\<lambda>b. u\<lparr>u_Admin := b\<rparr>) u
      else if key_is k ''CSRF'' then put_string v (\<lambda>s. u\<lparr>u_CSRF := s\<rparr>) u
      else if key_is k ''Exp'' then put_int v (\<lambda>n. u\<lparr>u_Exp := n\<rparr>) u
      else Some u)"

definition unmarshal_user :: "string \<Rightarrow> User option" where
  "unmarshal_user s = Option.bind (json_whole s) (into_struct put_user zero_user)"

definition marshal_flow :: "flow \<Rightarrow> string" where
  "marshal_flow f = ''{'' @ jkey ''State'' @ jstring (f_State f) @ '','' @ jkey ''Verifier'' @ jstring (f_Verifier f) @ '','' @ jkey ''Next'' @ jstring (f_Next f) @ '','' @
     jkey ''Exp'' @ Itoa (f_Exp f) @ ''}''"

definition put_flow :: "string \<Rightarrow> jtext \<Rightarrow> flow \<Rightarrow> flow option" where
  "put_flow k v f =
     (if key_is k ''State'' then put_string v (\<lambda>s. f\<lparr>f_State := s\<rparr>) f
      else if key_is k ''Verifier'' then put_string v (\<lambda>s. f\<lparr>f_Verifier := s\<rparr>) f
      else if key_is k ''Next'' then put_string v (\<lambda>s. f\<lparr>f_Next := s\<rparr>) f
      else if key_is k ''Exp'' then put_int v (\<lambda>n. f\<lparr>f_Exp := n\<rparr>) f
      else Some f)"

definition unmarshal_flow :: "string \<Rightarrow> flow option" where
  "unmarshal_flow s = Option.bind (json_whole s) (into_struct put_flow zero_flow)"

fun put_roles :: "jtext list \<Rightarrow> string list \<Rightarrow> string list option" where
  \<comment> \<open>each element is stored over the one of an earlier occurrence of the key\<close>
  "put_roles [] old = Some []"
| "put_roles (v # vs) old = (case into_struct (\<lambda>k v role. if key_is k ''name'' then put_string v (\<lambda>s. s) role else Some role)
        (if old = [] then [] else hd old) v of
      None \<Rightarrow> None
    | Some role \<Rightarrow> map_option (Cons role) (put_roles vs (if old = [] then [] else tl old)))"

definition put_me :: "string \<Rightarrow> jtext \<Rightarrow> MeBody \<Rightarrow> MeBody option" where
  "put_me k v b =
     (if key_is k ''id'' then put_string v (\<lambda>s. b\<lparr>mb_id := s\<rparr>) b
      else if key_is k ''username'' then put_string v (\<lambda>s. b\<lparr>mb_username := s\<rparr>) b
      else if key_is k ''roles'' then
        (case v of TArr vs \<Rightarrow> map_option (\<lambda>rs. b\<lparr>mb_roles := rs\<rparr>) (put_roles vs (mb_roles b)) | TNull \<Rightarrow> Some (b\<lparr>mb_roles := []\<rparr>) | _ \<Rightarrow> None)
      else Some b)"

definition decode_me :: "string \<Rightarrow> MeBody option" where
  "decode_me body = Option.bind (json_first body) (into_struct put_me \<lparr>mb_id = [], mb_username = [], mb_roles = []\<rparr>)"

definition New :: "Config \<Rightarrow> string + Authn" where
  "New c = (if length (Key c) < 32 then Inl ''session key must be at least 32 bytes''
     else Inr \<lparr>au_c = c, au_oauth = \<lparr>oa_ClientID = ClientID c, oa_ClientSecret = ClientSecret c, oa_RedirectURL = CallbackURL c,
       oa_AuthURL = TrimRight (CoderURL c) ''/'' @ ''/oauth2/authorize'',
       oa_TokenURL = TrimRight (CoderInternalURL c) ''/'' @ ''/oauth2/tokens''\<rparr>\<rparr>)"

definition mac :: "Authn \<Rightarrow> string \<Rightarrow> string" where
  "mac a s = hmac_sha256 (Key (au_c a)) s"

definition random :: "Env \<Rightarrow> string" where
  "random E = b64 (e_rand E)"

definition setSigned :: "Authn \<Rightarrow> string \<Rightarrow> string \<Rightarrow> int \<Rightarrow> Cookie" where
  \<comment> \<open>the payload is the marshalled value\<close>
  "setSigned a name payload ttl =
     \<lparr>ck_Name = name, ck_Value = b64 payload @ ''.'' @ b64 (mac a (name @ ''|'' @ b64 payload)),
      ck_Path = ''/'', ck_HttpOnly = True, ck_SameSite = ''Lax'', ck_MaxAge = int_seconds ttl\<rparr>"

definition getSigned :: "Authn \<Rightarrow> (string \<Rightarrow> 'v option) \<Rightarrow> Req \<Rightarrow> string \<Rightarrow> 'v option" where
  "getSigned a unmarshal r name = (case map_of (hr_Cookies r) name of
      None \<Rightarrow> None
    | Some v \<Rightarrow>
        (case Cut v ''.'' of (payload, sig, ok) \<Rightarrow>
           if \<not> ok \<or> sig \<noteq> b64 (mac a (name @ ''|'' @ payload)) then None
           else (case DecodeString payload of None \<Rightarrow> None | Some raw \<Rightarrow> unmarshal raw)))"

definition localPath :: "Env \<Rightarrow> string \<Rightarrow> bool" where
  "localPath E next = (case e_parse E next of
      None \<Rightarrow> False
    | Some (scheme, host, path) \<Rightarrow>
        if scheme \<noteq> [] \<or> host \<noteq> [] \<or> \<not> HasPrefix path ''/'' \<or> HasPrefix path ''//'' then False
        else \<not> list_ex (\<lambda>c. code c < 0x20 \<or> code c = 0x7f \<or> c = CHR 0x5C) (next @ path))"

definition Login :: "Env \<Rightarrow> Authn \<Rightarrow> Req \<Rightarrow> Resp" where
  "Login E a r =
     (let next0 = get_or [] (hr_Query r) ''next'';
          next = (if localPath E next0 then next0 else ''/'');
          f = \<lparr>f_State = random E, f_Verifier = e_verifier E, f_Next = next, f_Exp = e_now E + 600\<rparr>
      in with_cookie (setSigned a flowCookie (marshal_flow f) (600 * 1000000000))
           (http_Redirect (e_parse E) r (e_authcode E (au_oauth a) (f_State f) (f_Verifier f)) 302))"

definition me :: "Env \<Rightarrow> Authn \<Rightarrow> string \<Rightarrow> User option" where
  "me E a token = (case e_me E (TrimRight (CoderInternalURL (au_c a)) ''/'' @ ''/api/v2/users/me'') token of
      None \<Rightarrow> None
    | Some (status, body) \<Rightarrow>
        if status \<noteq> 200 then None
        else (case decode_me body of None \<Rightarrow> None
          | Some b \<Rightarrow> if mb_id b = [] then None
              else Some (fold (\<lambda>role u. if role = ''owner'' \<or> role = ''user-admin'' then u\<lparr>u_Admin := True\<rparr> else u) (mb_roles b)
                     (zero_user\<lparr>u_ID := mb_id b, u_Name := mb_username b\<rparr>))))"

definition Issue :: "Env \<Rightarrow> Authn \<Rightarrow> User \<Rightarrow> User \<times> Cookie" where
  "Issue E a u =
     (let u = u\<lparr>u_CSRF := random E, u_Exp := e_now E + sessionTTL div 1000000000, u_Bearer := False\<rparr>
      in (u, setSigned a sessionCookie (marshal_user u) sessionTTL))"

definition Callback :: "Env \<Rightarrow> Authn \<Rightarrow> Req \<Rightarrow> Resp" where
  "Callback E a r =
     (let state = get_or [] (hr_Query r) ''state'';
          refused = http_Error ''login expired or invalid; start again at /login'' 400 in
      case getSigned a unmarshal_flow r flowCookie of
        None \<Rightarrow> refused
      | Some f \<Rightarrow>
          if f_Exp f < e_now E \<or> state \<noteq> f_State f then refused
          else with_cookie (setSigned a flowCookie (marshal_flow zero_flow) (-1))
            (case e_exchange E (au_oauth a) (get_or [] (hr_Query r) ''code'') (f_Verifier f) of
               None \<Rightarrow> http_Error ''coder token exchange failed'' 502
             | Some tok \<Rightarrow>
                 (case me E a tok of
                    None \<Rightarrow> http_Error ''coder user lookup failed'' 502
                  | Some u \<Rightarrow> with_cookie (snd (Issue E a u)) (http_Redirect (e_parse E) r (f_Next f) 302))))"

definition Logout :: "Env \<Rightarrow> Authn \<Rightarrow> Req \<Rightarrow> User \<Rightarrow> Resp" where
  "Logout E a r u = with_cookie (setSigned a sessionCookie (marshal_user zero_user) (-1)) (http_Redirect (e_parse E) r ''/'' 302)"

definition caller :: "Env \<Rightarrow> Authn \<Rightarrow> Req \<Rightarrow> User option" where
  \<comment> \<open>method User\<close>
  "caller E a r =
     (let h = hr_Authorization r in
      if HasPrefix h ''Bearer '' then
        (if TestToken (au_c a) \<noteq> [] \<and> drop (length ''Bearer '') h = TestToken (au_c a) then Some testUser else None)
      else (case getSigned a unmarshal_user r sessionCookie of
              None \<Rightarrow> None
            | Some u \<Rightarrow> if u_Exp u < e_now E \<or> u_ID u = [] \<or> u_CSRF u = [] then None else Some u))"

definition Require :: "Env \<Rightarrow> Authn \<Rightarrow> bool \<Rightarrow> (Req \<Rightarrow> User \<Rightarrow> 's \<Rightarrow> Resp \<times> 's) \<Rightarrow> Req \<Rightarrow> 's \<Rightarrow> Resp \<times> 's" where
  "Require E a admin h r s =
     (case caller E a r of
        None \<Rightarrow> (if hr_Method r = ''GET'' then http_Redirect (e_parse E) r (''/login?next='' @ QueryEscape (hr_URI r)) 302
                 else http_Error ''login required'' 401, s)
      | Some u \<Rightarrow>
          if admin \<and> \<not> u_Admin u then (http_Error ''admin only'' 403, s)
          else if hr_Method r \<noteq> ''GET'' \<and> hr_Method r \<noteq> ''HEAD'' \<and> \<not> u_Bearer u \<and> get_or [] (hr_Form r) ''csrf'' \<noteq> u_CSRF u
          then (http_Error ''invalid CSRF token; reload the page'' 403, s)
          else h r u s)"

section \<open>A small instance, for the concrete runs\<close>

definition demo_env :: Env where
  "demo_env = \<lparr>e_now = 1000, e_rand = replicate 32 (CHR ''k''), e_verifier = ''v'', e_parse = (\<lambda>s. Some ([], [], s)),
     e_authcode = (\<lambda>_ state _. ''http://coder/authorize?state='' @ state), e_exchange = (\<lambda>_ _ _. Some ''tok''),
     e_me = (\<lambda>_ _. Some (200, ''{'' @ jkey ''id'' @ jstring ''u1'' @ '','' @ jkey ''username'' @ jstring ''ann'' @ '','' @ jkey ''roles'' @ ''[{'' @ jkey ''name'' @ jstring ''owner'' @ ''}]}''))\<rparr>"

definition demo_authn :: Authn where
  "demo_authn = (case New \<lparr>CoderURL = ''http://coder'', CoderInternalURL = ''http://coder/'', ClientID = ''c'', ClientSecret = ''s'',
     CallbackURL = ''http://admin/callback'', Key = replicate 32 (CHR ''k''), TestToken = ''hook''\<rparr> of Inr a \<Rightarrow> a)"

definition demo_req :: Req where
  "demo_req = \<lparr>hr_Method = ''GET'', hr_EscapedPath = ''/'', hr_URLPath = ''/'', hr_RawQuery = [], hr_URI = ''/'', hr_Query = [], hr_Form = [],
     hr_Path = [], hr_Cookies = [], hr_Authorization = []\<rparr>"

end
