(* ===== verification/Regex.thy ===== *)
theory Regex
  imports Prelude
begin

text \<open>
  Regular expressions with character classes and counted repetition, enough to write the
  patterns of the repository (\<^verbatim>\<open>nameRE\<close> in policy.go, the CHECK on zone names in
  001_init.sql) symbol by symbol. \<open>re_match\<close> is an executable whole-string matcher by
  derivatives; \<open>re_match_iff\<close> shows that it decides the language \<open>lang\<close>. Both Go's
  \<^verbatim>\<open>regexp\<close> (without the m flag) and Postgres's \<^verbatim>\<open>~\<close> anchor \<open>^\<close> and \<open>$\<close> at the ends of
  the text, so a pattern between these anchors is a whole-string match.
\<close>

datatype re =
    Zero
  | One
  | Cls "(char \<times> char) list" \<comment> \<open>a bracket expression: the union of closed ranges\<close>
  | Seq re re
  | Alt re re
  | Rep re nat "nat option" \<comment> \<open>\<^verbatim>\<open>r{m,n}\<close>; None means unbounded\<close>

abbreviation Chr :: "char \<Rightarrow> re" where
  "Chr c \<equiv> Cls [(c, c)]"

abbreviation Opt :: "re \<Rightarrow> re" where
  "Opt r \<equiv> Rep r 0 (Some (Suc 0))"

definition in_cls :: "(char \<times> char) list \<Rightarrow> char \<Rightarrow> bool" where
  "in_cls rs c = list_ex (\<lambda>(a, b). a \<le> c \<and> c \<le> b) rs"

fun lpow :: "string set \<Rightarrow> nat \<Rightarrow> string set" where
  "lpow A 0 = {[]}"
| "lpow A (Suc n) = {u @ v | u v. u \<in> A \<and> v \<in> lpow A n}"

definition within :: "nat \<Rightarrow> nat option \<Rightarrow> bool" where
  "within k N = (case N of None \<Rightarrow> True | Some n \<Rightarrow> k \<le> n)"

fun lang :: "re \<Rightarrow> string set" where
  "lang Zero = {}"
| "lang One = {[]}"
| "lang (Cls rs) = {[c] | c. in_cls rs c}"
| "lang (Seq r s) = {u @ v | u v. u \<in> lang r \<and> v \<in> lang s}"
| "lang (Alt r s) = lang r \<union> lang s"
| "lang (Rep r m N) = {w. \<exists>k. m \<le> k \<and> within k N \<and> w \<in> lpow (lang r) k}"

fun nullable :: "re \<Rightarrow> bool" where
  "nullable Zero = False"
| "nullable One = True"
| "nullable (Cls rs) = False"
| "nullable (Seq r s) = (nullable r \<and> nullable s)"
| "nullable (Alt r s) = (nullable r \<or> nullable s)"
| "nullable (Rep r m N) = (within m N \<and> (m = 0 \<or> nullable r))"

fun seq :: "re \<Rightarrow> re \<Rightarrow> re" where
  "seq Zero s = Zero"
| "seq One s = s"
| "seq r s = (if s = Zero then Zero else Seq r s)"

fun alt :: "re \<Rightarrow> re \<Rightarrow> re" where
  "alt Zero s = s"
| "alt r s = (if s = Zero then r else Alt r s)"

fun deriv :: "char \<Rightarrow> re \<Rightarrow> re" where
  "deriv c Zero = Zero"
| "deriv c One = Zero"
| "deriv c (Cls rs) = (if in_cls rs c then One else Zero)"
| "deriv c (Seq r s) =
     (if nullable r then alt (seq (deriv c r) s) (deriv c s) else seq (deriv c r) s)"
| "deriv c (Alt r s) = alt (deriv c r) (deriv c s)"
| "deriv c (Rep r m N) =
     (if N = Some 0 then Zero else seq (deriv c r) (Rep r (m - 1) (map_option (\<lambda>n. n - 1) N)))"

fun re_match :: "re \<Rightarrow> string \<Rightarrow> bool" where
  "re_match r [] = nullable r"
| "re_match r (c # s) = re_match (deriv c r) s"

section \<open>The matcher decides the language\<close>

lemma lang_seq [simp]: "lang (seq r s) = lang (Seq r s)"
  by (cases "(r, s)" rule: seq.cases) auto

lemma lang_alt [simp]: "lang (alt r s) = lang (Alt r s)"
  by (cases "(r, s)" rule: alt.cases) auto

lemma Nil_in_lpow: "[] \<in> lpow A k \<longleftrightarrow> k = 0 \<or> [] \<in> A"
  by (induction k) auto

lemma lpow_mono_Nil: "[] \<in> A \<Longrightarrow> lpow A k \<subseteq> lpow A (Suc k)"
  by force

lemma Cons_in_lpow:
  \<comment> \<open>the first non-empty factor can be taken to be the first one\<close>
  "c # w \<in> lpow A k \<Longrightarrow> \<exists>u v. k > 0 \<and> w = u @ v \<and> c # u \<in> A \<and> v \<in> lpow A (k - 1)"
proof (induction k)
  case 0
  then show ?case by simp
next
  case (Suc k)
  then obtain u v where uv: "c # w = u @ v" "u \<in> A" "v \<in> lpow A k" by auto
  show ?case
  proof (cases u)
    case Nil
    with uv have "c # w \<in> lpow A k" and nil: "[] \<in> A" by simp_all
    then obtain u' v' where *: "k > 0" "w = u' @ v'" "c # u' \<in> A" "v' \<in> lpow A (k - 1)"
      using Suc.IH by blast
    then have "v' \<in> lpow A k" using lpow_mono_Nil [OF nil, of "k - 1"] by auto
    with * show ?thesis by auto
  next
    case (Cons x u')
    with uv show ?thesis by auto
  qed
qed

lemma nullable_iff: "nullable r \<longleftrightarrow> [] \<in> lang r"
proof (induction r)
  case (Rep r m N)
  show ?case using Rep
    by (auto simp: Nil_in_lpow within_def split: option.splits)
qed auto

lemma lang_deriv_Rep:
  assumes IH: "\<And>w. w \<in> lang (deriv c r) \<longleftrightarrow> c # w \<in> lang r"
  shows "w \<in> lang (deriv c (Rep r m N)) \<longleftrightarrow> c # w \<in> lang (Rep r m N)"
proof
  assume "w \<in> lang (deriv c (Rep r m N))"
  then obtain u v k where *: "N \<noteq> Some 0" "w = u @ v" "c # u \<in> lang r" "m - 1 \<le> k"
      "within k (map_option (\<lambda>n. n - 1) N)" "v \<in> lpow (lang r) k"
    by (auto simp: IH split: if_splits)
  then have "c # w = (c # u) @ v" by simp
  then have "c # w \<in> lpow (lang r) (Suc k)" using * unfolding lpow.simps by blast
  moreover have "m \<le> Suc k" "within (Suc k) N"
    using * by (auto simp: within_def split: option.splits)
  ultimately show "c # w \<in> lang (Rep r m N)" unfolding lang.simps by blast
next
  assume "c # w \<in> lang (Rep r m N)"
  then obtain k where k: "m \<le> k" "within k N" "c # w \<in> lpow (lang r) k" by auto
  with Cons_in_lpow obtain u v where
    *: "k > 0" "w = u @ v" "c # u \<in> lang r" "v \<in> lpow (lang r) (k - 1)" by blast
  have "N \<noteq> Some 0" "m - 1 \<le> k - 1" "within (k - 1) (map_option (\<lambda>n. n - 1) N)"
    using k * by (auto simp: within_def split: option.splits)
  with * show "w \<in> lang (deriv c (Rep r m N))" by (auto simp: IH)
qed

lemma lang_deriv: "w \<in> lang (deriv c r) \<longleftrightarrow> c # w \<in> lang r"
proof (induction r arbitrary: w)
  case (Seq r s)
  have "(\<exists>u v. c # w = u @ v \<and> u \<in> lang r \<and> v \<in> lang s) \<longleftrightarrow>
      ([] \<in> lang r \<and> c # w \<in> lang s) \<or> (\<exists>u v. w = u @ v \<and> c # u \<in> lang r \<and> v \<in> lang s)"
    by (auto simp: Cons_eq_append_conv)
  then show ?case using Seq by (auto simp: nullable_iff)
next
  case (Rep r m N)
  then show ?case by (rule lang_deriv_Rep)
qed auto

locale regex_engine =
  \<comment> \<open>what a client of a regular-expression library relies on\<close>
  fixes matches :: "re \<Rightarrow> string \<Rightarrow> bool"
  assumes matches_lang: "matches r s \<longleftrightarrow> s \<in> lang r"
begin

lemma matches_One_of: "matches (Alt r r') s \<longleftrightarrow> matches r s \<or> matches r' s"
  by (simp add: matches_lang)

lemma matches_Seq: "matches (Seq r r') s \<longleftrightarrow> (\<exists>u v. s = u @ v \<and> matches r u \<and> matches r' v)"
  by (auto simp: matches_lang)

lemma matches_Opt: "matches (Opt r) s \<longleftrightarrow> s = [] \<or> matches r s"
proof -
  have "(\<exists>k\<le>Suc 0. s \<in> lpow (lang r) k) \<longleftrightarrow> s = [] \<or> s \<in> lang r"
    by (auto simp: le_Suc_eq)
  then show ?thesis by (auto simp: matches_lang within_def)
qed

end

lemma re_match_iff: "re_match r s \<longleftrightarrow> s \<in> lang r"
  by (induction s arbitrary: r) (simp_all add: nullable_iff lang_deriv)

interpretation brz: regex_engine re_match
  by unfold_locales (rule re_match_iff)

section \<open>Repetition of classes\<close>

lemma lpow_Cls: "lpow {[c] | c. P c} k = {w. length w = k \<and> (\<forall>c \<in> set w. P c)}"
proof (induction k)
  case (Suc k)
  have "w \<in> lpow {[c] | c. P c} (Suc k) \<longleftrightarrow> length w = Suc k \<and> (\<forall>c \<in> set w. P c)" for w
  proof (cases w)
    case (Cons a list)
    have "(\<exists>u v. a # list = u @ v \<and> (\<exists>c. u = [c] \<and> P c) \<and> Q v) \<longleftrightarrow> P a \<and> Q list" for Q
    proof
      assume "P a \<and> Q list"
      then show "\<exists>u v. a # list = u @ v \<and> (\<exists>c. u = [c] \<and> P c) \<and> Q v"
        by (intro exI [of _ "[a]"] exI [of _ list]) simp
    qed auto
    with Cons Suc show ?thesis by auto
  qed simp
  then show ?case by blast
qed auto

lemma match_Cls_Rep:
  "re_match (Rep (Cls rs) m N) w \<longleftrightarrow> m \<le> length w \<and> within (length w) N \<and> (\<forall>c \<in> set w. in_cls rs c)"
  by (auto simp: re_match_iff lpow_Cls)

lemma match_Cls: "re_match (Cls rs) w \<longleftrightarrow> (\<exists>c. w = [c] \<and> in_cls rs c)"
  by (simp add: re_match_iff)

lemma lpow_concat: "w \<in> lpow A k \<longleftrightarrow> (\<exists>ws. length ws = k \<and> set ws \<subseteq> A \<and> w = concat ws)"
proof (induction k arbitrary: w)
  case (Suc k)
  show ?case
  proof
    assume "w \<in> lpow A (Suc k)"
    then obtain u v where "w = u @ v" "u \<in> A" "v \<in> lpow A k" by auto
    then obtain ws where "length ws = k" "set ws \<subseteq> A" "w = u @ concat ws"
      using Suc.IH by blast
    then show "\<exists>ws. length ws = Suc k \<and> set ws \<subseteq> A \<and> w = concat ws"
      using \<open>u \<in> A\<close> by (intro exI [of _ "u # ws"]) auto
  next
    assume "\<exists>ws. length ws = Suc k \<and> set ws \<subseteq> A \<and> w = concat ws"
    then obtain u ws where "length ws = k" "u \<in> A" "set ws \<subseteq> A" "w = u @ concat ws"
      by (auto simp: length_Suc_conv)
    then show "w \<in> lpow A (Suc k)" using Suc.IH by auto
  qed
qed auto

lemma match_Plus:
  "re_match (Rep r 1 None) w \<longleftrightarrow> (\<exists>ws. ws \<noteq> [] \<and> list_all (re_match r) ws \<and> w = concat ws)"
  by (auto simp: re_match_iff [abs_def] lpow_concat within_def list_all_iff Suc_le_eq)

end
