(* ===== verification/Policy.thy ===== *)
theory Policy
  imports GoLib Regex
begin

text \<open>
  Package policy (src/admin/internal/policy/policy.go): which names are valid rules, which
  zone a workspace is in, its effective rules, and the inversion of all host rules into
  the pod IPs that may reach each \<open>host:port\<close>.

  \<open>HostIPs\<close> ranges over a Go map while it changes the inner maps, so its result could
  depend on the iteration order. The order is an argument here (\<open>ord\<close> for the outer loop,
  \<open>ord'\<close> for the inner one): the locale \<open>merge_order\<close> proves that merging along a
  transitive relation gives the same result in every order, and is interpreted on the
  covering of valid names.
\<close>

section \<open>Definitions\<close>

record Rule =
  Kind :: string
  Value :: string
  Port :: int

record Workspace =
  ID :: string
  Name :: string
  OwnerID :: string
  IP :: string

record Input =
  DefaultZone :: string
  ZoneRules :: "(string, Rule list) gomap"
  Assign :: "(string, string) gomap"
  Grants :: "(string, Rule list) gomap"
  Pods :: "Workspace list"

datatype HostKey = HostKey (hk_Host: string) (hk_Port: int)

definition cls_az :: "(char \<times> char) list" where
  "cls_az = [(CHR ''a'', CHR ''z'')]"

definition cls_alnum :: "(char \<times> char) list" where
  "cls_alnum = [(CHR ''a'', CHR ''z''), (CHR ''0'', CHR ''9'')]"

definition cls_label :: "(char \<times> char) list" where
  "cls_label = [(CHR ''a'', CHR ''z''), (CHR ''0'', CHR ''9''), (CHR ''-'', CHR ''-'')]"

definition labelRE :: re where
  \<comment> \<open>\<^verbatim>\<open>[a-z0-9]([a-z0-9-]{0,61}[a-z0-9])?\.\<close>\<close>
  "labelRE = Seq (Seq (Cls cls_alnum) (Opt (Seq (Rep (Cls cls_label) 0 (Some 61)) (Cls cls_alnum)))) (Chr (CHR ''.''))"

definition nameRE :: re where
  \<comment> \<open>\<^verbatim>\<open>^(\*\.)?([a-z0-9]([a-z0-9-]{0,61}[a-z0-9])?\.)+[a-z]{2,63}$\<close>\<close>
  "nameRE = Seq (Opt (Seq (Chr (CHR ''*'')) (Chr (CHR ''.''))))
     (Seq (Rep labelRE 1 None) (Rep (Cls cls_az) 2 (Some 63)))"

definition ValidName :: "string \<Rightarrow> bool" where
  "ValidName s \<longleftrightarrow> length s \<le> 253 \<and> re_match nameRE s"

definition ValidRule :: "Rule \<Rightarrow> bool" where
  "ValidRule r =
     (if Kind r = ''host'' then (Port r = 443 \<or> Port r = 80) \<and> ValidName (Value r)
      else if Kind r = ''dns'' then Port r = 0 \<and> ValidName (Value r)
      else False)"

definition ZoneOf :: "Input \<Rightarrow> string \<Rightarrow> string" where
  "ZoneOf inp ws = (case map_of (Assign inp) ws of Some z \<Rightarrow> z | None \<Rightarrow> DefaultZone inp)"

definition Effective :: "Input \<Rightarrow> string \<Rightarrow> string \<Rightarrow> Rule list" where
  "Effective inp ws kind =
     concat (map (filter (\<lambda>r. Kind r = kind \<and> ValidRule r))
       [get_or [] (ZoneRules inp) (ZoneOf inp ws), get_or [] (Grants inp) ws])"

definition add_ip :: "HostKey \<Rightarrow> string \<Rightarrow> (HostKey, string list) gomap \<Rightarrow> (HostKey, string list) gomap" where
  \<comment> \<open>\<^verbatim>\<open>set[k][ip] = true\<close>, creating the inner map: a set of IPs is a list without duplicates\<close>
  "add_ip k ip m = AList.update k (List.insert ip (get_or [] m k)) m"

definition collect_pod :: "Input \<Rightarrow> Workspace \<Rightarrow> (HostKey, string list) gomap \<Rightarrow> (HostKey, string list) gomap" where
  "collect_pod inp p m =
     (if IP p = [] then m
      else fold (\<lambda>r. add_ip (HostKey (Value r) (Port r)) (IP p)) (Effective inp (ID p) ''host'') m)"

definition collect :: "Input \<Rightarrow> (HostKey, string list) gomap" where
  "collect inp = fold (collect_pod inp) (Pods inp) []"

definition merge_into :: "HostKey \<Rightarrow> string \<Rightarrow> HostKey \<Rightarrow> (HostKey, string list) gomap \<Rightarrow> (HostKey, string list) gomap" where
  "merge_into wk suf k m =
     (if k \<noteq> wk \<and> hk_Port k = hk_Port wk \<and> HasSuffix (hk_Host k) suf
      then AList.update k (fold List.insert (get_or [] m wk) (get_or [] m k)) m
      else m)"

definition merge_wild :: "HostKey list \<Rightarrow> HostKey \<Rightarrow> (HostKey, string list) gomap \<Rightarrow> (HostKey, string list) gomap" where
  "merge_wild ks wk m =
     (case CutPrefix (hk_Host wk) ''*'' of (suf, ok) \<Rightarrow>
        if \<not> ok then m else fold (merge_into wk suf) ks m)"

definition HostIPs :: "(HostKey list \<Rightarrow> HostKey list) \<Rightarrow> (HostKey \<Rightarrow> HostKey list \<Rightarrow> HostKey list) \<Rightarrow>
    Input \<Rightarrow> (HostKey, string list) gomap" where
  "HostIPs ord ord' inp =
     (let s = collect inp;
          ks = map fst s;
          m = fold (\<lambda>wk. merge_wild (ord' wk ks) wk) (ord ks) s
      in map (\<lambda>(k, ips). (k, sort ips)) m)"

text \<open>The order of keys that the renderers sort by: host first, then port.\<close>

instantiation HostKey :: linorder
begin

definition less_eq_HostKey :: "HostKey \<Rightarrow> HostKey \<Rightarrow> bool" where
  "less_eq_HostKey a b \<longleftrightarrow> (hk_Host a, hk_Port a) \<le> (hk_Host b, hk_Port b)"

definition less_HostKey :: "HostKey \<Rightarrow> HostKey \<Rightarrow> bool" where
  "less_HostKey a b \<longleftrightarrow> (hk_Host a, hk_Port a) < (hk_Host b, hk_Port b)"

instance
proof
  fix x y z :: HostKey
  show "x < y \<longleftrightarrow> x \<le> y \<and> \<not> y \<le> x"
    unfolding less_eq_HostKey_def less_HostKey_def by (rule less_le_not_le)
  show "x \<le> x" by (simp add: less_eq_HostKey_def)
  show "x \<le> y \<Longrightarrow> y \<le> z \<Longrightarrow> x \<le> z"
    unfolding less_eq_HostKey_def by (rule order_trans)
  show "x \<le> y \<Longrightarrow> y \<le> x \<Longrightarrow> x = y"
    unfolding less_eq_HostKey_def by (rule HostKey.expand) (metis antisym prod.inject)
  show "x \<le> y \<or> y \<le> x" unfolding less_eq_HostKey_def by (rule linear)
qed

end

section \<open>Specifications\<close>

text \<open>The names a rule may hold, said with labels instead of a pattern.\<close>

definition alnum :: "char \<Rightarrow> bool" where
  "alnum c \<longleftrightarrow> (CHR ''a'' \<le> c \<and> c \<le> CHR ''z'') \<or> (CHR ''0'' \<le> c \<and> c \<le> CHR ''9'')"

definition label_ok :: "string \<Rightarrow> bool" where
  "label_ok l \<longleftrightarrow> 1 \<le> length l \<and> length l \<le> 63 \<and> (\<forall>c \<in> set l. alnum c \<or> c = CHR ''-'') \<and>
     alnum (hd l) \<and> alnum (last l)"

definition tld_ok :: "string \<Rightarrow> bool" where
  "tld_ok l \<longleftrightarrow> 2 \<le> length l \<and> length l \<le> 63 \<and> (\<forall>c \<in> set l. CHR ''a'' \<le> c \<and> c \<le> CHR ''z'')"

definition dotted :: "string list \<Rightarrow> string" where
  "dotted ls = concat (map (\<lambda>l. l @ ''.'') ls)"

definition fqdn :: "string \<Rightarrow> bool" where
  "fqdn s \<longleftrightarrow> (\<exists>ls t. ls \<noteq> [] \<and> list_all label_ok ls \<and> tld_ok t \<and> s = dotted ls @ t)"

text \<open>A wildcard key covers the more specific keys on its port.\<close>

definition covers :: "HostKey \<Rightarrow> HostKey \<Rightarrow> bool" where
  "covers wk k \<longleftrightarrow> k \<noteq> wk \<and> hk_Port k = hk_Port wk \<and>
     (\<exists>suf. hk_Host wk = CHR ''*'' # suf \<and> HasSuffix (hk_Host k) suf)"

definition direct_ips :: "Input \<Rightarrow> HostKey \<Rightarrow> string set" where
  \<comment> \<open>the pods that hold a rule for exactly this key\<close>
  "direct_ips inp k = {IP p | p. p \<in> set (Pods inp) \<and> IP p \<noteq> [] \<and>
     (\<exists>r \<in> set (Effective inp (ID p) ''host''). HostKey (Value r) (Port r) = k)}"

definition allowed_ips :: "Input \<Rightarrow> HostKey \<Rightarrow> string set" where
  "allowed_ips inp k = direct_ips inp k \<union> \<Union> {direct_ips inp wk | wk. covers wk k}"

definition merge_step :: "('k \<Rightarrow> 'k \<Rightarrow> bool) \<Rightarrow> 'k \<Rightarrow> ('k \<Rightarrow> 'v set) \<Rightarrow> ('k \<Rightarrow> 'v set)" where
  "merge_step cov w f = (\<lambda>k. if cov w k then f k \<union> f w else f k)"

definition covers_in :: "HostKey set \<Rightarrow> HostKey \<Rightarrow> HostKey \<Rightarrow> bool" where
  "covers_in S w k \<longleftrightarrow> k \<in> S \<and> covers w k"

definition ips_of :: "(HostKey, string list) gomap \<Rightarrow> HostKey \<Rightarrow> string set" where
  "ips_of m k = set (get_or [] m k)"

definition ipm_ok :: "(HostKey, string list) gomap \<Rightarrow> bool" where
  \<comment> \<open>a map of non-empty sets\<close>
  "ipm_ok m \<longleftrightarrow> gomap_ok m \<and> (\<forall>k. distinct (get_or [] m k)) \<and>
     (\<forall>k. k \<in> fst ` set m \<longleftrightarrow> get_or [] m k \<noteq> [])"

section \<open>The name pattern and its labels\<close>

lemmas cls_defs = cls_az_def cls_alnum_def cls_label_def

lemma in_cls_simps [simp]:
  "in_cls cls_alnum c \<longleftrightarrow> alnum c"
  "in_cls cls_label c \<longleftrightarrow> alnum c \<or> c = CHR ''-''"
  "in_cls cls_az c \<longleftrightarrow> CHR ''a'' \<le> c \<and> c \<le> CHR ''z''"
  "in_cls [(d, d)] c \<longleftrightarrow> c = d"
  by (auto simp: in_cls_def cls_defs alnum_def)

lemma match_label: "re_match (Seq (Cls cls_alnum) (Opt (Seq (Rep (Cls cls_label) 0 (Some 61)) (Cls cls_alnum)))) l
    \<longleftrightarrow> label_ok l" (is "?m \<longleftrightarrow> _")
proof
  assume ?m
  then obtain c v where l: "l = c # v" "alnum c"
      "v = [] \<or> (\<exists>u d. v = u @ [d] \<and> length u \<le> 61 \<and> (\<forall>x \<in> set u. alnum x \<or> x = CHR ''-'') \<and> alnum d)"
    by (auto simp: brz.matches_Seq brz.matches_Opt match_Cls match_Cls_Rep within_def)
  then show "label_ok l" by (auto simp: label_ok_def)
next
  assume ok: "label_ok l"
  then obtain c v where l: "l = [c] @ v" "alnum c" by (cases l) (auto simp: label_ok_def)
  have "v = [] \<or> (\<exists>u d. v = u @ [d] \<and> length u \<le> 61 \<and> (\<forall>x \<in> set u. alnum x \<or> x = CHR ''-'') \<and> alnum d)"
    using ok l by (cases v rule: rev_cases) (auto simp: label_ok_def)
  then show ?m using l
    by (auto simp: brz.matches_Seq brz.matches_Opt match_Cls match_Cls_Rep within_def)
qed

lemma match_labelRE: "re_match labelRE w \<longleftrightarrow> (\<exists>l. w = l @ ''.'' \<and> label_ok l)"
  unfolding labelRE_def by (subst brz.matches_Seq) (auto simp: match_label match_Cls)

lemma match_labels:
  "re_match (Rep labelRE 1 None) w \<longleftrightarrow> (\<exists>ls. ls \<noteq> [] \<and> list_all label_ok ls \<and> w = dotted ls)"
proof
  assume "re_match (Rep labelRE 1 None) w"
  then obtain ws where ws: "ws \<noteq> []" "list_all (re_match labelRE) ws" "w = concat ws"
    by (auto simp only: match_Plus)
  define ls where "ls = map butlast ws"
  have "map (\<lambda>l. l @ ''.'') ls = ws"
    using ws(2) unfolding ls_def by (induction ws) (auto simp: match_labelRE)
  moreover have "list_all label_ok ls"
    using ws(2) unfolding ls_def by (auto simp: list_all_iff match_labelRE)
  ultimately show "\<exists>ls. ls \<noteq> [] \<and> list_all label_ok ls \<and> w = dotted ls"
    using ws(1,3) by (intro exI [of _ ls]) (auto simp: dotted_def)
next
  assume "\<exists>ls. ls \<noteq> [] \<and> list_all label_ok ls \<and> w = dotted ls"
  then obtain ls where ls: "ls \<noteq> []" "list_all label_ok ls" "w = dotted ls" by blast
  then have "list_all (re_match labelRE) (map (\<lambda>l. l @ ''.'') ls)"
    by (auto simp: list_all_iff match_labelRE)
  then show "re_match (Rep labelRE 1 None) w"
    unfolding match_Plus using ls by (intro exI [of _ "map (\<lambda>l. l @ ''.'') ls"]) (simp add: dotted_def)
qed

lemma match_nameRE: "re_match nameRE s \<longleftrightarrow> fqdn s \<or> (\<exists>t. s = ''*.'' @ t \<and> fqdn t)"
proof -
  have f: "re_match (Seq (Rep labelRE 1 None) (Rep (Cls cls_az) 2 (Some 63))) t \<longleftrightarrow> fqdn t" for t
    by (subst brz.matches_Seq, subst match_labels, subst match_Cls_Rep)
      (auto simp: fqdn_def tld_ok_def within_def)
  have "re_match (Opt (Seq (Chr (CHR ''*'')) (Chr (CHR ''.'')))) u \<longleftrightarrow> u = [] \<or> u = ''*.''" for u
    by (auto simp: brz.matches_Opt brz.matches_Seq match_Cls)
  then have "re_match nameRE s \<longleftrightarrow> (\<exists>u v. s = u @ v \<and> (u = [] \<or> u = ''*.'') \<and> fqdn v)"
    unfolding nameRE_def by (subst brz.matches_Seq) (simp only: f)
  also have "\<dots> \<longleftrightarrow> fqdn s \<or> (\<exists>t. s = ''*.'' @ t \<and> fqdn t)" by (metis append_Nil)
  finally show ?thesis .
qed

lemma ValidName_iff:
  "ValidName s \<longleftrightarrow> length s \<le> 253 \<and> (fqdn s \<or> (\<exists>t. s = ''*.'' @ t \<and> fqdn t))"
  by (simp add: ValidName_def match_nameRE)

lemma alnum_neq [simp]:
  "\<not> alnum (CHR ''*'')" "\<not> alnum (CHR ''.'')" "\<not> alnum (CHR '':'')" "\<not> alnum (CHR ''-'')"
  "\<not> alnum (CHR ''|'')" "\<not> alnum (CHR '','')"
  by (simp_all add: alnum_def)

lemma fqdn_chars: "fqdn t \<Longrightarrow> c \<in> set t \<Longrightarrow> alnum c \<or> c = CHR ''-'' \<or> c = CHR ''.''"
proof -
  assume "fqdn t" "c \<in> set t"
  then obtain ls u where "list_all label_ok ls" "tld_ok u" "c \<in> set (dotted ls) \<or> c \<in> set u"
    by (auto simp: fqdn_def)
  then consider "c = CHR ''.''" | l where "label_ok l" "c \<in> set l" | "tld_ok u" "c \<in> set u"
    by (auto simp: dotted_def list_all_iff split: if_splits)
  then show ?thesis by cases (auto simp: label_ok_def tld_ok_def alnum_def)
qed

lemma fqdn_hd: "fqdn t \<Longrightarrow> t \<noteq> [] \<and> alnum (hd t)"
proof -
  assume "fqdn t"
  then obtain l ls t' where "label_ok l" "t = (l @ ''.'' @ dotted ls) @ t'"
    unfolding fqdn_def by (auto simp: dotted_def neq_Nil_conv)
  then show ?thesis by (cases l) (auto simp: label_ok_def)
qed

lemma ValidName_cases:
  assumes "ValidName h"
  obtains (exact) "fqdn h" "CHR ''*'' \<notin> set h"
    | (wild) t where "h = CHR ''*'' # CHR ''.'' # t" "fqdn t" "CHR ''*'' \<notin> set t"
  using assms fqdn_chars [of _ "CHR ''*''"] by (auto simp: ValidName_iff)

lemma ValidName_star: "ValidName (CHR ''*'' # suf) \<Longrightarrow> \<exists>t. suf = CHR ''.'' # t \<and> fqdn t"
  by (erule ValidName_cases) auto

lemma ValidName_chars:
  "ValidName h \<Longrightarrow> c \<in> set h \<Longrightarrow> alnum c \<or> c \<in> {CHR ''-'', CHR ''.'', CHR ''*''}"
  using fqdn_chars [of _ c] by (fastforce simp: ValidName_iff)

section \<open>Merging along a transitive relation\<close>

locale merge_order =
  fixes cov :: "'k \<Rightarrow> 'k \<Rightarrow> bool" and K :: "'k set"
  assumes cov_trans: "\<lbrakk>a \<in> K; b \<in> K; c \<in> K; cov a b; cov b c\<rbrakk> \<Longrightarrow> cov a c"
begin

lemma merge_keeps: "x \<in> f k \<Longrightarrow> x \<in> fold (merge_step cov) ws f k"
  by (induction ws arbitrary: f) (auto simp: merge_step_def)

lemma merge_adds: "w \<in> set ws \<Longrightarrow> cov w k \<Longrightarrow> x \<in> f w \<Longrightarrow> x \<in> fold (merge_step cov) ws f k"
proof (induction ws arbitrary: f)
  case (Cons v ws)
  show ?case
  proof (cases "w = v")
    case True
    with Cons.prems have "x \<in> merge_step cov v f k" by (simp add: merge_step_def)
    then show ?thesis by (simp add: merge_keeps)
  next
    case False
    with Cons.prems have "w \<in> set ws" "x \<in> merge_step cov v f w" by (auto simp: merge_step_def)
    then show ?thesis using Cons.IH Cons.prems(2) by simp
  qed
qed simp

lemma merge_only:
  "set ws \<subseteq> K \<Longrightarrow> k \<in> K \<Longrightarrow> x \<in> fold (merge_step cov) ws f k \<Longrightarrow> x \<in> f k \<or> (\<exists>w \<in> K. cov w k \<and> x \<in> f w)"
proof (induction ws arbitrary: f)
  case (Cons v ws)
  then have v: "v \<in> K"
    and "x \<in> merge_step cov v f k \<or> (\<exists>w \<in> K. cov w k \<and> x \<in> merge_step cov v f w)" by simp_all
  then consider "x \<in> f k" | "cov v k" "x \<in> f v" | w where "w \<in> K" "cov w k" "x \<in> f w"
    | w where "w \<in> K" "cov w k" "cov v w" "x \<in> f v"
    by (auto simp: merge_step_def split: if_splits)
  then show ?case using v cov_trans [of v _ k] Cons.prems(2) by cases blast+
qed simp

lemma merge_any_order:
  assumes "set ws \<subseteq> K" "k \<in> K" "\<And>w. w \<in> K \<Longrightarrow> f w \<noteq> {} \<Longrightarrow> w \<in> set ws"
  shows "x \<in> fold (merge_step cov) ws f k \<longleftrightarrow> x \<in> f k \<or> (\<exists>w \<in> K. cov w k \<and> x \<in> f w)"
proof
  assume "x \<in> fold (merge_step cov) ws f k"
  then show "x \<in> f k \<or> (\<exists>w \<in> K. cov w k \<and> x \<in> f w)" by (rule merge_only [OF assms(1,2)])
next
  assume "x \<in> f k \<or> (\<exists>w \<in> K. cov w k \<and> x \<in> f w)"
  then show "x \<in> fold (merge_step cov) ws f k"
  proof
    assume "\<exists>w \<in> K. cov w k \<and> x \<in> f w"
    then obtain w where w: "w \<in> K" "cov w k" "x \<in> f w" by blast
    with assms(3) have "w \<in> set ws" by auto
    then show ?thesis using w(2,3) by (rule merge_adds)
  qed (rule merge_keeps)
qed

end

lemma covers_irrefl [simp]: "\<not> covers k k"
  by (simp add: covers_def)

lemma covers_trans:
  assumes "ValidName (hk_Host a)" "covers a b" "ValidName (hk_Host b)" "covers b c"
  shows "covers a c"
proof -
  obtain sa sb where s: "hk_Host a = CHR ''*'' # sa" "hk_Host b = CHR ''*'' # sb"
      "HasSuffix (CHR ''*'' # sb) sa" "HasSuffix (hk_Host c) sb"
    using assms(2,4) by (auto simp: covers_def)
  with assms(1,3) obtain ta tb where t: "sa = CHR ''.'' # ta" "sb = CHR ''.'' # tb"
    by (metis ValidName_star)
  have sasb: "HasSuffix sb sa"
    using s(3) t by (auto simp: HasSuffix_iff Cons_eq_append_conv)
  have "c \<noteq> a"
  proof
    assume "c = a"
    then have "HasSuffix sa sb" using s t by (auto simp: HasSuffix_iff Cons_eq_append_conv)
    with sasb have "sa = sb" by (auto simp: HasSuffix_iff)
    with s assms(2) show False by (auto simp: covers_def intro: HostKey.expand)
  qed
  then show ?thesis using s sasb assms(2,4) HasSuffix_trans by (auto simp: covers_def)
qed

interpretation hk: merge_order "covers_in S" "{k. ValidName (hk_Host k)}" for S
  by unfold_locales (auto simp: covers_in_def intro: covers_trans)

section \<open>HostIPs\<close>

lemma Effective_valid: "r \<in> set (Effective inp ws kind) \<Longrightarrow> Kind r = kind \<and> ValidRule r"
  by (auto simp: Effective_def)

lemma Effective_host:
  "r \<in> set (Effective inp ws ''host'') \<Longrightarrow> ValidName (Value r) \<and> (Port r = 443 \<or> Port r = 80)"
  by (drule Effective_valid) (auto simp: ValidRule_def)

lemma map_fst_update: "map fst (AList.update k v m) = (if k \<in> fst ` set m then map fst m else map fst m @ [k])"
  by (induction m) auto

lemma ipm_ok_Nil: "ipm_ok []"
  by (simp add: ipm_ok_def)

lemma ipm_ok_update:
  assumes "ipm_ok m" "distinct ips" "ips \<noteq> []"
  shows "ipm_ok (AList.update k ips m)"
  using assms by (auto simp: ipm_ok_def map_fst_update dom_update [unfolded image_set] distinct_update
      simp flip: set_map)

lemma ipm_ok_add_ip: "ipm_ok m \<Longrightarrow> ipm_ok (add_ip k ip m)"
  unfolding add_ip_def by (rule ipm_ok_update) (auto simp: ipm_ok_def List.insert_def)

lemma ips_of_add_ip: "ips_of (add_ip k ip m) k' = ips_of m k' \<union> (if k' = k then {ip} else {})"
  by (simp add: ips_of_def add_ip_def)

lemma collect_pod_ok: "ipm_ok m \<Longrightarrow> ipm_ok (collect_pod inp p m)"
  unfolding collect_pod_def by (auto intro: fold_invariant [where Q = "\<lambda>_. True"] ipm_ok_add_ip)

lemma fold_add_ip: "ips_of (fold (\<lambda>r. add_ip (key r) ip) rs m) k =
    ips_of m k \<union> (if \<exists>r \<in> set rs. key r = k then {ip} else {})"
  by (induction rs arbitrary: m) (auto simp: ips_of_add_ip)

lemma ips_of_collect_pod: "ips_of (collect_pod inp p m) k = ips_of m k \<union>
    {ip. ip = IP p \<and> IP p \<noteq> [] \<and> (\<exists>r \<in> set (Effective inp (ID p) ''host''). HostKey (Value r) (Port r) = k)}"
  by (auto simp: collect_pod_def fold_add_ip)

lemma ips_of_fold_collect: "ips_of (fold (collect_pod inp) ps m) k = ips_of m k \<union> direct_ips (inp\<lparr>Pods := ps\<rparr>) k"
proof (induction ps arbitrary: m)
  case (Cons p ps)
  have "Effective (inp\<lparr>Pods := qs\<rparr>) = Effective inp" for qs
    by (intro ext) (simp add: Effective_def ZoneOf_def split: option.split)
  then show ?case by (auto simp: Cons ips_of_collect_pod direct_ips_def)
qed (simp add: direct_ips_def)

lemma collect_ok: "ipm_ok (collect inp)"
  unfolding collect_def by (auto intro: fold_invariant [where Q = "\<lambda>_. True"] collect_pod_ok ipm_ok_Nil)

lemma ips_of_collect: "ips_of (collect inp) = direct_ips inp"
  by (rule ext) (simp add: collect_def ips_of_fold_collect, simp add: ips_of_def)

lemma ips_of_keys: "ipm_ok m \<Longrightarrow> k \<in> fst ` set m \<longleftrightarrow> ips_of m k \<noteq> {}"
  by (simp add: ipm_ok_def ips_of_def)

lemma direct_ips_valid: "direct_ips inp k \<noteq> {} \<Longrightarrow> ValidName (hk_Host k) \<and> (hk_Port k = 443 \<or> hk_Port k = 80)"
  by (auto simp: direct_ips_def dest!: Effective_host)

text \<open>One turn of the outer loop is one abstract merge step.\<close>

lemma fold_insert_list: "set (fold List.insert xs ys) = set ys \<union> set xs"
  "distinct ys \<Longrightarrow> distinct (fold List.insert xs ys)"
  by (induction xs arbitrary: ys) auto

lemma ips_of_merge_into:
  assumes "hk_Host wk = CHR ''*'' # suf"
  shows "ips_of (merge_into wk suf k m) k' =
    (if k' = k \<and> covers wk k then ips_of m k' \<union> ips_of m wk else ips_of m k')"
  using assms by (auto simp: merge_into_def covers_def ips_of_def fold_insert_list)

lemma merge_into_ok:
  assumes "ipm_ok m" "k \<in> fst ` set m"
  shows "ipm_ok (merge_into wk suf k m) \<and> map fst (merge_into wk suf k m) = map fst m"
proof -
  have "get_or [] m k \<noteq> []" "distinct (get_or [] m k)" using assms by (auto simp: ipm_ok_def)
  then have "distinct (fold List.insert (get_or [] m wk) (get_or [] m k))"
      "fold List.insert (get_or [] m wk) (get_or [] m k) \<noteq> []"
    using fold_insert_list(1) [of "get_or [] m wk" "get_or [] m k"]
    by (auto simp: fold_insert_list(2) simp del: set_empty simp flip: set_empty)
  then show ?thesis
    using assms ipm_ok_update by (auto simp: merge_into_def map_fst_update)
qed

lemma merge_fold_into:
  assumes "hk_Host wk = CHR ''*'' # suf" "ipm_ok m" "set ks \<subseteq> fst ` set m"
  shows "ipm_ok (fold (merge_into wk suf) ks m) \<and>
    map fst (fold (merge_into wk suf) ks m) = map fst m \<and>
    ips_of (fold (merge_into wk suf) ks m) = merge_step (covers_in (set ks)) wk (ips_of m)"
  using assms(2,3)
proof (induction ks arbitrary: m)
  case (Cons k ks)
  let ?m = "merge_into wk suf k m"
  have *: "ipm_ok ?m" "map fst ?m = map fst m" using merge_into_ok Cons.prems by auto
  then have "fst ` set ?m = fst ` set m" by (metis set_map)
  then have "set ks \<subseteq> fst ` set ?m" using Cons.prems(2) by simp
  note IH = Cons.IH [OF *(1) this]
  have "merge_step (covers_in (set ks)) wk (ips_of ?m) = merge_step (covers_in (set (k # ks))) wk (ips_of m)"
    by (rule ext) (auto simp: merge_step_def covers_in_def ips_of_merge_into [OF assms(1)])
  with IH *(2) show ?case by simp
qed (auto simp: merge_step_def covers_in_def)

lemma merge_wild_step:
  assumes "ipm_ok m" "set ks = fst ` set m"
  shows "ipm_ok (merge_wild ks wk m) \<and> map fst (merge_wild ks wk m) = map fst m \<and>
    ips_of (merge_wild ks wk m) = merge_step (covers_in (set ks)) wk (ips_of m)"
proof (cases "\<exists>suf. hk_Host wk = CHR ''*'' # suf")
  case True
  then obtain suf where suf: "hk_Host wk = CHR ''*'' # suf" ..
  then have "CutPrefix (hk_Host wk) ''*'' = (suf, True)" by (simp add: CutPrefix_star)
  then show ?thesis
    using merge_fold_into [OF suf assms(1)] assms(2) by (simp add: merge_wild_def)
next
  case False
  then have "\<not> HasPrefix (hk_Host wk) ''*''" and "\<And>k. \<not> covers wk k"
    by (auto simp: HasPrefix_iff covers_def)
  then show ?thesis
    using assms(1) by (auto simp: merge_wild_def CutPrefix_def merge_step_def covers_in_def)
qed

lemma merge_wild_fold:
  assumes "ipm_ok m" "\<And>wk. set (ordk wk) = fst ` set m"
  shows "ipm_ok (fold (\<lambda>wk. merge_wild (ordk wk) wk) wks m) \<and>
    map fst (fold (\<lambda>wk. merge_wild (ordk wk) wk) wks m) = map fst m \<and>
    ips_of (fold (\<lambda>wk. merge_wild (ordk wk) wk) wks m) = fold (merge_step (covers_in (fst ` set m))) wks (ips_of m)"
  using assms
proof (induction wks arbitrary: m)
  case (Cons wk wks)
  let ?m = "merge_wild (ordk wk) wk m"
  have *: "ipm_ok ?m" "map fst ?m = map fst m"
    "ips_of ?m = merge_step (covers_in (fst ` set m)) wk (ips_of m)"
    using merge_wild_step [OF Cons.prems(1) Cons.prems(2), of wk wk] Cons.prems(2) by simp_all
  then have "fst ` set ?m = fst ` set m" by (metis set_map)
  then show ?case using Cons.IH [of ?m] * Cons.prems(2) by simp
qed simp

lemma map_of_sort_vals: "map_of (map (\<lambda>(k, ips). (k, sort ips)) m) k = map_option sort (map_of m k)"
  by (induction m) auto

lemma HostIPs_lookup:
  assumes "\<And>ks. set (ord ks) = set ks" "\<And>wk ks. set (ord' wk ks) = set ks"
  shows "map_of (HostIPs ord ord' inp) k =
    (if direct_ips inp k = {} then None else Some (sorted_list_of_set (allowed_ips inp k)))"
proof -
  let ?s = "collect inp" and ?ks = "map fst (collect inp)"
  define m where "m = fold (\<lambda>wk. merge_wild (ord' wk ?ks) wk) (ord ?ks) ?s"
  have m: "ipm_ok m" "map fst m = ?ks"
    "ips_of m = fold (merge_step (covers_in (set ?ks))) (ord ?ks) (direct_ips inp)"
    using merge_wild_fold [OF collect_ok, of "\<lambda>wk. ord' wk ?ks" inp "ord ?ks"] assms
    by (simp_all add: m_def ips_of_collect)
  have keys: "w \<in> set ?ks \<longleftrightarrow> direct_ips inp w \<noteq> {}" for w
    using ips_of_keys [OF collect_ok] by (simp add: ips_of_collect)
  then have valid: "ValidName (hk_Host w)" if "w \<in> set ?ks" for w
    using direct_ips_valid that by blast
  have eq: "map_of (HostIPs ord ord' inp) k = map_option sort (map_of m k)"
    by (simp add: HostIPs_def Let_def m_def map_of_sort_vals)
  show ?thesis
  proof (cases "direct_ips inp k = {}")
    case True
    then have "k \<notin> fst ` set m" using keys m(2) by (metis set_map)
    with True show ?thesis by (simp add: eq map_of_eq_None_iff)
  next
    case False
    then have k: "k \<in> set ?ks" "k \<in> fst ` set m" using keys m(2) by (metis set_map)+
    have "ips_of m k = allowed_ips inp k"
    proof (rule set_eqI)
      fix x
      have "x \<in> ips_of m k \<longleftrightarrow> x \<in> direct_ips inp k \<or>
          (\<exists>w \<in> {k. ValidName (hk_Host k)}. covers_in (set ?ks) w k \<and> x \<in> direct_ips inp w)"
        unfolding m(3)
      proof (rule hk.merge_any_order)
        show "set (ord ?ks) \<subseteq> {k. ValidName (hk_Host k)}" "k \<in> {k. ValidName (hk_Host k)}"
          using valid k(1) assms(1) by auto
      qed (use keys assms(1) in auto)
      also have "\<dots> \<longleftrightarrow> x \<in> allowed_ips inp k"
        using k direct_ips_valid by (fastforce simp: allowed_ips_def covers_in_def)
      finally show "x \<in> ips_of m k \<longleftrightarrow> x \<in> allowed_ips inp k" .
    qed
    moreover obtain ips where "map_of m k = Some ips" using k(2) by (metis map_of_eq_None_iff not_None_eq)
    moreover have "distinct ips" using m(1) calculation(2) by (auto simp: ipm_ok_def get_or_def split: option.splits dest: spec [of _ k])
    ultimately show ?thesis
      using False sorted_list_of_set_sort_remdups [of ips]
      by (simp add: eq ips_of_def get_or_def distinct_remdups_id)
  qed
qed

lemma HostIPs_keys:
  assumes "\<And>wk ks. set (ord' wk ks) = set ks"
  shows "gomap_ok (HostIPs ord ord' inp)" "k \<in> fst ` set (HostIPs ord ord' inp) \<longleftrightarrow> direct_ips inp k \<noteq> {}"
proof -
  let ?ks = "map fst (collect inp)"
  have fst_vals: "map fst (map (\<lambda>(k, ips). (k, f ips)) m) = map fst m" for m :: "(HostKey, string list) gomap" and f :: "string list \<Rightarrow> string list"
    by (induction m) auto
  have "map fst (fold (\<lambda>wk. merge_wild (ord' wk ?ks) wk) (ord ?ks) (collect inp)) = ?ks"
    using merge_wild_fold [OF collect_ok, of "\<lambda>wk. ord' wk ?ks" inp "ord ?ks"] assms by simp
  then have eq: "map fst (HostIPs ord ord' inp) = ?ks" by (simp only: HostIPs_def Let_def fst_vals)
  show "gomap_ok (HostIPs ord ord' inp)" unfolding eq using collect_ok by (simp add: ipm_ok_def)
  have "fst ` set (HostIPs ord ord' inp) = set ?ks" unfolding eq [symmetric] by simp
  then show "k \<in> fst ` set (HostIPs ord ord' inp) \<longleftrightarrow> direct_ips inp k \<noteq> {}"
    using ips_of_keys [OF collect_ok] by (simp add: ips_of_collect)
qed

lemma finite_allowed_ips: "finite (allowed_ips inp k)"
proof -
  have "allowed_ips inp k \<subseteq> IP ` set (Pods inp)" by (auto simp: allowed_ips_def direct_ips_def)
  then show ?thesis by (rule finite_subset) simp
qed

section \<open>Properties\<close>

text \<open>C4. HostIPs inverts the host rules, whatever order Go's map iteration takes: a key has an entry
  exactly when some pod holds a rule for it, and the entry is the sorted list without duplicates
  of the addresses of the pods that hold a rule for the key itself or for a wildcard that covers it.\<close>

theorem HostIPs_correct:
  assumes "\<And>ks. set (ord ks) = set ks" "\<And>wk ks. set (ord' wk ks) = set ks"
  shows "case map_of (HostIPs ord ord' inp) k of
      None \<Rightarrow> \<forall>p \<in> set (Pods inp). IP p \<noteq> [] \<longrightarrow> (\<forall>r \<in> set (Effective inp (ID p) ''host''). HostKey (Value r) (Port r) \<noteq> k)
    | Some ips \<Rightarrow> ips \<noteq> [] \<and> sorted ips \<and> distinct ips \<and>
        (\<forall>ip. ip \<in> set ips \<longleftrightarrow> ip \<noteq> [] \<and> (\<exists>p \<in> set (Pods inp). IP p = ip \<and>
           (\<exists>r \<in> set (Effective inp (ID p) ''host''). HostKey (Value r) (Port r) = k \<or> covers (HostKey (Value r) (Port r)) k)))"
proof (cases "direct_ips inp k = {}")
  case True
  then have "map_of (HostIPs ord ord' inp) k = None" by (simp add: HostIPs_lookup [OF assms])
  then show ?thesis using True by (auto simp: direct_ips_def)
next
  case False
  then have look: "map_of (HostIPs ord ord' inp) k = Some (sorted_list_of_set (allowed_ips inp k))"
    by (simp add: HostIPs_lookup [OF assms])
  have "allowed_ips inp k \<noteq> {}" using False by (auto simp: allowed_ips_def)
  moreover have "ip \<in> allowed_ips inp k \<longleftrightarrow> ip \<noteq> [] \<and> (\<exists>p \<in> set (Pods inp). IP p = ip \<and>
           (\<exists>r \<in> set (Effective inp (ID p) ''host''). HostKey (Value r) (Port r) = k \<or> covers (HostKey (Value r) (Port r)) k))" for ip
  proof -
    have d: "ip \<in> direct_ips inp w \<longleftrightarrow> ip \<noteq> [] \<and> (\<exists>p \<in> set (Pods inp). IP p = ip \<and>
        (\<exists>r \<in> set (Effective inp (ID p) ''host''). HostKey (Value r) (Port r) = w))" for w
      by (auto simp: direct_ips_def)
    have "ip \<in> allowed_ips inp k \<longleftrightarrow> (\<exists>w. (w = k \<or> covers w k) \<and> ip \<in> direct_ips inp w)"
      by (auto simp: allowed_ips_def)
    then show ?thesis unfolding d by (auto simp del: HostKey.inject)
  qed
  ultimately show ?thesis unfolding look by (simp add: finite_allowed_ips)
qed

text \<open>C39. ValidName accepts exactly the names of at most 253 bytes that are an optional \<open>*.\<close>, one or more
  labels of letters, digits and inner hyphens (1 to 63 characters each), and an alphabetic last
  label of 2 to 63 letters.\<close>

theorem ValidName_labels:
  "ValidName s \<longleftrightarrow> length s \<le> 253 \<and> (\<exists>w ls t. (w = [] \<or> w = ''*.'') \<and> ls \<noteq> [] \<and> list_all label_ok ls \<and> tld_ok t \<and>
     s = w @ dotted ls @ t)"
  unfolding ValidName_iff fqdn_def by (metis append.left_neutral)

text \<open>No IP literal is a valid name, and neither is a bare star: a valid name ends in a lower-case letter
  and holds only lower-case letters, digits, hyphens, dots and stars.\<close>

theorem ValidName_no_IP:
  assumes "ValidName s"
  shows "CHR ''a'' \<le> last s \<and> last s \<le> CHR ''z'' \<and>
    (\<forall>c \<in> set s. alnum c \<or> c \<in> {CHR ''-'', CHR ''.'', CHR ''*''}) \<and> s \<noteq> ''*'' \<and> CHR ''.'' \<in> set s"
proof -
  obtain w ls t where s: "ls \<noteq> []" "tld_ok t" "s = w @ dotted ls @ t"
    using assms unfolding ValidName_iff fqdn_def by (metis append.left_neutral)
  moreover from this have "t \<noteq> []" by (auto simp: tld_ok_def)
  ultimately have "last s = last t" "last t \<in> set t" by simp_all
  moreover have "CHR ''.'' \<in> set s" using s(1,3) by (cases ls) (auto simp: dotted_def)
  moreover from this have "s \<noteq> ''*''" by auto
  ultimately show ?thesis using s(2) ValidName_chars [OF assms] by (auto simp: tld_ok_def)
qed

text \<open>A small input: two pods, a wildcard in the zone and an exact grant below it.\<close>

definition demo_input :: Input where
  "demo_input = \<lparr>DefaultZone = ''z'',
     ZoneRules = [(''z'', [\<lparr>Kind = ''host'', Value = ''*.github.com'', Port = 443\<rparr>, \<lparr>Kind = ''dns'', Value = ''pypi.org'', Port = 0\<rparr>])],
     Assign = [], Grants = [(''w2'', [\<lparr>Kind = ''host'', Value = ''api.github.com'', Port = 443\<rparr>])],
     Pods = [\<lparr>ID = ''w1'', Name = ''a'', OwnerID = ''u1'', IP = ''10.0.0.1''\<rparr>, \<lparr>ID = ''w2'', Name = ''b'', OwnerID = ''u2'', IP = ''10.0.0.2''\<rparr>]\<rparr>"

theorem HostIPs_correct_witness:
  "map_of (HostIPs rev (\<lambda>_. id) demo_input) (HostKey ''api.github.com'' 443) = Some [''10.0.0.1'', ''10.0.0.2''] \<and>
   (\<exists>p \<in> set (Pods demo_input). IP p = ''10.0.0.1'' \<and>
      (\<exists>r \<in> set (Effective demo_input (ID p) ''host''). HostKey (Value r) (Port r) = HostKey ''api.github.com'' 443 \<or>
         covers (HostKey (Value r) (Port r)) (HostKey ''api.github.com'' 443)))"
proof -
  have v: "map_of (HostIPs rev (\<lambda>_. id) demo_input) (HostKey ''api.github.com'' 443) = Some [''10.0.0.1'', ''10.0.0.2'']"
    by code_simp
  have o: "\<And>ks :: HostKey list. set (rev ks) = set ks" "\<And>(wk :: HostKey) ks :: HostKey list. set (id ks) = set ks" by simp_all
  show ?thesis using HostIPs_correct [of rev "\<lambda>_. id" demo_input "HostKey ''api.github.com'' 443", OF o] v
    by (simp del: HostKey.inject) blast
qed

theorem ValidName_no_IP_witness:
  "CHR ''a'' \<le> last ''*.github.com'' \<and> ''*.github.com'' \<noteq> ''*''"
proof -
  have "ValidName ''*.github.com''" by code_simp
  from ValidName_no_IP [OF this] show ?thesis by blast
qed

end
