(* ===== verification/Watch.thy ===== *)
theory Watch
  imports Policy
begin

text \<open>
  Package watch (src/admin/internal/watch/pods.go): the view of running workspace pods.
  The pod lister is the cache of a client-go informer; its content, in the unspecified
  order in which the lister returns it, is the field \<open>lister\<close>. The locale \<open>pods_view\<close> is
  the interface \<^verbatim>\<open>web.Pods\<close> through which the web handlers and the denial callback read
  it; it is interpreted on the definitions below.
\<close>

section \<open>Definitions\<close>

record Pod =
  Labels :: "(string, string) gomap"
  Phase :: string
  PodIP :: string
  DeletionTimestamp :: "int option"

record PodCache =
  lister :: "Pod list"

definition wsLabel :: string where
  "wsLabel = ''com.coder.workspace.id''"

definition skipped :: "Pod \<Rightarrow> bool" where
  "skipped pod \<longleftrightarrow> get_or [] (Labels pod) wsLabel = [] \<or> Phase pod \<noteq> ''Running'' \<or>
     PodIP pod = [] \<or> DeletionTimestamp pod \<noteq> None"

definition workspace_of :: "Pod \<Rightarrow> Workspace" where
  "workspace_of pod = \<lparr>ID = get_or [] (Labels pod) wsLabel,
     Name = get_or [] (Labels pod) ''com.coder.workspace.name'',
     OwnerID = get_or [] (Labels pod) ''com.coder.user.id'', IP = PodIP pod\<rparr>"

definition Running :: "PodCache \<Rightarrow> Workspace list" where
  \<comment> \<open>sorted by ID, then IP\<close>
  "Running p = sort_key (\<lambda>w. (ID w, IP w)) (map workspace_of (filter (\<lambda>pod. \<not> skipped pod) (lister p)))"

definition Start :: "string option \<Rightarrow> bool \<Rightarrow> PodCache \<Rightarrow> string + PodCache" where
  \<comment> \<open>the error of registering the handlers, whether the cache synced, and its content then; afterwards every
    add, update and delete calls the argument \<^verbatim>\<open>onChange\<close>\<close>
  "Start handlerErr synced p = (case handlerErr of
      Some e \<Rightarrow> Inl e
    | None \<Rightarrow> if \<not> synced then Inl ''workspace pod cache did not sync'' else Inr p)"

definition on_pod_event :: "('s \<Rightarrow> 's) \<Rightarrow> (PodCache \<Rightarrow> 's \<Rightarrow> 's) \<Rightarrow> PodCache \<Rightarrow> 's \<Rightarrow> 's" where
  \<comment> \<open>the informer stores the new content, then runs the handler\<close>
  "on_pod_event onChange store p s = onChange (store p s)"

definition ByIP :: "PodCache \<Rightarrow> string \<Rightarrow> Workspace option" where
  \<comment> \<open>None is the pair (Workspace{}, false)\<close>
  "ByIP p ip = find (\<lambda>w. IP w = ip) (Running p)"

definition ByID :: "PodCache \<Rightarrow> string \<Rightarrow> Workspace option" where
  "ByID p i = find (\<lambda>w. ID w = i) (Running p)"

lemmas [op_defs] = skipped_def workspace_of_def Running_def ByIP_def ByID_def

section \<open>The interface web.Pods\<close>

locale pods_view =
  fixes running :: "'p \<Rightarrow> Workspace list"
    and by_ip :: "'p \<Rightarrow> string \<Rightarrow> Workspace option"
    and by_id :: "'p \<Rightarrow> string \<Rightarrow> Workspace option"
  assumes by_ip_Some: "by_ip p ip = Some w \<Longrightarrow> w \<in> set (running p) \<and> IP w = ip"
    and by_ip_None: "by_ip p ip = None \<Longrightarrow> w \<in> set (running p) \<Longrightarrow> IP w \<noteq> ip"
    and by_id_Some: "by_id p i = Some w \<Longrightarrow> w \<in> set (running p) \<and> ID w = i"
    and by_id_None: "by_id p i = None \<Longrightarrow> w \<in> set (running p) \<Longrightarrow> ID w \<noteq> i"
    and running_ids: "w \<in> set (running p) \<Longrightarrow> ID w \<noteq> [] \<and> IP w \<noteq> []"
begin

lemma by_ip_iff: "(\<exists>w. by_ip p ip = Some w) \<longleftrightarrow> (\<exists>w \<in> set (running p). IP w = ip)"
  by (metis by_ip_None by_ip_Some not_None_eq)

lemma by_id_iff: "(\<exists>w. by_id p i = Some w) \<longleftrightarrow> (\<exists>w \<in> set (running p). ID w = i)"
  by (metis by_id_None by_id_Some not_None_eq)

lemma by_ip_empty [simp]: "by_ip p [] = None"
  by (metis by_ip_Some not_None_eq running_ids)

lemma by_id_empty [simp]: "by_id p [] = None"
  by (metis by_id_Some not_None_eq running_ids)

lemma by_ip_unique:
  \<comment> \<open>no address is shared by two workspaces: the lookup is by owner\<close>
  assumes "inj_on IP (set (running p))" "w \<in> set (running p)"
  shows "by_ip p (IP w) = Some w"
  using assms by (metis by_ip_iff by_ip_Some inj_onD)

end

lemma set_Running: "set (Running p) = workspace_of ` {pod \<in> set (lister p). \<not> skipped pod}"
  by (simp add: Running_def)

lemma Running_nonempty: "w \<in> set (Running p) \<Longrightarrow> ID w \<noteq> [] \<and> IP w \<noteq> []"
  by (auto simp: set_Running skipped_def workspace_of_def)

interpretation pods: pods_view Running ByIP ByID
proof unfold_locales
  fix p ip w i
  show "ByIP p ip = Some w \<Longrightarrow> w \<in> set (Running p) \<and> IP w = ip"
    unfolding ByIP_def by (rule find_Some_mem)
  show "ByID p i = Some w \<Longrightarrow> w \<in> set (Running p) \<and> ID w = i"
    unfolding ByID_def by (rule find_Some_mem)
qed (auto simp: ByIP_def ByID_def find_None_iff Running_nonempty)

definition demo_pods :: PodCache where
  \<comment> \<open>one running workspace, for the concrete runs\<close>
  "demo_pods = \<lparr>lister = [\<lparr>Labels = [(wsLabel, ''w1''), (''com.coder.workspace.name'', ''dev''), (''com.coder.user.id'', ''u1'')],
     Phase = ''Running'', PodIP = ''10.0.0.1'', DeletionTimestamp = None\<rparr>]\<rparr>"

end
