(* ===== verification/Store.thy ===== *)
theory Store
  imports Policy
begin

text \<open>
  Package store, the database below its operations: the tables of
  src/admin/internal/store/migrations/001_init.sql with their constraints, the transaction
  runner and error mapping of store.go, and Seed, PolicyInput, Audit and Migrate.

  A table is the list of its rows. A transaction body maps a database to an error or to a
  result with the new database; \<open>tx\<close> commits the latter and leaves the database alone in
  the former case, as \<^verbatim>\<open>pgx.BeginFunc\<close> does. A statement that violates a constraint fails
  with the SQLSTATE Postgres reports for it: a CHECK is tested before the unique indexes,
  a foreign key last. Transactions run one after the other here.

  What Postgres supplies is an argument: \<open>uuid_in\<close> parses the text of a uuid into its
  canonical text (None is SQLSTATE 22P02), \<open>xfrm\<close> is the sort key of the collation that
  ORDER BY uses on text, \<open>gen\<close> the stream of fresh uuids of \<^verbatim>\<open>gen_random_uuid()\<close>, \<open>now\<close> the
  transaction time. Times are microseconds, durations nanoseconds (Go's
  \<^verbatim>\<open>time.Duration\<close>). Text columns hold valid UTF-8.
\<close>

section \<open>Tables\<close>

type_synonym time = int
type_synonym duration = int

record pg =
  uuid_in :: "string \<Rightarrow> string option"
  xfrm :: "string \<Rightarrow> string"

record zone_row =
  z_id :: string
  z_name :: string
  z_is_default :: bool
  z_created_at :: time

record rule_row =
  ru_id :: string
  ru_zone :: "string option"
  ru_ws :: "string option"
  ru_kind :: string
  ru_value :: string
  ru_port :: int
  ru_expires :: "time option"
  ru_created_by :: string
  ru_created_at :: time

record assignment_row =
  as_ws :: string
  as_zone :: string
  as_by :: string
  as_at :: time

record request_row =
  rq_id :: string
  rq_ws :: string
  rq_host :: string
  rq_port :: int
  rq_justification :: string
  rq_requester :: string
  rq_status :: string
  rq_decided_by :: "string option"
  rq_ttl :: "int option"
  rq_created_at :: time
  rq_decided_at :: "time option"

record denial_row =
  dn_ws :: string
  dn_host :: string
  dn_port :: int
  dn_count :: int
  dn_first :: time
  dn_last :: time

record audit_row =
  au_at :: time
  au_actor :: string
  au_action :: string
  au_detail :: "(string \<times> json) list"

record db =
  zones :: "zone_row list"
  rules :: "rule_row list"
  assignments :: "assignment_row list"
  requests :: "request_row list"
  denials :: "denial_row list"
  audits :: "audit_row list" \<comment> \<open>in the order of their id\<close>

definition empty_db :: db where
  "empty_db = \<lparr>zones = [], rules = [], assignments = [], requests = [], denials = [], audits = []\<rparr>"

section \<open>Errors and transactions\<close>

datatype err =
    PgError string \<comment> \<open>SQLSTATE\<close>
  | ErrNoRows
  | ErrConflict
  | ErrInvalid
  | ErrNotFound
  | ErrOther string

definition mapErr :: "err \<Rightarrow> err" where
  "mapErr e = (case e of
      PgError state \<Rightarrow>
        if state = ''23505'' \<or> state = ''23503'' then ErrConflict
        else if state = ''23514'' \<or> state = ''22P02'' then ErrInvalid
        else e
    | _ \<Rightarrow> e)"

type_synonym 'a txn = "db \<Rightarrow> err + ('a \<times> db)"

definition tret :: "'a \<Rightarrow> 'a txn" where
  "tret a d = Inr (a, d)"

definition tfail :: "err \<Rightarrow> 'a txn" where
  "tfail e d = Inl e"

definition tbind :: "'a txn \<Rightarrow> ('a \<Rightarrow> 'b txn) \<Rightarrow> 'b txn" where
  "tbind m f d = (case m d of Inl e \<Rightarrow> Inl e | Inr (a, d') \<Rightarrow> f a d')"

definition tx :: "'a txn \<Rightarrow> db \<Rightarrow> (err + 'a) \<times> db" where
  "tx fn d = (case fn d of Inl e \<Rightarrow> (Inl (mapErr e), d) | Inr (a, d') \<Rightarrow> (Inr a, d'))"

definition audit :: "time \<Rightarrow> string \<Rightarrow> string \<Rightarrow> (string \<times> json) list \<Rightarrow> unit txn" where
  "audit now actor action detail d =
     Inr ((), d\<lparr>audits := audits d @ [\<lparr>au_at = now, au_actor = actor, au_action = action, au_detail = detail\<rparr>]\<rparr>)"

definition cast_uuid :: "pg \<Rightarrow> string \<Rightarrow> string txn" where
  \<comment> \<open>binding a text argument to a uuid parameter\<close>
  "cast_uuid E s = (case uuid_in E s of None \<Rightarrow> tfail (PgError ''22P02'') | Some u \<Rightarrow> tret u)"

section \<open>Inserts with their constraints\<close>

definition zone_nameRE :: re where
  \<comment> \<open>\<^verbatim>\<open>^[a-z0-9][a-z0-9-]{0,40}$\<close>\<close>
  "zone_nameRE = Seq (Cls cls_alnum) (Rep (Cls cls_label) 0 (Some 40))"

definition insert_zone :: "string \<Rightarrow> string \<Rightarrow> bool \<Rightarrow> time \<Rightarrow> string txn" where
  \<comment> \<open>\<^verbatim>\<open>INSERT INTO zones (name, is_default) ... RETURNING id::text\<close>\<close>
  "insert_zone i name def now d =
     (if \<not> re_match zone_nameRE name then Inl (PgError ''23514'')
      else if i \<in> z_id ` set (zones d) \<or> name \<in> z_name ` set (zones d) \<or>
              (def \<and> (\<exists>z \<in> set (zones d). z_is_default z)) then Inl (PgError ''23505'')
      else Inr (i, d\<lparr>zones := zones d @ [\<lparr>z_id = i, z_name = name, z_is_default = def, z_created_at = now\<rparr>]\<rparr>))"

definition rule_check :: "rule_row \<Rightarrow> bool" where
  \<comment> \<open>the CHECK constraints of table rules\<close>
  "rule_check r \<longleftrightarrow> (ru_kind r = ''host'' \<or> ru_kind r = ''dns'') \<and>
     ((ru_kind r = ''host'' \<and> (ru_port r = 80 \<or> ru_port r = 443)) \<or> (ru_kind r = ''dns'' \<and> ru_port r = 0)) \<and>
     (ru_zone r = None) \<noteq> (ru_ws r = None) \<and>
     (ru_ws r = None \<or> ru_expires r \<noteq> None)"

definition zone_key :: "rule_row \<Rightarrow> string option \<times> string \<times> string \<times> int" where
  "zone_key r = (ru_zone r, ru_kind r, ru_value r, ru_port r)"

definition insert_rule :: "rule_row \<Rightarrow> unit txn" where
  "insert_rule r d =
     (if \<not> rule_check r then Inl (PgError ''23514'')
      else if ru_id r \<in> ru_id ` set (rules d) \<or>
              (ru_zone r \<noteq> None \<and> zone_key r \<in> zone_key ` set (rules d)) then Inl (PgError ''23505'')
      else if (case ru_zone r of None \<Rightarrow> False | Some z \<Rightarrow> z \<notin> z_id ` set (zones d)) then Inl (PgError ''23503'')
      else Inr ((), d\<lparr>rules := rules d @ [r]\<rparr>))"

fun insert_rules :: "rule_row list \<Rightarrow> unit txn" where
  "insert_rules [] = tret ()"
| "insert_rules (r # rs) = tbind (insert_rule r) (\<lambda>_. insert_rules rs)"

definition zone_rule :: "string \<Rightarrow> string \<Rightarrow> string \<Rightarrow> string \<Rightarrow> int \<Rightarrow> string \<Rightarrow> time \<Rightarrow> rule_row" where
  \<comment> \<open>the row of \<^verbatim>\<open>INSERT INTO rules (zone_id, kind, value, port, created_by)\<close>\<close>
  "zone_rule i z kind value port creator now =
     \<lparr>ru_id = i, ru_zone = Some z, ru_ws = None, ru_kind = kind, ru_value = value, ru_port = port,
      ru_expires = None, ru_created_by = creator, ru_created_at = now\<rparr>"

section \<open>Operations of store.go\<close>

definition Seed :: "(nat \<Rightarrow> string) \<Rightarrow> time \<Rightarrow> db \<Rightarrow> (err + unit) \<times> db" where
  "Seed gen now = tx (\<lambda>d.
     if length (zones d) > 0 then Inr ((), d)
     else tbind (insert_zone (gen 0) ''default'' True now) (\<lambda>i.
          tbind (insert_rule (zone_rule (gen 1) i ''host'' ''example.com'' 443 ''bootstrap'' now)) (\<lambda>_.
          tbind (insert_rule (zone_rule (gen 2) i ''host'' ''example.com'' 80 ''bootstrap'' now)) (\<lambda>_.
          audit now ''bootstrap'' ''seed''
            [(''zone'', JStr i), (''hosts'', JArr [JStr ''example.com:443'', JStr ''example.com:80''])]))) d)"

definition live :: "time \<Rightarrow> rule_row \<Rightarrow> bool" where
  \<comment> \<open>\<^verbatim>\<open>expires_at IS NULL OR expires_at > now()\<close>\<close>
  "live now r = (case ru_expires r of None \<Rightarrow> True | Some e \<Rightarrow> now < e)"

definition rule_of :: "rule_row \<Rightarrow> Rule" where
  "rule_of r = \<lparr>Kind = ru_kind r, Value = ru_value r, Port = ru_port r\<rparr>"

definition rule_order :: "pg \<Rightarrow> rule_row \<Rightarrow> string \<times> string \<times> int" where
  \<comment> \<open>\<^verbatim>\<open>ORDER BY kind, value, port\<close>\<close>
  "rule_order E r = (xfrm E (ru_kind r), xfrm E (ru_value r), ru_port r)"

definition add_rule :: "rule_row \<Rightarrow> Input \<Rightarrow> Input" where
  "add_rule r inp =
     (let zone = (case ru_zone r of None \<Rightarrow> [] | Some z \<Rightarrow> z);
          ws = (case ru_ws r of None \<Rightarrow> [] | Some w \<Rightarrow> w) in
      if zone \<noteq> []
      then inp\<lparr>ZoneRules := AList.update zone (get_or [] (ZoneRules inp) zone @ [rule_of r]) (ZoneRules inp)\<rparr>
      else inp\<lparr>Grants := AList.update ws (get_or [] (Grants inp) ws @ [rule_of r]) (Grants inp)\<rparr>)"

definition add_zone :: "zone_row \<Rightarrow> Input \<Rightarrow> Input" where
  "add_zone z inp =
     (let inp' = inp\<lparr>ZoneRules := AList.update (z_id z) [] (ZoneRules inp)\<rparr>
      in if z_is_default z then inp'\<lparr>DefaultZone := z_id z\<rparr> else inp')"

definition add_assignment :: "assignment_row \<Rightarrow> Input \<Rightarrow> Input" where
  "add_assignment a inp = inp\<lparr>Assign := AList.update (as_ws a) (as_zone a) (Assign inp)\<rparr>"

definition PolicyInput :: "pg \<Rightarrow> time \<Rightarrow> db \<Rightarrow> db \<Rightarrow> db \<Rightarrow> Input" where
  \<comment> \<open>three queries outside a transaction: each may see another state of the database\<close>
  "PolicyInput E now d1 d2 d3 =
     (let in0 = \<lparr>DefaultZone = [], ZoneRules = [], Assign = [], Grants = [], Pods = []\<rparr>;
          in1 = fold add_zone (zones d1) in0;
          in2 = fold add_rule (sort_key (rule_order E) (filter (live now) (rules d2))) in1
      in fold add_assignment (assignments d3) in2)"

definition AuditSystem :: "time \<Rightarrow> string \<Rightarrow> (string \<times> json) list \<Rightarrow> db \<Rightarrow> (err + unit) \<times> db" where
  "AuditSystem now action detail = tx (audit now ''system'' action detail)"

definition Audit :: "nat \<Rightarrow> db \<Rightarrow> audit_row list" where
  \<comment> \<open>\<^verbatim>\<open>ORDER BY id DESC LIMIT $1\<close>\<close>
  "Audit limit d = take limit (rev (audits d))"

text \<open>A small instance of the environment, for the concrete runs.\<close>

definition demo_pg :: pg where
  "demo_pg = \<lparr>uuid_in = (\<lambda>s. if s = [] \<or> s = ''bad'' then None else Some s), xfrm = (\<lambda>s. s)\<rparr>"

definition demo_gen :: "string \<Rightarrow> nat \<Rightarrow> string" where
  "demo_gen p n = p @ replicate n (CHR ''x'')"

definition demo_db :: db where
  \<comment> \<open>the database after the first start\<close>
  "demo_db = snd (Seed (demo_gen ''d'') 0 empty_db)"

section \<open>Invariants\<close>

definition zones_ok :: "zone_row list \<Rightarrow> bool" where
  "zones_ok zs \<longleftrightarrow> distinct (map z_id zs) \<and> distinct (map z_name zs) \<and>
     list_all (\<lambda>z. re_match zone_nameRE (z_name z)) zs \<and> length (filter z_is_default zs) \<le> 1"

definition rule_row_ok :: "rule_row \<Rightarrow> bool" where
  "rule_row_ok r \<longleftrightarrow> ValidRule (rule_of r) \<and> (ru_zone r = None) \<noteq> (ru_ws r = None) \<and>
     (ru_ws r \<noteq> None \<longrightarrow> ru_expires r \<noteq> None) \<and> (ru_zone r \<noteq> None \<longrightarrow> ru_expires r = None)"

definition rules_ok :: "zone_row list \<Rightarrow> rule_row list \<Rightarrow> bool" where
  "rules_ok zs rs \<longleftrightarrow> distinct (map ru_id rs) \<and> list_all rule_row_ok rs \<and>
     distinct (map zone_key (filter (\<lambda>r. ru_zone r \<noteq> None) rs)) \<and>
     (\<forall>r \<in> set rs. case ru_zone r of None \<Rightarrow> True | Some z \<Rightarrow> z \<in> z_id ` set zs)"

definition assignments_ok :: "zone_row list \<Rightarrow> assignment_row list \<Rightarrow> bool" where
  \<comment> \<open>one row per workspace, and never one that points at the default zone\<close>
  "assignments_ok zs as \<longleftrightarrow> distinct (map as_ws as) \<and>
     (\<forall>a \<in> set as. \<exists>z \<in> set zs. z_id z = as_zone a \<and> \<not> z_is_default z)"

definition char_length :: "string \<Rightarrow> nat" where
  \<comment> \<open>\<^verbatim>\<open>length(text)\<close>: code points of valid UTF-8, so the bytes that do not continue one\<close>
  "char_length s = length (filter (\<lambda>c. code c < 128 \<or> 192 \<le> code c) s)"

definition request_check :: "request_row \<Rightarrow> bool" where
  \<comment> \<open>the CHECK constraints of table requests\<close>
  "request_check r \<longleftrightarrow> (rq_port r = 80 \<or> rq_port r = 443) \<and>
     1 \<le> char_length (rq_justification r) \<and> char_length (rq_justification r) \<le> 2000 \<and>
     (rq_status r = ''pending'' \<or> rq_status r = ''approved'' \<or> rq_status r = ''denied'')"

definition request_row_ok :: "request_row \<Rightarrow> bool" where
  "request_row_ok r \<longleftrightarrow> request_check r \<and> ValidName (rq_host r) \<and>
     (rq_status r = ''pending'') = (rq_decided_by r = None) \<and>
     (rq_status r = ''approved'') = (rq_ttl r \<noteq> None)"

definition requests_ok :: "request_row list \<Rightarrow> bool" where
  "requests_ok qs \<longleftrightarrow> distinct (map rq_id qs) \<and> list_all request_row_ok qs"

definition denial_key :: "denial_row \<Rightarrow> string \<times> string \<times> int" where
  "denial_key r = (dn_ws r, dn_host r, dn_port r)"

definition denials_ok :: "denial_row list \<Rightarrow> bool" where
  "denials_ok ds \<longleftrightarrow> distinct (map denial_key ds) \<and>
     (\<forall>q \<in> set ds. length (filter (\<lambda>r. dn_ws r = dn_ws q) ds) \<le> 200)"

definition db_ok :: "db \<Rightarrow> bool" where
  "db_ok d \<longleftrightarrow> zones_ok (zones d) \<and> rules_ok (zones d) (rules d) \<and>
     assignments_ok (zones d) (assignments d) \<and> requests_ok (requests d) \<and> denials_ok (denials d)"

definition has_default :: "db \<Rightarrow> bool" where
  "has_default d \<longleftrightarrow> length (filter z_is_default (zones d)) = 1"

definition zone_in :: "db \<Rightarrow> string \<Rightarrow> string option" where
  \<comment> \<open>the zone of a workspace, read off the tables\<close>
  "zone_in d ws = (case find (\<lambda>a. as_ws a = ws) (assignments d) of
      Some a \<Rightarrow> Some (as_zone a)
    | None \<Rightarrow> map_option z_id (find z_is_default (zones d)))"

section \<open>Reasoning about transactions\<close>

definition keeps :: "(db \<Rightarrow> bool) \<Rightarrow> 'a txn \<Rightarrow> bool" where
  "keeps P m \<longleftrightarrow> (\<forall>d a d'. P d \<longrightarrow> m d = Inr (a, d') \<longrightarrow> P d')"

definition logs :: "'a txn \<Rightarrow> bool" where
  \<comment> \<open>a committed body only appends to the audit table\<close>
  "logs m \<longleftrightarrow> (\<forall>d a d'. m d = Inr (a, d') \<longrightarrow> (\<exists>new. audits d' = audits d @ new))"

definition silent :: "'a txn \<Rightarrow> bool" where
  "silent m \<longleftrightarrow> (\<forall>d a d'. m d = Inr (a, d') \<longrightarrow> audits d' = audits d)"

definition signs :: "string \<Rightarrow> 'a txn \<Rightarrow> bool" where
  \<comment> \<open>a committed body writes audit rows, all in the name of the actor\<close>
  "signs actor m \<longleftrightarrow> (\<forall>d a d'. m d = Inr (a, d') \<longrightarrow>
     (\<exists>new. new \<noteq> [] \<and> audits d' = audits d @ new \<and> list_all (\<lambda>row. au_actor row = actor) new))"

lemma rules_ok_iff:
  "rules_ok zs rs \<longleftrightarrow> distinct (map ru_id rs) \<and> list_all rule_row_ok rs \<and>
     distinct (map zone_key (filter (\<lambda>r. ru_zone r \<noteq> None) rs)) \<and>
     (\<forall>r \<in> set rs. \<forall>z. ru_zone r = Some z \<longrightarrow> z \<in> z_id ` set zs)"
  unfolding rules_ok_def by (metis (no_types, lifting) option.case(2) option.exhaust option.simps(4))

lemmas txn_defs = tret_def tfail_def tbind_def

lemma tbind_Inr: "tbind m f d = Inr r \<longleftrightarrow> (\<exists>a d'. m d = Inr (a, d') \<and> f a d' = Inr r)"
  by (auto simp: tbind_def split: sum.splits)

lemma tret_Inr: "tret a d = Inr (b, d') \<longleftrightarrow> b = a \<and> d' = d"
  by (auto simp: tret_def)

lemma tfail_Inr: "\<not> tfail e d = Inr r"
  by (simp add: tfail_def)

lemma audit_Inr: "audit now actor action detail d = Inr (u, d') \<longleftrightarrow>
    d' = d\<lparr>audits := audits d @ [\<lparr>au_at = now, au_actor = actor, au_action = action, au_detail = detail\<rparr>]\<rparr>"
  by (auto simp: audit_def)

lemma cast_uuid_Inr: "cast_uuid E s d = Inr (u, d') \<longleftrightarrow> uuid_in E s = Some u \<and> d' = d"
  by (auto simp: cast_uuid_def tret_def tfail_def split: option.splits)

lemmas txn_Inr = tbind_Inr tret_Inr tfail_Inr audit_Inr cast_uuid_Inr

lemma tbind_assoc: "tbind (tbind m f) g = tbind m (\<lambda>a. tbind (f a) g)"
  by (rule ext) (auto simp: tbind_def split: sum.splits)

lemma keepsI: "(\<And>d a d'. P d \<Longrightarrow> m d = Inr (a, d') \<Longrightarrow> P d') \<Longrightarrow> keeps P m"
  by (auto simp: keeps_def)

lemma keepsD: "keeps P m \<Longrightarrow> P d \<Longrightarrow> m d = Inr (a, d') \<Longrightarrow> P d'"
  by (auto simp: keeps_def)

lemma keeps_tret [intro]: "keeps P (tret a)"
  by (auto simp: keeps_def tret_def)

lemma keeps_tfail [intro]: "keeps P (tfail e)"
  by (auto simp: keeps_def tfail_def)

lemma keeps_tbind [intro]: "keeps P m \<Longrightarrow> (\<And>a. keeps P (f a)) \<Longrightarrow> keeps P (tbind m f)"
  unfolding keeps_def tbind_Inr by blast

lemma logs_tret [intro]: "logs (tret a)"
  by (auto simp: logs_def tret_def)

lemma logs_tfail [intro]: "logs (tfail e)"
  by (auto simp: logs_def tfail_def)

lemma logs_tbind [intro]: "logs m \<Longrightarrow> (\<And>a. logs (f a)) \<Longrightarrow> logs (tbind m f)"
  unfolding logs_def tbind_Inr by (metis append_assoc)

lemma logs_audit [intro]: "logs (audit now actor action detail)"
  by (auto simp: logs_def audit_def)

lemma logs_same: "(\<And>d a d'. m d = Inr (a, d') \<Longrightarrow> audits d' = audits d) \<Longrightarrow> logs m"
  by (fastforce simp: logs_def)

lemma tx_Inl: "fst (tx fn d) = Inl e \<Longrightarrow> snd (tx fn d) = d"
  by (auto simp: tx_def split: sum.splits)

lemma tx_changed: "snd (tx fn d) \<noteq> d \<Longrightarrow> \<exists>a d'. fn d = Inr (a, d') \<and> snd (tx fn d) = d'"
  by (auto simp: tx_def split: sum.splits)

lemma tx_Inr: "tx fn d = (Inr a, d') \<longleftrightarrow> fn d = Inr (a, d')"
  by (auto simp: tx_def split: sum.splits)

lemma tx_keeps: "keeps P fn \<Longrightarrow> P d \<Longrightarrow> P (snd (tx fn d))"
  by (auto simp: tx_def dest: keepsD split: sum.splits)

lemma tx_logs: "logs fn \<Longrightarrow> \<exists>new. audits (snd (tx fn d)) = audits d @ new"
  by (fastforce simp: tx_def logs_def split: sum.splits)

lemma db_ok_audits [simp]: "db_ok (d\<lparr>audits := as\<rparr>) = db_ok d"
  by (simp add: db_ok_def)

lemma keeps_audit: "(\<And>d as. P (d\<lparr>audits := as\<rparr>) = P d) \<Longrightarrow> keeps P (audit now actor action detail)"
  by (auto simp: keeps_def audit_def)

lemma keeps_cast_uuid [intro]: "keeps P (cast_uuid E s)"
  by (auto simp: cast_uuid_def split: option.splits)

lemma logs_cast_uuid [intro]: "logs (cast_uuid E s)"
  by (auto simp: cast_uuid_def split: option.splits)

section \<open>The inserts keep the invariant\<close>

lemma rule_check_ok:
  \<comment> \<open>a row that passes \<open>ValidRule\<close> passes the CHECKs on kind and port\<close>
  "ValidRule (rule_of r) \<Longrightarrow> (ru_zone r = None) \<noteq> (ru_ws r = None) \<Longrightarrow>
     (ru_ws r = None \<or> ru_expires r \<noteq> None) \<Longrightarrow> rule_check r"
  by (auto simp: ValidRule_def rule_of_def rule_check_def split: if_splits)

lemma insert_zone_Inr:
  "insert_zone i name def now d = Inr (j, d') \<longleftrightarrow> j = i \<and> re_match zone_nameRE name \<and>
     i \<notin> z_id ` set (zones d) \<and> name \<notin> z_name ` set (zones d) \<and>
     (def \<longrightarrow> (\<forall>z \<in> set (zones d). \<not> z_is_default z)) \<and>
     d' = d\<lparr>zones := zones d @ [\<lparr>z_id = i, z_name = name, z_is_default = def, z_created_at = now\<rparr>]\<rparr>"
  by (auto simp: insert_zone_def split: if_splits)

lemma insert_rule_Inr:
  "insert_rule r d = Inr (u, d') \<longleftrightarrow> rule_check r \<and> ru_id r \<notin> ru_id ` set (rules d) \<and>
     (ru_zone r = None \<or> zone_key r \<notin> zone_key ` set (rules d)) \<and>
     (\<forall>z. ru_zone r = Some z \<longrightarrow> z \<in> z_id ` set (zones d)) \<and> d' = d\<lparr>rules := rules d @ [r]\<rparr>"
  by (auto simp: insert_rule_def split: option.splits)

lemma has_default_frame [simp]:
  "has_default (d\<lparr>audits := as\<rparr>) = has_default d" "has_default (d\<lparr>rules := rs\<rparr>) = has_default d"
  "has_default (d\<lparr>assignments := ms\<rparr>) = has_default d" "has_default (d\<lparr>requests := qs\<rparr>) = has_default d"
  "has_default (d\<lparr>denials := ns\<rparr>) = has_default d"
  by (simp_all add: has_default_def)

lemma keeps_audits [intro]:
  "keeps db_ok (audit now actor action detail)" "keeps has_default (audit now actor action detail)"
  "keeps (\<lambda>d. db_ok d \<and> has_default d) (audit now actor action detail)"
  by (rule keeps_audit, simp)+

lemma keeps_default_insert [intro]:
  "keeps has_default (insert_rule r)" "keeps has_default (insert_zone i name False now)"
  by (auto intro!: keepsI simp: insert_rule_Inr insert_zone_Inr) (simp add: has_default_def)

lemma keeps_default_insert_rules [intro]: "keeps has_default (insert_rules rs)"
  by (induction rs) auto

lemma rules_ok_zones_mono: "rules_ok zs rs \<Longrightarrow> z_id ` set zs \<subseteq> z_id ` set zs' \<Longrightarrow> rules_ok zs' rs"
  by (fastforce simp: rules_ok_iff)

lemma rules_ok_same_ids: "map z_id zs = map z_id zs' \<Longrightarrow> rules_ok zs rs = rules_ok zs' rs"
  unfolding rules_ok_iff by (metis set_map)

lemma assignments_ok_zones_mono: "assignments_ok zs as \<Longrightarrow> set zs \<subseteq> set zs' \<Longrightarrow> assignments_ok zs' as"
  by (fastforce simp: assignments_ok_def)

lemma assignments_ok_map:
  assumes "\<And>z. z_id (f z) = z_id z" "\<And>z. z_is_default (f z) = z_is_default z" "assignments_ok zs as"
  shows "assignments_ok (map f zs) as"
  using assms by (simp add: assignments_ok_def)

lemma zones_ok_filter: "zones_ok zs \<Longrightarrow> zones_ok (filter P zs)"
proof -
  assume "zones_ok zs"
  moreover have "length (filter z_is_default (filter P zs)) \<le> length (filter z_is_default zs)"
    by (induction zs) auto
  ultimately show ?thesis by (auto simp: zones_ok_def list_all_iff distinct_map_filter)
qed

lemma rules_ok_filter: "rules_ok zs rs \<Longrightarrow> rules_ok zs (filter P rs)"
proof -
  assume "rules_ok zs rs"
  moreover have "filter (\<lambda>r. ru_zone r \<noteq> None) (filter P rs) = filter P (filter (\<lambda>r. ru_zone r \<noteq> None) rs)"
    by (simp add: conj_commute)
  ultimately show ?thesis
    unfolding rules_ok_iff by (simp only: distinct_map_filter) (auto simp: list_all_iff)
qed

lemma assignments_ok_filter: "assignments_ok zs as \<Longrightarrow> assignments_ok zs (filter P as)"
  by (auto simp: assignments_ok_def distinct_map_filter)

lemmas db_ok_filters = zones_ok_filter rules_ok_filter assignments_ok_filter

lemma db_ok_row: "db_ok d \<Longrightarrow> r \<in> set (rules d) \<Longrightarrow> rule_row_ok r"
  by (auto simp: db_ok_def rules_ok_iff list_all_iff)

lemma keeps_insert_zone [intro]: "keeps db_ok (insert_zone i name def now)"
proof (rule keepsI)
  fix d j d'
  assume ok: "db_ok d" and ins: "insert_zone i name def now d = Inr (j, d')"
  let ?z = "\<lparr>z_id = i, z_name = name, z_is_default = def, z_created_at = now\<rparr>"
  have d': "d' = d\<lparr>zones := zones d @ [?z]\<rparr>" using ins by (simp add: insert_zone_Inr)
  have "zones_ok (zones d @ [?z])"
    using ok ins by (auto simp: db_ok_def zones_ok_def insert_zone_Inr)
  moreover have "rules_ok (zones d @ [?z]) (rules d)"
    using ok by (auto simp: db_ok_def intro: rules_ok_zones_mono)
  moreover have "assignments_ok (zones d @ [?z]) (assignments d)"
    using ok by (auto simp: db_ok_def intro: assignments_ok_zones_mono)
  ultimately show "db_ok d'" using ok d' by (simp add: db_ok_def)
qed

lemma keeps_insert_rule [intro]: "rule_row_ok r \<Longrightarrow> keeps db_ok (insert_rule r)"
proof (rule keepsI)
  fix d u d'
  assume r: "rule_row_ok r" and ok: "db_ok d" and ins: "insert_rule r d = Inr (u, d')"
  have "rules_ok (zones d) (rules d @ [r])"
    using ok ins r by (auto simp: db_ok_def rules_ok_iff insert_rule_Inr)
  then show "db_ok d'" using ok ins by (simp add: db_ok_def insert_rule_Inr)
qed

lemma keeps_insert_rules [intro]: "list_all rule_row_ok rs \<Longrightarrow> keeps db_ok (insert_rules rs)"
  by (induction rs) auto

lemma logs_insert [intro]: "logs (insert_zone i name def now)" "logs (insert_rule r)"
  by (auto intro!: logs_same simp: insert_zone_Inr insert_rule_Inr)

lemma logs_insert_rules [intro]: "logs (insert_rules rs)"
  by (induction rs) auto

lemma zone_rule_ok: "rule_row_ok (zone_rule i z k v p by now) = ValidRule \<lparr>Kind = k, Value = v, Port = p\<rparr>"
  by (simp add: rule_row_ok_def zone_rule_def rule_of_def)

lemma ValidName_example: "ValidName ''example.com''"
  by code_simp

section \<open>What PolicyInput loads\<close>

lemma add_zone_fields [simp]:
  "Assign (add_zone z inp) = Assign inp" "Grants (add_zone z inp) = Grants inp" "Pods (add_zone z inp) = Pods inp"
  "ZoneRules (add_zone z inp) = AList.update (z_id z) [] (ZoneRules inp)"
  "DefaultZone (add_zone z inp) = (if z_is_default z then z_id z else DefaultZone inp)"
  by (simp_all add: add_zone_def Let_def)

lemma add_assignment_fields [simp]:
  "Assign (add_assignment a inp) = AList.update (as_ws a) (as_zone a) (Assign inp)"
  "Grants (add_assignment a inp) = Grants inp" "Pods (add_assignment a inp) = Pods inp"
  "ZoneRules (add_assignment a inp) = ZoneRules inp" "DefaultZone (add_assignment a inp) = DefaultZone inp"
  by (simp_all add: add_assignment_def)

lemma add_rule_fields [simp]:
  "Assign (add_rule r inp) = Assign inp" "DefaultZone (add_rule r inp) = DefaultZone inp" "Pods (add_rule r inp) = Pods inp"
  by (simp_all add: add_rule_def Let_def)

lemma fold_add_zone_fields [simp]:
  "Assign (fold add_zone zs inp) = Assign inp" "Grants (fold add_zone zs inp) = Grants inp"
  "Pods (fold add_zone zs inp) = Pods inp"
  by (induction zs arbitrary: inp) simp_all

lemma fold_add_rule_fields [simp]:
  "Assign (fold add_rule rs inp) = Assign inp" "DefaultZone (fold add_rule rs inp) = DefaultZone inp"
  "Pods (fold add_rule rs inp) = Pods inp"
  by (induction rs arbitrary: inp) simp_all

lemma fold_add_assignment_fields [simp]:
  "ZoneRules (fold add_assignment as inp) = ZoneRules inp" "Grants (fold add_assignment as inp) = Grants inp"
  "DefaultZone (fold add_assignment as inp) = DefaultZone inp" "Pods (fold add_assignment as inp) = Pods inp"
  by (induction as arbitrary: inp) simp_all

lemma fold_add_zone_ZoneRules:
  "get_or [] (ZoneRules (fold add_zone zs inp)) z = (if z \<in> z_id ` set zs then [] else get_or [] (ZoneRules inp) z)"
  by (induction zs arbitrary: inp) auto

lemma fold_add_zone_Default:
  "\<forall>z \<in> set zs. \<not> z_is_default z \<Longrightarrow> DefaultZone (fold add_zone zs inp) = DefaultZone inp"
  "filter z_is_default zs = [z] \<Longrightarrow> DefaultZone (fold add_zone zs inp) = z_id z"
proof -
  show a: "\<forall>z \<in> set zs. \<not> z_is_default z \<Longrightarrow> DefaultZone (fold add_zone zs inp) = DefaultZone inp" for zs inp
    by (induction zs arbitrary: inp) auto
  show "filter z_is_default zs = [z] \<Longrightarrow> DefaultZone (fold add_zone zs inp) = z_id z"
    by (induction zs arbitrary: inp) (auto split: if_splits simp: a filter_empty_conv)
qed

lemma fold_add_rule_ZoneRules:
  assumes "z \<noteq> []"
  shows "get_or [] (ZoneRules (fold add_rule rs inp)) z =
    get_or [] (ZoneRules inp) z @ map rule_of (filter (\<lambda>r. ru_zone r = Some z) rs)"
  using assms by (induction rs arbitrary: inp) (auto simp: add_rule_def Let_def split: option.splits)

lemma fold_add_rule_Grants:
  assumes "w \<noteq> []"
  shows "get_or [] (Grants (fold add_rule rs inp)) w =
    get_or [] (Grants inp) w @ map rule_of (filter (\<lambda>r. (ru_zone r = None \<or> ru_zone r = Some []) \<and> ru_ws r = Some w) rs)"
  using assms by (induction rs arbitrary: inp) (auto simp: add_rule_def Let_def split: option.splits)

lemma fold_add_assignment_Assign:
  assumes "distinct (map as_ws as)"
  shows "map_of (Assign (fold add_assignment as inp)) =
    map_of (Assign inp) ++ map_of (map (\<lambda>a. (as_ws a, as_zone a)) as)"
  using assms
proof (induction as arbitrary: inp)
  case (Cons a as)
  then have "map_of (map (\<lambda>a. (as_ws a, as_zone a)) as) (as_ws a) = None"
    by (auto simp: map_of_eq_None_iff)
  with Cons show ?case by (auto simp: update_conv' map_add_def fun_eq_iff split: option.splits)
qed simp

lemma ZoneOf_PolicyInput:
  assumes "db_ok d" "has_default d"
  shows "zone_in d ws = Some (ZoneOf (PolicyInput E now d d' d) ws)"
proof -
  obtain z where z: "filter z_is_default (zones d) = [z]"
    using assms(2) by (auto simp: has_default_def length_Suc_conv)
  then have f: "find z_is_default (zones d) = Some z" by (simp add: find_filter)
  show ?thesis
    using assms(1) fold_add_zone_Default(2) [OF z] f
    by (simp add: zone_in_def ZoneOf_def PolicyInput_def Let_def fold_add_assignment_Assign
        db_ok_def assignments_ok_def map_of_find split: option.splits)
qed

lemma rule_row_zone_ws: "rule_row_ok r \<Longrightarrow> ru_zone r = None \<longleftrightarrow> (\<exists>w. ru_ws r = Some w)"
  by (auto simp: rule_row_ok_def)

lemma Effective_PolicyInput:
  assumes ok: "db_ok d" "has_default d" and ne: "[] \<notin> z_id ` set (zones d)" "ws \<noteq> []"
  shows "r \<in> set (Effective (PolicyInput E now d d d) ws kind) \<longleftrightarrow>
    (\<exists>row \<in> set (rules d). live now row \<and> rule_of row = r \<and> ru_kind row = kind \<and>
       (ru_ws row = Some ws \<or> ru_zone row = zone_in d ws))"
proof -
  define z where "z = ZoneOf (PolicyInput E now d d d) ws"
  have zin: "zone_in d ws = Some z" using ZoneOf_PolicyInput [OF ok] by (simp add: z_def)
  have "z \<in> z_id ` set (zones d)"
    using zin ok by (force simp: zone_in_def db_ok_def assignments_ok_def split: option.splits dest!: find_Some_mem)
  with ne(1) have "z \<noteq> []" by metis
  have rok: "rule_row_ok row \<and> ru_zone row \<noteq> Some []" if "row \<in> set (rules d)" for row
    using ok ne that by (force simp: db_ok_def rules_ok_iff list_all_iff)
  let ?rs = "sort_key (rule_order E) (filter (live now) (rules d))"
  have zr: "get_or [] (ZoneRules (PolicyInput E now d d d)) z = map rule_of (filter (\<lambda>r. ru_zone r = Some z) ?rs)"
    using \<open>z \<noteq> []\<close> by (simp add: PolicyInput_def Let_def fold_add_rule_ZoneRules fold_add_zone_ZoneRules)
  have gr: "get_or [] (Grants (PolicyInput E now d d d)) ws =
      map rule_of (filter (\<lambda>r. (ru_zone r = None \<or> ru_zone r = Some []) \<and> ru_ws r = Some ws) ?rs)"
    using ne(2) by (simp add: PolicyInput_def Let_def fold_add_rule_Grants)
  have "r \<in> set (Effective (PolicyInput E now d d d) ws kind) \<longleftrightarrow> Kind r = kind \<and> ValidRule r \<and>
     (\<exists>row \<in> set (rules d). live now row \<and> rule_of row = r \<and>
        (ru_zone row = Some z \<or> (ru_zone row = None \<or> ru_zone row = Some []) \<and> ru_ws row = Some ws))"
    unfolding Effective_def by (auto simp: zr [unfolded z_def] gr z_def)
  also have "\<dots> \<longleftrightarrow> (\<exists>row \<in> set (rules d). live now row \<and> rule_of row = r \<and> ru_kind row = kind \<and>
       (ru_ws row = Some ws \<or> ru_zone row = zone_in d ws))" (is "_ \<longleftrightarrow> ?rhs")
  proof -
    have eq: "Kind (rule_of row) = kind \<and> ValidRule (rule_of row) \<and>
        (ru_zone row = Some z \<or> (ru_zone row = None \<or> ru_zone row = Some []) \<and> ru_ws row = Some ws)
      \<longleftrightarrow> ru_kind row = kind \<and> (ru_ws row = Some ws \<or> ru_zone row = zone_in d ws)"
      if "row \<in> set (rules d)" for row
      using rok [OF that] by (auto simp: rule_row_ok_def zin) (auto simp: rule_of_def)
    show ?thesis using eq by blast
  qed
  finally show ?thesis .
qed

section \<open>The contract of a store operation\<close>

locale store_op =
  fixes op :: "db \<Rightarrow> (err + 'a) \<times> db"
  assumes failed_unchanged: "fst (op d) = Inl e \<Longrightarrow> snd (op d) = d"
    and keeps_db_ok: "db_ok d \<Longrightarrow> db_ok (snd (op d))"
    and keeps_default: "db_ok d \<Longrightarrow> has_default d \<Longrightarrow> has_default (snd (op d))"
    and appends: "\<exists>new. audits (snd (op d)) = audits d @ new"
begin

lemma audit_row_stays: "row \<in> set (audits d) \<Longrightarrow> row \<in> set (audits (snd (op d)))"
  using appends [of d] by auto

lemma audit_prefix: "prefix (audits d) (audits (snd (op d)))"
  using appends [of d] by (auto simp: prefix_def)

lemma changed_succeeded: "snd (op d) \<noteq> d \<Longrightarrow> \<exists>a. fst (op d) = Inr a"
  by (cases "fst (op d)") (auto dest: failed_unchanged)

end

locale audited_op = store_op op for op :: "db \<Rightarrow> (err + 'a) \<times> db" +
  fixes actor :: string
  assumes changed_audited: "snd (op d) \<noteq> d \<Longrightarrow>
    \<exists>new. new \<noteq> [] \<and> audits (snd (op d)) = audits d @ new \<and> list_all (\<lambda>row. au_actor row = actor) new"
begin

lemma last_audit_names_actor: "snd (op d) \<noteq> d \<Longrightarrow> au_actor (last (audits (snd (op d)))) = actor"
  using changed_audited [of d] by (auto simp: list_all_iff)

lemma change_visible_in_log: "snd (op d) \<noteq> d \<Longrightarrow> length (audits d) < length (audits (snd (op d)))"
  using changed_audited [of d] by auto

end

lemma silentI: "(\<And>d a d'. m d = Inr (a, d') \<Longrightarrow> audits d' = audits d) \<Longrightarrow> silent m"
  by (simp add: silent_def)

lemma silent_tbind [intro]: "silent m \<Longrightarrow> (\<And>a. silent (f a)) \<Longrightarrow> silent (tbind m f)"
  unfolding silent_def tbind_Inr by metis

lemma silent_basic [intro]: "silent (tret a)" "silent (tfail e)" "silent (cast_uuid E s)"
  "silent (insert_zone i name def now)" "silent (insert_rule r)"
  by (auto intro!: silentI simp: txn_Inr insert_zone_Inr insert_rule_Inr)

lemma silent_insert_rules [intro]: "silent (insert_rules rs)"
  by (induction rs) auto

lemma silent_logs: "silent m \<Longrightarrow> logs m"
  by (auto simp: silent_def logs_def)

lemma signs_logs: "signs actor m \<Longrightarrow> logs m"
  unfolding signs_def logs_def by blast

lemma signs_tfail [intro]: "signs actor (tfail e)"
  by (simp add: signs_def tfail_def)

lemma signs_audit [intro]: "signs actor (audit now actor action detail)"
  by (auto simp: signs_def audit_def)

lemma signs_tbind [intro]: "silent m \<Longrightarrow> (\<And>a. signs actor (f a)) \<Longrightarrow> signs actor (tbind m f)"
  unfolding silent_def signs_def tbind_Inr by metis

lemma txn_if [intro]:
  "keeps P m \<Longrightarrow> keeps P n \<Longrightarrow> keeps P (if b then m else n)"
  "silent m \<Longrightarrow> silent n \<Longrightarrow> silent (if b then m else n)"
  "signs actor m \<Longrightarrow> signs actor n \<Longrightarrow> signs actor (if b then m else n)"
  by simp_all

lemma signs_tbind_tret [intro]: "signs actor m \<Longrightarrow> signs actor (tbind m (\<lambda>_. tret a))"
  unfolding signs_def txn_Inr by metis

lemma keeps_both: "keeps P m \<Longrightarrow> keeps Q m \<Longrightarrow> keeps (\<lambda>d. P d \<and> Q d) m"
  unfolding keeps_def by blast

lemma keeps_conjI:
  assumes "keeps P m" "\<And>d a d'. P d \<Longrightarrow> Q d \<Longrightarrow> m d = Inr (a, d') \<Longrightarrow> Q d'"
  shows "keeps (\<lambda>d. P d \<and> Q d) m"
  using assms unfolding keeps_def by blast

lemma store_op_tx:
  assumes "keeps db_ok fn" "keeps (\<lambda>d. db_ok d \<and> has_default d) fn" "logs fn"
  shows "store_op (tx fn)"
  using assms(3) tx_keeps [OF assms(1)] tx_keeps [OF assms(2)]
  by unfold_locales (auto intro: tx_Inl tx_logs)

lemma audited_op_tx:
  assumes "keeps db_ok fn" "keeps (\<lambda>d. db_ok d \<and> has_default d) fn" "signs actor fn"
  shows "audited_op (tx fn) actor"
proof (intro audited_op.intro audited_op_axioms.intro)
  show "store_op (tx fn)" using assms by (intro store_op_tx signs_logs)
  show "\<exists>new. new \<noteq> [] \<and> audits (snd (tx fn d)) = audits d @ new \<and> list_all (\<lambda>row. au_actor row = actor) new"
    if "snd (tx fn d) \<noteq> d" for d
    using assms(3) that by (auto simp: tx_def signs_def split: sum.splits)
qed

end
