(* ===== verification/StoreZones.thy ===== *)
theory StoreZones
  imports Store
begin

text \<open>
  Package store, zones, rules, assignments and grants
  (src/admin/internal/store/zones.go). Every operation is interpreted as an \<open>audited_op\<close>:
  a failed call changes nothing, a successful one keeps the invariant \<open>db_ok\<close>, and what it
  changes is written to the audit table in the name of the caller.
\<close>

section \<open>Definitions\<close>

record RuleRow =
  rr_ID :: string
  rr_ZoneID :: string
  rr_WorkspaceID :: string
  rr_Kind :: string
  rr_Value :: string
  rr_Port :: int
  rr_ExpiresAt :: "time option"
  rr_CreatedBy :: string

record Zone =
  zn_ID :: string
  zn_Name :: string
  zn_Default :: bool
  zn_Rules :: "RuleRow list"
  zn_Members :: "string list"

definition coalesce :: "string option \<Rightarrow> string" where
  "coalesce s = (case s of None \<Rightarrow> [] | Some t \<Rightarrow> t)"

definition scanRule :: "rule_row \<Rightarrow> RuleRow" where
  "scanRule r = \<lparr>rr_ID = ru_id r, rr_ZoneID = coalesce (ru_zone r), rr_WorkspaceID = coalesce (ru_ws r),
     rr_Kind = ru_kind r, rr_Value = ru_value r, rr_Port = ru_port r, rr_ExpiresAt = ru_expires r,
     rr_CreatedBy = ru_created_by r\<rparr>"

definition Zones :: "pg \<Rightarrow> db \<Rightarrow> db \<Rightarrow> Zone list" where
  \<comment> \<open>two queries outside a transaction\<close>
  "Zones E d1 d2 =
     (let zs = map (\<lambda>z. \<lparr>zn_ID = z_id z, zn_Name = z_name z, zn_Default = z_is_default z, zn_Rules = [],
                  zn_Members = map as_ws (filter (\<lambda>a. as_zone a = z_id z) (assignments d1))\<rparr>)
                (sort_key (\<lambda>z. (\<not> z_is_default z, xfrm E (z_name z))) (zones d1));
          rs = map scanRule (sort_key (rule_order E) (filter (\<lambda>r. ru_zone r \<noteq> None) (rules d2)))
      in map (\<lambda>z. z\<lparr>zn_Rules := zn_Rules z @ filter (\<lambda>r. rr_ZoneID r = zn_ID z) rs\<rparr>) zs)"

definition CreateZone :: "(nat \<Rightarrow> string) \<Rightarrow> time \<Rightarrow> string \<Rightarrow> string \<Rightarrow> db \<Rightarrow> (err + string) \<times> db" where
  "CreateZone gen now actor name = tx (
     tbind (insert_zone (gen 0) name False now) (\<lambda>i.
     tbind (audit now actor ''zone_create'' [(''zone'', JStr i), (''name'', JStr name)]) (\<lambda>_.
     tret i)))"

definition clone_rules :: "(nat \<Rightarrow> string) \<Rightarrow> time \<Rightarrow> string \<Rightarrow> string \<Rightarrow> string \<Rightarrow> rule_row list \<Rightarrow> rule_row list" where
  \<comment> \<open>\<^verbatim>\<open>SELECT $1, kind, value, port, $2 FROM rules WHERE zone_id = $3\<close>, each row with a fresh id\<close>
  "clone_rules gen now actor z src rs =
     map (\<lambda>(n, r). zone_rule (gen (Suc n)) z (ru_kind r) (ru_value r) (ru_port r) actor now)
       (enumerate 0 (filter (\<lambda>r. ru_zone r = Some src) rs))"

definition insert_clone :: "string \<Rightarrow> string \<Rightarrow> string \<Rightarrow> time \<Rightarrow> string txn" where
  \<comment> \<open>\<^verbatim>\<open>INSERT INTO zones (name) SELECT $1 WHERE EXISTS (SELECT 1 FROM zones WHERE id = $2)\<close>\<close>
  "insert_clone i name src now d =
     (if src \<notin> z_id ` set (zones d) then Inl ErrNotFound else insert_zone i name False now d)"

definition copy_rules :: "(nat \<Rightarrow> string) \<Rightarrow> time \<Rightarrow> string \<Rightarrow> string \<Rightarrow> string \<Rightarrow> unit txn" where
  "copy_rules gen now actor z src d = insert_rules (clone_rules gen now actor z src (rules d)) d"

definition CloneZone :: "pg \<Rightarrow> (nat \<Rightarrow> string) \<Rightarrow> time \<Rightarrow> string \<Rightarrow> string \<Rightarrow> string \<Rightarrow> db \<Rightarrow> (err + string) \<times> db" where
  "CloneZone E gen now actor srcID name = tx (
     tbind (cast_uuid E srcID) (\<lambda>src.
     tbind (insert_clone (gen 0) name src now) (\<lambda>i.
     tbind (copy_rules gen now actor i src) (\<lambda>_.
     tbind (audit now actor ''zone_clone'' [(''zone'', JStr i), (''from'', JStr srcID), (''name'', JStr name)]) (\<lambda>_.
     tret i)))))"

definition one :: "nat \<Rightarrow> unit txn" where
  \<comment> \<open>on the number of rows a statement affected\<close>
  "one n = (if n = 0 then tfail ErrNotFound else tret ())"

definition update_zone_name :: "string \<Rightarrow> string \<Rightarrow> nat txn" where
  \<comment> \<open>\<^verbatim>\<open>UPDATE zones SET name = $1 WHERE id = $2\<close>\<close>
  "update_zone_name name i d =
     (if i \<notin> z_id ` set (zones d) then Inr (0, d)
      else if \<not> re_match zone_nameRE name then Inl (PgError ''23514'')
      else if \<exists>z \<in> set (zones d). z_name z = name \<and> z_id z \<noteq> i then Inl (PgError ''23505'')
      else Inr (1, d\<lparr>zones := map (\<lambda>z. if z_id z = i then z\<lparr>z_name := name\<rparr> else z) (zones d)\<rparr>))"

definition RenameZone :: "pg \<Rightarrow> time \<Rightarrow> string \<Rightarrow> string \<Rightarrow> string \<Rightarrow> db \<Rightarrow> (err + unit) \<times> db" where
  "RenameZone E now actor i name = tx (
     tbind (cast_uuid E i) (\<lambda>u.
     tbind (update_zone_name name u) (\<lambda>n.
     tbind (one n) (\<lambda>_.
     audit now actor ''zone_rename'' [(''zone'', JStr i), (''name'', JStr name)]))))"

definition delete_zone :: "string \<Rightarrow> unit txn" where
  \<comment> \<open>\<^verbatim>\<open>DELETE FROM zones WHERE id = $1\<close>: rules cascade, an assignment refuses\<close>
  "delete_zone i d =
     (if \<exists>a \<in> set (assignments d). as_zone a = i then Inl (PgError ''23503'')
      else Inr ((), d\<lparr>zones := filter (\<lambda>z. z_id z \<noteq> i) (zones d),
                       rules := filter (\<lambda>r. ru_zone r \<noteq> Some i) (rules d)\<rparr>))"

definition select_deletable :: "string \<Rightarrow> unit txn" where
  \<comment> \<open>\<^verbatim>\<open>SELECT is_default, EXISTS (SELECT 1 FROM assignments WHERE zone_id = $1) FROM zones WHERE id = $1\<close>
    and the tests on its row\<close>
  "select_deletable i d = (case find (\<lambda>z. z_id z = i) (zones d) of
      None \<Rightarrow> Inl ErrNotFound
    | Some z \<Rightarrow> if z_is_default z \<or> (\<exists>a \<in> set (assignments d). as_zone a = i)
                then Inl ErrConflict else Inr ((), d))"

definition DeleteZone :: "pg \<Rightarrow> time \<Rightarrow> string \<Rightarrow> string \<Rightarrow> db \<Rightarrow> (err + unit) \<times> db" where
  "DeleteZone E now actor i = tx (
     tbind (cast_uuid E i) (\<lambda>u.
     tbind (select_deletable u) (\<lambda>_.
     tbind (delete_zone u) (\<lambda>_.
     audit now actor ''zone_delete'' [(''zone'', JStr i)]))))"

definition set_default :: "string \<Rightarrow> nat txn" where
  \<comment> \<open>the two UPDATEs of is_default; the result is the row count of the second\<close>
  "set_default i d =
     (let zs = map (\<lambda>z. z\<lparr>z_is_default := False\<rparr>) (zones d)
      in Inr (length (filter (\<lambda>z. z_id z = i) zs),
              d\<lparr>zones := map (\<lambda>z. if z_id z = i then z\<lparr>z_is_default := True\<rparr> else z) zs\<rparr>))"

definition delete_assignments :: "(assignment_row \<Rightarrow> bool) \<Rightarrow> unit txn" where
  \<comment> \<open>\<^verbatim>\<open>DELETE FROM assignments WHERE ...\<close>\<close>
  "delete_assignments P d = Inr ((), d\<lparr>assignments := filter (\<lambda>a. \<not> P a) (assignments d)\<rparr>)"

definition SetDefaultZone :: "pg \<Rightarrow> time \<Rightarrow> string \<Rightarrow> string \<Rightarrow> db \<Rightarrow> (err + unit) \<times> db" where
  "SetDefaultZone E now actor i = tx (
     tbind (cast_uuid E i) (\<lambda>u.
     tbind (set_default u) (\<lambda>n.
     tbind (one n) (\<lambda>_.
     tbind (delete_assignments (\<lambda>a. as_zone a = u)) (\<lambda>_.
     audit now actor ''zone_default'' [(''zone'', JStr i)])))))"

definition rule_detail :: "string \<Rightarrow> string \<Rightarrow> Rule \<Rightarrow> (string \<times> json) list" where
  "rule_detail k i r = [(k, JStr i), (''kind'', JStr (Kind r)), (''value'', JStr (Value r)), (''port'', JNum (Port r))]"

definition AddZoneRule :: "pg \<Rightarrow> (nat \<Rightarrow> string) \<Rightarrow> time \<Rightarrow> string \<Rightarrow> string \<Rightarrow> Rule \<Rightarrow> db \<Rightarrow> (err + unit) \<times> db" where
  "AddZoneRule E gen now actor zoneID r d =
     (if \<not> ValidRule r then (Inl ErrInvalid, d)
      else tx (tbind (cast_uuid E zoneID) (\<lambda>z.
               tbind (insert_rule (zone_rule (gen 0) z (Kind r) (Value r) (Port r) actor now)) (\<lambda>_.
               audit now actor ''rule_add'' (rule_detail ''zone'' zoneID r)))) d)"

definition delete_rule :: "string \<Rightarrow> rule_row txn" where
  \<comment> \<open>\<^verbatim>\<open>DELETE FROM rules WHERE id = $1 RETURNING ...\<close>\<close>
  "delete_rule i d = (case find (\<lambda>r. ru_id r = i) (rules d) of
      None \<Rightarrow> Inl ErrNotFound
    | Some r \<Rightarrow> Inr (r, d\<lparr>rules := filter (\<lambda>r. ru_id r \<noteq> i) (rules d)\<rparr>))"

definition DeleteRule :: "pg \<Rightarrow> time \<Rightarrow> string \<Rightarrow> string \<Rightarrow> db \<Rightarrow> (err + unit) \<times> db" where
  "DeleteRule E now actor ruleID = tx (
     tbind (cast_uuid E ruleID) (\<lambda>u.
     tbind (delete_rule u) (\<lambda>r.
     audit now actor ''rule_delete''
       ([(''zone'', JStr (coalesce (ru_zone r)))] @ rule_detail ''workspace'' (coalesce (ru_ws r)) (rule_of r)))))"

definition upsert_assignment :: "string \<Rightarrow> string \<Rightarrow> string \<Rightarrow> time \<Rightarrow> unit txn" where
  \<comment> \<open>\<^verbatim>\<open>INSERT ... ON CONFLICT (workspace_id) DO UPDATE\<close>\<close>
  "upsert_assignment ws z actor now d =
     (if z \<notin> z_id ` set (zones d) then Inl (PgError ''23503'')
      else Inr ((), d\<lparr>assignments :=
        (if ws \<in> as_ws ` set (assignments d)
         then map (\<lambda>a. if as_ws a = ws then a\<lparr>as_zone := z, as_by := actor, as_at := now\<rparr> else a) (assignments d)
         else assignments d @ [\<lparr>as_ws = ws, as_zone = z, as_by = actor, as_at = now\<rparr>])\<rparr>))"

definition select_is_default :: "string \<Rightarrow> bool txn" where
  \<comment> \<open>\<^verbatim>\<open>SELECT is_default FROM zones WHERE id = $1\<close>\<close>
  "select_is_default i d = (case find (\<lambda>z. z_id z = i) (zones d) of
      None \<Rightarrow> Inl ErrNotFound | Some z \<Rightarrow> Inr (z_is_default z, d))"

definition AssignZone :: "pg \<Rightarrow> time \<Rightarrow> string \<Rightarrow> string \<Rightarrow> string \<Rightarrow> db \<Rightarrow> (err + unit) \<times> db" where
  \<comment> \<open>method Assign\<close>
  "AssignZone E now actor wsID zoneID = tx (
     tbind (cast_uuid E zoneID) (\<lambda>z.
     tbind (select_is_default z) (\<lambda>def.
     tbind (cast_uuid E wsID) (\<lambda>ws.
     tbind (if def then delete_assignments (\<lambda>a. as_ws a = ws) else upsert_assignment ws z actor now) (\<lambda>_.
     audit now actor ''assign'' [(''workspace'', JStr wsID), (''zone'', JStr zoneID)])))))"

definition interval_us :: "duration \<Rightarrow> int" where
  \<comment> \<open>nanoseconds as the microseconds of an interval: \<^verbatim>\<open>make_interval\<close> rounds, halves to even\<close>
  "interval_us ttl = (let us = ttl div 1000; rest = ttl mod 1000 in if 500 < rest \<or> rest = 500 \<and> odd us then us + 1 else us)"

definition grant_tx :: "pg \<Rightarrow> (nat \<Rightarrow> string) \<Rightarrow> time \<Rightarrow> (duration \<Rightarrow> string) \<Rightarrow> string \<Rightarrow> string \<Rightarrow> Rule \<Rightarrow> duration \<Rightarrow>
    (string \<times> json) list \<Rightarrow> unit txn" where
  \<comment> \<open>function grant; \<open>show_ttl\<close> prints the duration for the audit row\<close>
  "grant_tx E gen now show_ttl actor wsID r ttl extra =
     (if \<not> ValidRule r \<or> ttl \<le> 0 then tfail ErrInvalid
      else tbind (cast_uuid E wsID) (\<lambda>ws.
           tbind (insert_rule \<lparr>ru_id = gen 0, ru_zone = None, ru_ws = Some ws, ru_kind = Kind r, ru_value = Value r,
                    ru_port = Port r, ru_expires = Some (now + interval_us ttl), ru_created_by = actor, ru_created_at = now\<rparr>) (\<lambda>_.
           audit now actor (if extra = [] then ''grant'' else ''approve'')
             (rule_detail ''workspace'' wsID r @ [(''ttl'', JStr (show_ttl ttl))] @ extra))))"

definition Grant :: "pg \<Rightarrow> (nat \<Rightarrow> string) \<Rightarrow> time \<Rightarrow> (duration \<Rightarrow> string) \<Rightarrow> string \<Rightarrow> string \<Rightarrow> Rule \<Rightarrow> duration \<Rightarrow>
    db \<Rightarrow> (err + unit) \<times> db" where
  "Grant E gen now show_ttl actor wsID r ttl = tx (grant_tx E gen now show_ttl actor wsID r ttl [])"

definition expired_at :: "time \<Rightarrow> rule_row \<Rightarrow> bool" where
  "expired_at now r \<longleftrightarrow> ru_ws r \<noteq> None \<and> (case ru_expires r of None \<Rightarrow> False | Some e \<Rightarrow> e \<le> now)"

definition GrantsList :: "pg \<Rightarrow> time \<Rightarrow> db \<Rightarrow> RuleRow list" where
  \<comment> \<open>method Grants\<close>
  "GrantsList E now d = map scanRule (sort_key (\<lambda>r. (coalesce (ru_ws r), xfrm E (ru_value r)))
     (filter (\<lambda>r. ru_ws r \<noteq> None \<and> (case ru_expires r of None \<Rightarrow> False | Some e \<Rightarrow> now < e)) (rules d)))"

fun audit_expired :: "time \<Rightarrow> rule_row list \<Rightarrow> unit txn" where
  "audit_expired now [] = tret ()"
| "audit_expired now (r # rs) =
     tbind (audit now ''system'' ''expire'' (rule_detail ''workspace'' (coalesce (ru_ws r)) (rule_of r)))
       (\<lambda>_. audit_expired now rs)"

definition delete_expired :: "time \<Rightarrow> rule_row list txn" where
  \<comment> \<open>\<^verbatim>\<open>DELETE FROM rules WHERE workspace_id IS NOT NULL AND expires_at <= now() RETURNING ...\<close>\<close>
  "delete_expired now d = Inr (filter (expired_at now) (rules d),
     d\<lparr>rules := filter (\<lambda>r. \<not> expired_at now r) (rules d)\<rparr>)"

definition ExpireGrants :: "time \<Rightarrow> db \<Rightarrow> (err + nat) \<times> db" where
  "ExpireGrants now = tx (
     tbind (delete_expired now) (\<lambda>gone.
     tbind (audit_expired now gone) (\<lambda>_.
     tret (length gone))))"

text \<open>The zones after a change of default.\<close>

definition chosen :: "string \<Rightarrow> zone_row list \<Rightarrow> zone_row list" where
  "chosen i zs = map (\<lambda>z. z\<lparr>z_is_default := z_id z = i\<rparr>) zs"

section \<open>Each statement keeps the invariant\<close>

lemma clone_rules_ok:
  assumes "db_ok d"
  shows "list_all rule_row_ok (clone_rules gen now actor i src (rules d))"
proof -
  have "ValidRule \<lparr>Kind = ru_kind r, Value = ru_value r, Port = ru_port r\<rparr>" if "r \<in> set (rules d)" for r
    using db_ok_row [OF assms that] by (simp add: rule_row_ok_def rule_of_def)
  then show ?thesis
    by (auto simp: clone_rules_def list_all_iff zone_rule_ok dest!: in_set_enumerate_eq [THEN iffD1] nth_mem)
qed

lemma keeps_copy_rules [intro]: "keeps db_ok (copy_rules gen now actor z src)"
proof (rule keepsI)
  fix d u d'
  assume "db_ok d" and "copy_rules gen now actor z src d = Inr (u, d')"
  then show "db_ok d'" unfolding copy_rules_def
    using keepsD [OF keeps_insert_rules [OF clone_rules_ok]] by metis
qed

lemma keeps_insert_clone [intro]: "keeps db_ok (insert_clone i name src now)" "keeps has_default (insert_clone i name src now)"
  using keeps_insert_zone [of i name False now] keeps_default_insert(2) [of i name now]
  by (auto simp: keeps_def insert_clone_def)

lemma keeps_default_copy [intro]: "keeps has_default (copy_rules gen now actor z src)"
  using keeps_default_insert_rules by (fastforce simp: keeps_def copy_rules_def)

lemma keeps_one [intro]: "keeps P (one n)" and silent_one [intro]: "silent (one n)"
  by (auto simp: one_def)

lemma keeps_update_zone_name [intro]: "keeps db_ok (update_zone_name name i)"
proof (rule keepsI)
  fix d n d'
  assume ok: "db_ok d" and u: "update_zone_name name i d = Inr (n, d')"
  let ?f = "\<lambda>z. if z_id z = i then z\<lparr>z_name := name\<rparr> else z"
  show "db_ok d'"
  proof (cases "d' = d")
    case False
    then have d': "d' = d\<lparr>zones := map ?f (zones d)\<rparr>" and re: "re_match zone_nameRE name"
      and uniq: "\<forall>z \<in> set (zones d). z_name z = name \<longrightarrow> z_id z = i"
      using u by (auto simp: update_zone_name_def split: if_splits)
    have [simp]: "z_id (?f z) = z_id z" "z_is_default (?f z) = z_is_default z" for z by simp_all
    have ids: "map z_id (map ?f zs) = map z_id zs" "filter z_is_default (map ?f zs) = map ?f (filter z_is_default zs)" for zs
      by (induction zs) auto
    have dz: "distinct (map z_id (zones d))" "distinct (map z_name (zones d))" using ok by (auto simp: db_ok_def zones_ok_def)
    have "inj_on (\<lambda>z. z_name (?f z)) (set (zones d))"
      using dz uniq by (auto simp: inj_on_def distinct_map)
    then have "distinct (map z_name (map ?f (zones d)))"
      using dz by (simp add: distinct_map comp_def)
    then have "zones_ok (map ?f (zones d))"
      using ok re by (auto simp: db_ok_def zones_ok_def ids list_all_iff simp del: map_map)
    moreover have "rules_ok (map ?f (zones d)) (rules d)"
      using ok rules_ok_same_ids [OF ids(1)] by (simp add: db_ok_def)
    moreover have "assignments_ok (map ?f (zones d)) (assignments d)"
      using ok by (intro assignments_ok_map) (simp_all add: db_ok_def)
    ultimately show ?thesis using ok d' by (simp add: db_ok_def)
  qed (use ok in simp)
qed

lemma keeps_default_rename [intro]: "keeps has_default (update_zone_name name i)"
proof -
  have "length (filter z_is_default (map (\<lambda>z. if z_id z = i then z\<lparr>z_name := name\<rparr> else z) zs)) = length (filter z_is_default zs)" for zs
    by (induction zs) auto
  then show ?thesis by (auto intro!: keepsI simp: update_zone_name_def has_default_def split: if_splits)
qed

lemma keeps_delete_zone [intro]: "keeps db_ok (delete_zone i)"
proof (rule keepsI)
  fix d u d'
  assume ok: "db_ok d" and del: "delete_zone i d = Inr (u, d')"
  let ?zs = "filter (\<lambda>z. z_id z \<noteq> i) (zones d)" and ?rs = "filter (\<lambda>r. ru_zone r \<noteq> Some i) (rules d)"
  have d': "d' = d\<lparr>zones := ?zs, rules := ?rs\<rparr>" and free: "\<forall>a \<in> set (assignments d). as_zone a \<noteq> i"
    using del by (auto simp: delete_zone_def split: if_splits)
  have "zones_ok ?zs" using ok by (simp add: db_ok_def zones_ok_filter)
  moreover have "rules_ok (zones d) ?rs" using ok by (simp add: db_ok_def rules_ok_filter)
  then have "rules_ok ?zs ?rs" by (force simp: rules_ok_iff)
  moreover have "assignments_ok ?zs (assignments d)" using ok free by (force simp: db_ok_def assignments_ok_def)
  ultimately show "db_ok d'" using ok d' by (simp add: db_ok_def)
qed

lemma find_zone:
  assumes "zones_ok zs"
  shows "find (\<lambda>z. z_id z = i) zs = Some z \<longleftrightarrow> z \<in> set zs \<and> z_id z = i"
proof
  assume z: "z \<in> set zs \<and> z_id z = i"
  then obtain y where y: "find (\<lambda>z. z_id z = i) zs = Some y" by (cases "find (\<lambda>z. z_id z = i) zs") (auto simp: find_None_iff)
  with z assms have "y = z" by (auto simp: zones_ok_def distinct_map dest!: find_Some_mem inj_onD)
  with y show "find (\<lambda>z. z_id z = i) zs = Some z" by simp
qed (auto dest: find_Some_mem)

lemma set_default_chosen: "set_default i d = Inr (length (filter (\<lambda>z. z_id z = i) (zones d)), d\<lparr>zones := chosen i (zones d)\<rparr>)"
proof -
  have "length (filter (\<lambda>z. z_id z = i) (map (\<lambda>z. z\<lparr>z_is_default := False\<rparr>) zs)) = length (filter (\<lambda>z. z_id z = i) zs)" for zs
    by (induction zs) auto
  moreover have "map (\<lambda>z. if z_id z = i then z\<lparr>z_is_default := True\<rparr> else z) (map (\<lambda>z. z\<lparr>z_is_default := False\<rparr>) zs) = chosen i zs" for zs
    by (induction zs) (auto simp: chosen_def)
  ultimately show ?thesis by (simp add: set_default_def Let_def del: map_map)
qed

lemma chosen_simps [simp]: "chosen i [] = []" "chosen i (z # zs) = z\<lparr>z_is_default := z_id z = i\<rparr> # chosen i zs"
  by (simp_all add: chosen_def)

lemma chosen_fields [simp]: "map z_id (chosen i zs) = map z_id zs" "map z_name (chosen i zs) = map z_name zs"
  by (simp_all add: chosen_def comp_def)

lemma chosen_one:
  assumes "distinct (map z_id zs)"
  shows "length (filter z_is_default (chosen i zs)) = (if i \<in> z_id ` set zs then 1 else 0)"
  using assms by (induction zs) auto

lemma chosen_ok:
  assumes "db_ok d"
  shows "db_ok (d\<lparr>zones := chosen i (zones d), assignments := filter (\<lambda>a. as_zone a \<noteq> i) (assignments d)\<rparr>)"
proof -
  have "zones_ok (chosen i (zones d))"
    using assms chosen_one [of "zones d" i] by (auto simp: db_ok_def zones_ok_def list_all_iff) (auto simp: chosen_def)
  moreover have "rules_ok (chosen i (zones d)) (rules d)"
    using assms rules_ok_same_ids [of "chosen i (zones d)" "zones d"] by (simp add: db_ok_def)
  moreover have "assignments_ok (chosen i (zones d)) (filter (\<lambda>a. as_zone a \<noteq> i) (assignments d))"
    using assms by (force simp: db_ok_def assignments_ok_def chosen_def distinct_map_filter)
  ultimately show ?thesis using assms by (simp add: db_ok_def)
qed

lemma keeps_SetDefault:
  "keeps db_ok (tbind (set_default u) (\<lambda>n. tbind (one n) (\<lambda>_.
     tbind (delete_assignments (\<lambda>a. as_zone a = u)) (\<lambda>_. audit now actor action detail))))"
  by (rule keepsI) (auto simp: txn_Inr set_default_chosen one_def delete_assignments_def chosen_ok split: if_splits)

lemma default_SetDefault:
  "keeps (\<lambda>d. db_ok d \<and> has_default d) (tbind (set_default u) (\<lambda>n. tbind (one n) (\<lambda>_.
     tbind (delete_assignments (\<lambda>a. as_zone a = u)) (\<lambda>_. audit now actor action detail))))"
proof (rule keeps_conjI [OF keeps_SetDefault], goal_cases)
  case (1 d a d')
  then have "u \<in> z_id ` set (zones d)" "zones d' = chosen u (zones d)"
    by (auto simp: txn_Inr set_default_chosen one_def delete_assignments_def filter_empty_conv split: if_splits)
  then show ?case
    using 1(1) by (simp add: has_default_def chosen_one db_ok_def zones_ok_def)
qed

lemma select_deletable_Inr:
  "select_deletable i d = Inr (u, d') \<Longrightarrow> d' = d \<and> (\<exists>z \<in> set (zones d). z_id z = i \<and> \<not> z_is_default z)"
  by (auto simp: select_deletable_def split: option.splits if_splits dest!: find_Some_mem)

lemma delete_zone_default:
  assumes "db_ok d" "has_default d" "z \<in> set (zones d)" "\<not> z_is_default z" "delete_zone (z_id z) d = Inr (u, d')"
  shows "has_default d'"
proof -
  have "inj_on z_id (set (zones d))" using assms(1) by (auto simp: db_ok_def zones_ok_def distinct_map)
  then have "z_id y \<noteq> z_id z \<and> z_is_default y \<longleftrightarrow> z_is_default y" if "y \<in> set (zones d)" for y
    using that assms(3,4) by (auto dest: inj_onD)
  then have "filter z_is_default (filter (\<lambda>y. z_id y \<noteq> z_id z) (zones d)) = filter z_is_default (zones d)"
    unfolding filter_filter by (intro filter_cong) auto
  then show ?thesis using assms(2,5) by (auto simp: delete_zone_def has_default_def split: if_splits)
qed

lemma keeps_select_delete:
  "keeps db_ok (tbind (select_deletable u) (\<lambda>_. delete_zone u))"
  "keeps (\<lambda>d. db_ok d \<and> has_default d) (tbind (select_deletable u) (\<lambda>_. delete_zone u))"
proof -
  show ok: "keeps db_ok (tbind (select_deletable u) (\<lambda>_. delete_zone u))"
    by (auto intro!: keeps_tbind) (auto simp: keeps_def dest: select_deletable_Inr)
  show "keeps (\<lambda>d. db_ok d \<and> has_default d) (tbind (select_deletable u) (\<lambda>_. delete_zone u))"
    by (rule keeps_conjI [OF ok]) (auto simp: tbind_Inr dest!: select_deletable_Inr intro: delete_zone_default)
qed

lemma keeps_delete_rule [intro]: "keeps db_ok (delete_rule i)" "keeps has_default (delete_rule i)"
  by (auto intro!: keepsI simp: delete_rule_def db_ok_def rules_ok_filter split: option.splits)

lemma keeps_delete_expired [intro]: "keeps db_ok (delete_expired now)" "keeps has_default (delete_expired now)"
  by (auto intro!: keepsI simp: delete_expired_def db_ok_def rules_ok_filter)

lemma keeps_delete_assignments [intro]:
  "keeps db_ok (delete_assignments P)" "keeps has_default (delete_assignments P)"
  by (auto intro!: keepsI simp: delete_assignments_def db_ok_def assignments_ok_filter)

lemma keeps_default_upsert [intro]: "keeps has_default (upsert_assignment ws z actor now)"
  by (auto intro!: keepsI simp: upsert_assignment_def split: if_splits)

lemma keeps_select_is_default [intro]: "keeps P (select_is_default i)"
  by (auto intro!: keepsI simp: select_is_default_def split: option.splits)

lemma keeps_upsert:
  assumes "db_ok d" "z \<in> set (zones d)" "\<not> z_is_default z" "upsert_assignment ws (z_id z) actor now d = Inr (u, d')"
  shows "db_ok d'"
proof -
  let ?f = "\<lambda>a. if as_ws a = ws then a\<lparr>as_zone := z_id z, as_by := actor, as_at := now\<rparr> else a"
  have eq: "map as_ws (map ?f as) = map as_ws as" for as by (induction as) auto
  have "assignments_ok (zones d) (map ?f (assignments d))"
    using assms(1-3) unfolding db_ok_def assignments_ok_def eq by auto
  moreover have "ws \<notin> as_ws ` set (assignments d) \<Longrightarrow>
      assignments_ok (zones d) (assignments d @ [\<lparr>as_ws = ws, as_zone = z_id z, as_by = actor, as_at = now\<rparr>])"
    using assms(1-3) by (auto simp: db_ok_def assignments_ok_def)
  ultimately show ?thesis
    using assms(1,4) by (auto simp: upsert_assignment_def db_ok_def split: if_splits)
qed

lemma keeps_move:
  "keeps db_ok (tbind (select_is_default z) (\<lambda>def. tbind (cast_uuid E wsID) (\<lambda>ws.
     if def then delete_assignments (\<lambda>a. as_ws a = ws) else upsert_assignment ws z actor now)))"
proof (rule keepsI)
  fix d u d'
  assume ok: "db_ok d" and "tbind (select_is_default z) (\<lambda>def. tbind (cast_uuid E wsID) (\<lambda>ws.
     if def then delete_assignments (\<lambda>a. as_ws a = ws) else upsert_assignment ws z actor now)) d = Inr (u, d')"
  then obtain x ws where x: "x \<in> set (zones d)" "z_id x = z"
    and d': "(if z_is_default x then delete_assignments (\<lambda>a. as_ws a = ws) else upsert_assignment ws z actor now) d = Inr (u, d')"
    by (auto simp: txn_Inr select_is_default_def split: option.splits dest!: find_Some_mem)
  show "db_ok d'"
  proof (cases "z_is_default x")
    case True
    then show ?thesis using d' keepsD [OF keeps_delete_assignments(1) ok] by simp
  next
    case False
    then show ?thesis using d' keeps_upsert [OF ok x(1)] x(2) by simp
  qed
qed

lemma silent_statements [intro]:
  "silent (insert_clone i name src now)" "silent (update_zone_name name i)" "silent (delete_zone i)"
  "silent (select_deletable i)" "silent (set_default i)" "silent (delete_assignments P)" "silent (delete_rule i)"
  "silent (select_is_default i)" "silent (upsert_assignment ws z actor now)" "silent (delete_expired now)"
  by (auto intro!: silentI dest: select_deletable_Inr simp: insert_clone_def insert_zone_Inr update_zone_name_def delete_zone_def
      set_default_chosen delete_assignments_def delete_rule_def select_is_default_def upsert_assignment_def
      delete_expired_def split: if_splits option.splits)

lemma silent_copy_rules [intro]: "silent (copy_rules gen now actor z src)"
  using silent_insert_rules by (fastforce simp: silent_def copy_rules_def)

section \<open>Every operation is an audited operation\<close>

interpretation create_zone: audited_op "CreateZone gen now actor name" actor for gen now actor name
  unfolding CreateZone_def by (rule audited_op_tx; (rule keeps_both)?; fast)

interpretation clone_zone: audited_op "CloneZone E gen now actor srcID name" actor for E gen now actor srcID name
  unfolding CloneZone_def by (rule audited_op_tx; (rule keeps_both)?; fast)

interpretation rename_zone: audited_op "RenameZone E now actor i name" actor for E now actor i name
  unfolding RenameZone_def by (rule audited_op_tx; (rule keeps_both)?; fast)

interpretation delete_zone: audited_op "DeleteZone E now actor i" actor for E now actor i
proof -
  have eq: "DeleteZone E now actor i = tx (tbind (cast_uuid E i) (\<lambda>u.
      tbind (tbind (select_deletable u) (\<lambda>_. delete_zone u)) (\<lambda>_. audit now actor ''zone_delete'' [(''zone'', JStr i)])))"
    by (simp add: DeleteZone_def tbind_assoc)
  show "audited_op (DeleteZone E now actor i) actor"
    unfolding eq by (rule audited_op_tx; fast intro: keeps_select_delete)
qed

interpretation set_default_zone: audited_op "SetDefaultZone E now actor i" actor for E now actor i
  unfolding SetDefaultZone_def
  by (rule audited_op_tx; fast intro: keeps_SetDefault default_SetDefault)

lemma rule_eta [simp]: "\<lparr>Kind = Kind r, Value = Value r, Port = Port r\<rparr> = (r :: Rule)"
  by (cases r) simp

lemma valid_zone_rule_ok: "ValidRule r \<Longrightarrow> rule_row_ok (zone_rule i z (Kind r) (Value r) (Port r) actor now)"
  by (simp add: zone_rule_ok)

lemma AddZoneRule_tx:
  "AddZoneRule E gen now actor zoneID r = tx (if \<not> ValidRule r then tfail ErrInvalid
     else tbind (cast_uuid E zoneID) (\<lambda>z.
          tbind (insert_rule (zone_rule (gen 0) z (Kind r) (Value r) (Port r) actor now)) (\<lambda>_.
          audit now actor ''rule_add'' (rule_detail ''zone'' zoneID r))))"
  by (rule ext) (simp add: AddZoneRule_def tx_def tfail_def mapErr_def)

interpretation add_zone_rule: audited_op "AddZoneRule E gen now actor zoneID r" actor for E gen now actor zoneID r
  unfolding AddZoneRule_tx
  by (cases "ValidRule r"; simp; rule audited_op_tx; (rule keeps_both)?; fast intro: valid_zone_rule_ok)

interpretation delete_rule_op: audited_op "DeleteRule E now actor ruleID" actor for E now actor ruleID
  unfolding DeleteRule_def by (rule audited_op_tx; (rule keeps_both)?; fast)

interpretation assign_zone: audited_op "AssignZone E now actor wsID zoneID" actor for E now actor wsID zoneID
proof -
  have eq: "AssignZone E now actor wsID zoneID = tx (tbind (cast_uuid E zoneID) (\<lambda>z.
      tbind (tbind (select_is_default z) (\<lambda>def. tbind (cast_uuid E wsID) (\<lambda>ws.
        if def then delete_assignments (\<lambda>a. as_ws a = ws) else upsert_assignment ws z actor now))) (\<lambda>_.
      audit now actor ''assign'' [(''workspace'', JStr wsID), (''zone'', JStr zoneID)])))"
    by (simp add: AssignZone_def tbind_assoc)
  show "audited_op (AssignZone E now actor wsID zoneID) actor"
    unfolding eq by (rule audited_op_tx; (rule keeps_both)?; fast intro: keeps_move)
qed

lemma grant_row_ok: "ValidRule r \<Longrightarrow> rule_row_ok \<lparr>ru_id = i, ru_zone = None, ru_ws = Some ws, ru_kind = Kind r,
    ru_value = Value r, ru_port = Port r, ru_expires = Some e, ru_created_by = by, ru_created_at = at\<rparr>"
  by (cases r) (simp add: rule_row_ok_def rule_of_def)

lemma grant_tx_laws [intro]:
  "keeps db_ok (grant_tx E gen now sh actor wsID r ttl extra)"
  "keeps has_default (grant_tx E gen now sh actor wsID r ttl extra)"
  "signs actor (grant_tx E gen now sh actor wsID r ttl extra)"
  unfolding grant_tx_def by (cases "\<not> ValidRule r \<or> ttl \<le> 0"; simp; fast intro: grant_row_ok)+

interpretation grant: audited_op "Grant E gen now sh actor wsID r ttl" actor for E gen now sh actor wsID r ttl
  unfolding Grant_def by (rule audited_op_tx; (rule keeps_both)?; fast)

lemma audit_expired_run:
  "audit_expired now rs d = Inr ((), d\<lparr>audits := audits d @ map (\<lambda>r. \<lparr>au_at = now, au_actor = ''system'',
     au_action = ''expire'', au_detail = rule_detail ''workspace'' (coalesce (ru_ws r)) (rule_of r)\<rparr>) rs\<rparr>)"
  by (induction rs arbitrary: d) (simp_all add: txn_defs audit_def)

lemma ExpireGrants_run:
  "ExpireGrants now d = (let gone = filter (expired_at now) (rules d) in
     (Inr (length gone), d\<lparr>rules := filter (\<lambda>r. \<not> expired_at now r) (rules d),
        audits := audits d @ map (\<lambda>r. \<lparr>au_at = now, au_actor = ''system'', au_action = ''expire'',
          au_detail = rule_detail ''workspace'' (coalesce (ru_ws r)) (rule_of r)\<rparr>) gone\<rparr>))"
  by (simp add: ExpireGrants_def tx_def txn_defs delete_expired_def audit_expired_run Let_def)

interpretation expire_grants: audited_op "ExpireGrants now" "''system''" for now
proof unfold_locales
  fix d :: db and e
  show "fst (ExpireGrants now d) = Inl e \<Longrightarrow> snd (ExpireGrants now d) = d"
    by (simp add: ExpireGrants_run Let_def)
  show "db_ok d \<Longrightarrow> db_ok (snd (ExpireGrants now d))"
    by (simp add: ExpireGrants_run Let_def db_ok_def rules_ok_filter)
  show "has_default d \<Longrightarrow> has_default (snd (ExpireGrants now d))"
    by (simp add: ExpireGrants_run Let_def)
  show "\<exists>new. audits (snd (ExpireGrants now d)) = audits d @ new"
    by (simp add: ExpireGrants_run Let_def)
  assume changed: "snd (ExpireGrants now d) \<noteq> d"
  have "filter (expired_at now) (rules d) \<noteq> []"
  proof
    assume none: "filter (expired_at now) (rules d) = []"
    then have "filter (\<lambda>r. \<not> expired_at now r) (rules d) = rules d"
      by (auto simp: filter_empty_conv intro: filter_True)
    with none changed show False by (simp add: ExpireGrants_run Let_def)
  qed
  then show "\<exists>new. new \<noteq> [] \<and> audits (snd (ExpireGrants now d)) = audits d @ new \<and> list_all (\<lambda>row. au_actor row = ''system'') new"
    by (auto simp: ExpireGrants_run Let_def list_all_iff)
qed

interpretation audit_system: audited_op "AuditSystem now action detail" "''system''" for now action detail
  unfolding AuditSystem_def by (rule audited_op_tx; fast)

end
