(* ===== verification/StoreRequests.thy ===== *)
theory StoreRequests
  imports StoreZones
begin

text \<open>
  Package store, access requests and denials (src/admin/internal/store/requests.go).
  FileRequest and Decide are audited operations; RecordDenial is a store operation that writes
  no audit row. The argument \<open>E\<close> supplies the uuid parser and the collation as in Store.
\<close>

section \<open>Definitions\<close>

record Request =
  req_ID :: string
  req_WorkspaceID :: string
  req_Host :: string
  req_Port :: int
  req_Justification :: string
  req_Requester :: string
  req_Status :: string
  req_DecidedBy :: string
  req_CreatedAt :: time

record Denial =
  den_WorkspaceID :: string
  den_Host :: string
  den_Port :: int
  den_Count :: int
  den_LastSeen :: time

definition select_pending :: "string \<Rightarrow> string \<Rightarrow> int \<Rightarrow> db \<Rightarrow> string option" where
  \<comment> \<open>\<^verbatim>\<open>SELECT id::text FROM requests WHERE workspace_id = $1 AND host = $2 AND port = $3 AND status = 'pending'\<close>\<close>
  "select_pending ws host port d = map_option rq_id (find (\<lambda>q. rq_ws q = ws \<and> rq_host q = host \<and>
     rq_port q = port \<and> rq_status q = ''pending'') (requests d))"

definition insert_request :: "request_row \<Rightarrow> string txn" where
  "insert_request r d =
     (if \<not> request_check r then Inl (PgError ''23514'')
      else if rq_id r \<in> rq_id ` set (requests d) then Inl (PgError ''23505'')
      else Inr (rq_id r, d\<lparr>requests := requests d @ [r]\<rparr>))"

definition new_request :: "string \<Rightarrow> string \<Rightarrow> string \<Rightarrow> int \<Rightarrow> string \<Rightarrow> string \<Rightarrow> time \<Rightarrow> request_row" where
  "new_request i ws host port justification actor now =
     \<lparr>rq_id = i, rq_ws = ws, rq_host = host, rq_port = port, rq_justification = justification, rq_requester = actor,
      rq_status = ''pending'', rq_decided_by = None, rq_ttl = None, rq_created_at = now, rq_decided_at = None\<rparr>"

definition FileRequest :: "pg \<Rightarrow> (nat \<Rightarrow> string) \<Rightarrow> time \<Rightarrow> string \<Rightarrow> string \<Rightarrow> string \<Rightarrow> int \<Rightarrow> string \<Rightarrow>
    db \<Rightarrow> (err + string) \<times> db" where
  "FileRequest E gen now actor wsID host port justification d =
     (if \<not> ValidRule \<lparr>Kind = ''host'', Value = host, Port = port\<rparr> then (Inl ErrInvalid, d)
      else tx (tbind (cast_uuid E wsID) (\<lambda>ws d.
        case select_pending ws host port d of
          Some i \<Rightarrow> Inr (i, d)
        | None \<Rightarrow> tbind (insert_request (new_request (gen 0) ws host port justification actor now)) (\<lambda>i.
            tbind (audit now actor ''request''
              [(''request'', JStr i), (''workspace'', JStr wsID), (''host'', JStr host), (''port'', JNum port)]) (\<lambda>_.
            tret i)) d)) d)"

definition casts :: "pg \<Rightarrow> string list option \<Rightarrow> err + string list option" where
  \<comment> \<open>binding a list to \<^verbatim>\<open>$n::uuid[]\<close>: nil is NULL\<close>
  "casts E ids = (case ids of None \<Rightarrow> Inr None
    | Some is \<Rightarrow> (if \<exists>i \<in> set is. uuid_in E i = None then Inl (PgError ''22P02'')
                  else Inr (Some (map (\<lambda>i. case uuid_in E i of Some u \<Rightarrow> u | None \<Rightarrow> []) is))))"

definition of_workspaces :: "string list option \<Rightarrow> string \<Rightarrow> bool" where
  "of_workspaces ids ws = (case ids of None \<Rightarrow> True | Some is \<Rightarrow> ws \<in> set is)"

definition scan_request :: "request_row \<Rightarrow> Request" where
  "scan_request r = \<lparr>req_ID = rq_id r, req_WorkspaceID = rq_ws r, req_Host = rq_host r, req_Port = rq_port r,
     req_Justification = rq_justification r, req_Requester = rq_requester r, req_Status = rq_status r,
     req_DecidedBy = coalesce (rq_decided_by r), req_CreatedAt = rq_created_at r\<rparr>"

definition Requests :: "pg \<Rightarrow> string \<Rightarrow> string list option \<Rightarrow> db \<Rightarrow> err + Request list" where
  "Requests E status wsIDs d = (case casts E wsIDs of
      Inl e \<Rightarrow> Inl e
    | Inr ids \<Rightarrow> Inr (take 200 (map scan_request (sort_key (\<lambda>r. - rq_created_at r)
        (filter (\<lambda>r. (status = [] \<or> rq_status r = status) \<and> of_workspaces ids (rq_ws r)) (requests d))))))"

definition update_pending :: "string \<Rightarrow> string \<Rightarrow> string \<Rightarrow> int option \<Rightarrow> time \<Rightarrow> request_row txn" where
  \<comment> \<open>\<^verbatim>\<open>UPDATE requests SET ... WHERE id = $5 AND status = 'pending' RETURNING ...\<close>\<close>
  "update_pending i status actor ttl now d =
     (let P = (\<lambda>q. rq_id q = i \<and> rq_status q = ''pending'') in
      case find P (requests d) of
        None \<Rightarrow> Inl ErrNoRows
      | Some r \<Rightarrow> Inr (r, d\<lparr>requests := map (\<lambda>q. if P q
            then q\<lparr>rq_status := status, rq_decided_by := Some actor, rq_decided_at := Some now, rq_ttl := ttl\<rparr> else q) (requests d)\<rparr>))"

definition no_rows_to :: "err \<Rightarrow> 'a txn \<Rightarrow> 'a txn" where
  \<comment> \<open>\<^verbatim>\<open>if err == pgx.ErrNoRows { return e }\<close>\<close>
  "no_rows_to e m d = (case m d of Inl ErrNoRows \<Rightarrow> Inl e | r \<Rightarrow> r)"

definition Decide :: "pg \<Rightarrow> (nat \<Rightarrow> string) \<Rightarrow> time \<Rightarrow> (duration \<Rightarrow> string) \<Rightarrow> string \<Rightarrow> string \<Rightarrow> bool \<Rightarrow> duration \<Rightarrow>
    db \<Rightarrow> (err + unit) \<times> db" where
  "Decide E gen now show_ttl actor i approve ttl = tx (
     tbind (cast_uuid E i) (\<lambda>u.
     tbind (no_rows_to ErrConflict (update_pending u (if approve then ''approved'' else ''denied'') actor
              (if approve then Some (interval_us ttl) else None) now)) (\<lambda>r.
     let extra = [(''request'', JStr i), (''self_approved'', JBool (actor = rq_requester r))] in
     if \<not> approve then audit now actor ''deny'' extra
     else grant_tx E gen now show_ttl actor (rq_ws r) \<lparr>Kind = ''host'', Value = rq_host r, Port = rq_port r\<rparr> ttl extra)))"

definition int4 :: "int \<Rightarrow> bool" where
  "int4 n \<longleftrightarrow> - (2 ^ 31) \<le> n \<and> n < 2 ^ 31"

definition throttle_us :: int where
  "throttle_us = 1000000"

definition denial_cap :: nat where
  "denial_cap = 200"

definition upsert_denial :: "string \<Rightarrow> string \<Rightarrow> int \<Rightarrow> time \<Rightarrow> bool txn" where
  \<comment> \<open>\<^verbatim>\<open>INSERT ... ON CONFLICT DO UPDATE ... WHERE last_seen < now() - interval '1 second' RETURNING (xmax = 0)\<close>;
    no row comes back when the update is throttled\<close>
  "upsert_denial ws host port now d =
     (let key = (ws, host, port) in
      if \<not> int4 port then Inl (ErrOther ''int4 out of range'')
      else case find (\<lambda>r. denial_key r = key) (denials d) of
        None \<Rightarrow> Inr (True, d\<lparr>denials := denials d @ [\<lparr>dn_ws = ws, dn_host = host, dn_port = port, dn_count = 1,
                                dn_first = now, dn_last = now\<rparr>]\<rparr>)
      | Some r \<Rightarrow>
          if \<not> dn_last r < now - throttle_us then Inl ErrNoRows
          else if \<not> int4 (dn_count r + 1) then Inl (PgError ''22003'')
          else Inr (False, d\<lparr>denials := map (\<lambda>r. if denial_key r = key
                  then r\<lparr>dn_count := dn_count r + 1, dn_last := now\<rparr> else r) (denials d)\<rparr>))"

definition beyond_cap :: "pg \<Rightarrow> string \<Rightarrow> denial_row list \<Rightarrow> denial_row list" where
  \<comment> \<open>\<^verbatim>\<open>SELECT host, port FROM denials WHERE workspace_id = $1 ORDER BY last_seen DESC, host OFFSET 200\<close>\<close>
  "beyond_cap E ws ds = drop denial_cap (sort_key (\<lambda>r. (- dn_last r, xfrm E (dn_host r))) (filter (\<lambda>r. dn_ws r = ws) ds))"

definition cap_denials :: "pg \<Rightarrow> string \<Rightarrow> unit txn" where
  "cap_denials E ws d =
     (let old = map (\<lambda>r. (dn_host r, dn_port r)) (beyond_cap E ws (denials d))
      in Inr ((), d\<lparr>denials := filter (\<lambda>r. \<not> (dn_ws r = ws \<and> (dn_host r, dn_port r) \<in> set old)) (denials d)\<rparr>))"

definition RecordDenial :: "pg \<Rightarrow> time \<Rightarrow> string \<Rightarrow> string \<Rightarrow> int \<Rightarrow> db \<Rightarrow> (err + unit) \<times> db" where
  "RecordDenial E now wsID host port = tx (
     tbind (cast_uuid E wsID) (\<lambda>ws d.
       case upsert_denial ws host port now d of
         Inl e \<Rightarrow> (if e = ErrNoRows then Inr ((), d) else Inl e)
       | Inr (inserted, d') \<Rightarrow> (if \<not> inserted then Inr ((), d') else cap_denials E ws d')))"

definition Denials :: "pg \<Rightarrow> string list option \<Rightarrow> db \<Rightarrow> err + Denial list" where
  "Denials E wsIDs d = (case casts E wsIDs of
      Inl e \<Rightarrow> Inl e
    | Inr ids \<Rightarrow> Inr (take 200 (map (\<lambda>r. \<lparr>den_WorkspaceID = dn_ws r, den_Host = dn_host r, den_Port = dn_port r,
          den_Count = dn_count r, den_LastSeen = dn_last r\<rparr>)
        (sort_key (\<lambda>r. - dn_last r) (filter (\<lambda>r. of_workspaces ids (dn_ws r)) (denials d))))))"

section \<open>Each statement keeps the invariant\<close>

lemma insert_request_Inr:
  "insert_request r d = Inr (i, d') \<longleftrightarrow> request_check r \<and> rq_id r \<notin> rq_id ` set (requests d) \<and> i = rq_id r \<and>
     d' = d\<lparr>requests := requests d @ [r]\<rparr>"
  by (auto simp: insert_request_def)

lemma new_request_ok:
  "ValidName host \<Longrightarrow> request_check (new_request i ws host port j actor now) \<Longrightarrow> request_row_ok (new_request i ws host port j actor now)"
  by (simp add: request_row_ok_def new_request_def)

lemma keeps_insert_request [intro]:
  assumes "ValidName host"
  shows "keeps db_ok (insert_request (new_request i ws host port j actor now))"
    "keeps has_default (insert_request (new_request i ws host port j actor now))"
  using new_request_ok [OF assms] by (auto intro!: keepsI simp: insert_request_Inr db_ok_def requests_ok_def)

lemma silent_insert_request [intro]: "silent (insert_request r)"
  by (auto intro!: silentI simp: insert_request_Inr)

lemma update_pending_Inr:
  assumes "update_pending i status actor ttl now d = Inr (r, d')"
  shows "r \<in> set (requests d)" "rq_id r = i" "rq_status r = ''pending''"
    "d' = d\<lparr>requests := map (\<lambda>q. if rq_id q = i \<and> rq_status q = ''pending''
       then q\<lparr>rq_status := status, rq_decided_by := Some actor, rq_decided_at := Some now, rq_ttl := ttl\<rparr> else q) (requests d)\<rparr>"
  using assms by (auto simp: update_pending_def Let_def split: option.splits dest!: find_Some_mem)

lemma keeps_update_pending:
  assumes "status = ''approved'' \<and> ttl \<noteq> None \<or> status = ''denied'' \<and> ttl = None"
  shows "keeps db_ok (update_pending i status actor ttl now)" "keeps has_default (update_pending i status actor ttl now)"
proof -
  let ?f = "\<lambda>q. if rq_id q = i \<and> rq_status q = ''pending''
       then q\<lparr>rq_status := status, rq_decided_by := Some actor, rq_decided_at := Some now, rq_ttl := ttl\<rparr> else q"
  have ids: "map rq_id (map ?f qs) = map rq_id qs" for qs by (induction qs) auto
  have row: "request_row_ok (?f q)" if "request_row_ok q" for q
    using that assms by (auto simp: request_row_ok_def request_check_def)
  have "requests_ok (map ?f qs)" if "requests_ok qs" for qs
    using that row unfolding requests_ok_def ids by (simp only: list_all_iff set_map ball_simps) blast
  then show "keeps db_ok (update_pending i status actor ttl now)"
    by (intro keepsI) (auto dest!: update_pending_Inr(4) simp: db_ok_def)
  show "keeps has_default (update_pending i status actor ttl now)"
    by (intro keepsI) (auto dest!: update_pending_Inr(4))
qed

lemma silent_update_pending [intro]: "silent (update_pending i status actor ttl now)"
  by (intro silentI) (auto dest!: update_pending_Inr(4))

lemma no_rows_to_Inr [simp]: "no_rows_to e m d = Inr r \<longleftrightarrow> m d = Inr r"
  by (auto simp: no_rows_to_def split: sum.splits err.splits)

lemma no_rows_to_laws [intro]:
  "keeps P m \<Longrightarrow> keeps P (no_rows_to e m)" "silent m \<Longrightarrow> silent (no_rows_to e m)"
  by (simp_all add: keeps_def silent_def)

section \<open>The cap on denials\<close>

lemma take_by_key:
  assumes "distinct (map k S)"
  shows "{r \<in> set S. k r \<notin> k ` set (drop n S)} = set (take n S)"
proof -
  have "distinct (map k (take n S @ drop n S))" using assms by simp
  then have "k ` set (take n S) \<inter> k ` set (drop n S) = {}" unfolding map_append distinct_append by simp
  moreover have "set S = set (take n S) \<union> set (drop n S)" by (metis append_take_drop_id set_append)
  ultimately show ?thesis by auto
qed

lemma denial_key_eq: "dn_ws r = dn_ws q \<Longrightarrow> denial_key r = denial_key q \<longleftrightarrow> (dn_host r, dn_port r) = (dn_host q, dn_port q)"
  by (simp add: denial_key_def)

definition by_age :: "pg \<Rightarrow> string \<Rightarrow> denial_row list \<Rightarrow> denial_row list" where
  \<comment> \<open>the rows of a workspace, newest first\<close>
  "by_age E ws ds = sort_key (\<lambda>r. (- dn_last r, xfrm E (dn_host r))) (filter (\<lambda>r. dn_ws r = ws) ds)"

lemma by_age_keys:
  assumes "distinct (map denial_key ds)"
  shows "distinct (map (\<lambda>r. (dn_host r, dn_port r)) (by_age E ws ds))" "set (by_age E ws ds) = {r \<in> set ds. dn_ws r = ws}"
proof -
  show set: "set (by_age E ws ds) = {r \<in> set ds. dn_ws r = ws}" by (auto simp: by_age_def)
  have "distinct ds" and inj: "inj_on denial_key (set ds)" using assms by (auto simp: distinct_map)
  then have "distinct (by_age E ws ds)" by (simp add: by_age_def)
  moreover have "inj_on (\<lambda>r. (dn_host r, dn_port r)) (set (by_age E ws ds))"
    unfolding set using inj by (auto simp: inj_on_def denial_key_def)
  ultimately show "distinct (map (\<lambda>r. (dn_host r, dn_port r)) (by_age E ws ds))" by (simp add: distinct_map)
qed

lemma cap_denials_keeps:
  assumes "distinct (map denial_key (denials d))" "cap_denials E ws d = Inr (u, d')"
  shows "r \<in> set (denials d') \<longleftrightarrow> (if dn_ws r = ws then r \<in> set (take denial_cap (by_age E ws (denials d))) else r \<in> set (denials d))"
    and "d' = d\<lparr>denials := denials d'\<rparr>" and "\<exists>P. denials d' = filter P (denials d)"
proof -
  let ?S = "by_age E ws (denials d)" and ?k = "\<lambda>r. (dn_host r, dn_port r)"
  have d': "d' = d\<lparr>denials := filter (\<lambda>r. \<not> (dn_ws r = ws \<and> ?k r \<in> ?k ` set (drop denial_cap ?S))) (denials d)\<rparr>"
    using assms(2) by (simp add: cap_denials_def beyond_cap_def by_age_def)
  then show "d' = d\<lparr>denials := denials d'\<rparr>" "\<exists>P. denials d' = filter P (denials d)" by auto
  show "r \<in> set (denials d') \<longleftrightarrow> (if dn_ws r = ws then r \<in> set (take denial_cap ?S) else r \<in> set (denials d))"
    using take_by_key [OF by_age_keys(1) [OF assms(1)], of E ws denial_cap, symmetric] by_age_keys(2) [OF assms(1), of E ws] by (auto simp: d')
qed

lemma denials_ok_capped:
  assumes "distinct (map denial_key (denials d))" "cap_denials E ws d = Inr (u, d')"
    "\<And>q. q \<in> set (denials d) \<Longrightarrow> dn_ws q \<noteq> ws \<Longrightarrow> length (filter (\<lambda>r. dn_ws r = dn_ws q) (denials d)) \<le> 200"
  shows "denials_ok (denials d')"
proof -
  obtain P where P: "denials d' = filter P (denials d)" using cap_denials_keeps(3) [OF assms(1,2)] by blast
  then have dist: "distinct (map denial_key (denials d'))" using assms(1) by (simp add: distinct_map_filter)
  have "length (filter (\<lambda>r. dn_ws r = ws) (denials d')) = card (set (filter (\<lambda>r. dn_ws r = ws) (denials d')))"
    using dist by (simp add: distinct_card distinct_map distinct_filter del: set_filter)
  also have "\<dots> \<le> card (set (take denial_cap (by_age E ws (denials d))))"
    by (rule card_mono) (auto simp: cap_denials_keeps(1) [OF assms(1,2)])
  also have "\<dots> \<le> 200" using card_length [of "take denial_cap (by_age E ws (denials d))"] by (simp add: denial_cap_def)
  finally have "length (filter (\<lambda>r. dn_ws r = ws) (denials d')) \<le> 200" .
  moreover have "length (filter (\<lambda>r. dn_ws r = dn_ws q) (denials d')) \<le> 200" if "q \<in> set (denials d')" "dn_ws q \<noteq> ws" for q
  proof -
    have "length (filter f (filter P ds)) \<le> length (filter f ds)" for f ds by (induction ds) auto
    then have "length (filter (\<lambda>r. dn_ws r = dn_ws q) (denials d')) \<le> length (filter (\<lambda>r. dn_ws r = dn_ws q) (denials d))"
      unfolding P .
    with assms(3) [of q] that P show ?thesis by simp
  qed
  ultimately show ?thesis using dist by (auto simp: denials_ok_def)
qed

lemma denials_ok_ws: "denials_ok ds \<Longrightarrow> length (filter (\<lambda>r. dn_ws r = ws) ds) \<le> 200"
  by (cases "\<exists>q \<in> set ds. dn_ws q = ws") (auto simp: denials_ok_def filter_empty_conv)

lemma upsert_denial_new:
  assumes "denials_ok (denials d)" "upsert_denial ws host port now d = Inr (True, d')"
  shows "(ws, host, port) \<notin> denial_key ` set (denials d)"
    "d' = d\<lparr>denials := denials d @ [\<lparr>dn_ws = ws, dn_host = host, dn_port = port, dn_count = 1, dn_first = now, dn_last = now\<rparr>]\<rparr>"
    "distinct (map denial_key (denials d'))"
    "\<And>w. w \<noteq> ws \<Longrightarrow> filter (\<lambda>r. dn_ws r = w) (denials d') = filter (\<lambda>r. dn_ws r = w) (denials d)"
proof -
  show new: "(ws, host, port) \<notin> denial_key ` set (denials d)" and
    d': "d' = d\<lparr>denials := denials d @ [\<lparr>dn_ws = ws, dn_host = host, dn_port = port, dn_count = 1, dn_first = now, dn_last = now\<rparr>]\<rparr>"
    using assms(2) by (auto simp: upsert_denial_def Let_def find_None_iff image_iff split: if_splits option.splits)
  show "distinct (map denial_key (denials d'))"
    using new assms(1) by (auto simp: d' denials_ok_def denial_key_def)
  show "filter (\<lambda>r. dn_ws r = w) (denials d') = filter (\<lambda>r. dn_ws r = w) (denials d)" if "w \<noteq> ws" for w
    using that by (simp add: d')
qed

lemma upsert_denial_bump:
  assumes "upsert_denial ws host port now d = Inr (False, d')"
  shows "d' = d\<lparr>denials := map (\<lambda>r. if denial_key r = (ws, host, port)
    then r\<lparr>dn_count := dn_count r + 1, dn_last := now\<rparr> else r) (denials d)\<rparr>"
  using assms by (auto simp: upsert_denial_def Let_def split: if_splits option.splits)

lemma denials_ok_bump:
  assumes "denials_ok ds"
  shows "denials_ok (map (\<lambda>r. if P r then r\<lparr>dn_count := c r, dn_last := now\<rparr> else r) ds)"
proof -
  let ?f = "\<lambda>r. if P r then r\<lparr>dn_count := c r, dn_last := now\<rparr> else r"
  have "map denial_key (map ?f ds) = map denial_key ds" by (induction ds) (auto simp: denial_key_def)
  moreover have "length (filter (\<lambda>r. dn_ws r = w) (map ?f ds)) = length (filter (\<lambda>r. dn_ws r = w) ds)" for w
    by (induction ds) auto
  ultimately show ?thesis using assms denials_ok_ws [OF assms] by (simp add: denials_ok_def del: map_map)
qed

definition denial_body :: "pg \<Rightarrow> time \<Rightarrow> string \<Rightarrow> int \<Rightarrow> string \<Rightarrow> unit txn" where
  "denial_body E now host port ws d = (case upsert_denial ws host port now d of
         Inl e \<Rightarrow> (if e = ErrNoRows then Inr ((), d) else Inl e)
       | Inr (inserted, d') \<Rightarrow> (if \<not> inserted then Inr ((), d') else cap_denials E ws d'))"

lemma denial_body_cases:
  assumes "denial_body E now host port ws d = Inr (u, d')"
  obtains "d' = d" "upsert_denial ws host port now d = Inl ErrNoRows"
    | "upsert_denial ws host port now d = Inr (False, d')"
    | e where "upsert_denial ws host port now d = Inr (True, e)" "cap_denials E ws e = Inr (u, d')"
  using assms by (auto simp: denial_body_def split: sum.splits if_splits)

lemma denial_body_ok:
  assumes "denial_body E now host port ws d = Inr (u, d')" "denials_ok (denials d)"
  shows "denials_ok (denials d') \<and> d' = d\<lparr>denials := denials d'\<rparr>"
  using assms(1)
proof (cases rule: denial_body_cases)
  case 2
  then show ?thesis using upsert_denial_bump [OF 2] denials_ok_bump [OF assms(2)] by simp
next
  case (3 e)
  note new = upsert_denial_new [OF assms(2) 3(1)]
  have "denials_ok (denials d')"
    using denials_ok_ws [OF assms(2)] new(4) by (intro denials_ok_capped [OF new(3) 3(2)]) simp
  with cap_denials_keeps(2) [OF new(3) 3(2)] new(2) show ?thesis by (metis db.surjective db.update_convs(5))
qed (use assms in simp)

lemma denial_body_laws [intro]:
  "keeps db_ok (denial_body E now host port ws)" "keeps (\<lambda>d. db_ok d \<and> has_default d) (denial_body E now host port ws)"
proof -
  have "db_ok d' \<and> (has_default d \<longrightarrow> has_default d')" if "db_ok d" "denial_body E now host port ws d = Inr (u, d')" for d u d'
  proof -
    have "denials_ok (denials d')" "d' = d\<lparr>denials := denials d'\<rparr>"
      using denial_body_ok [OF that(2)] that(1) by (simp_all add: db_ok_def)
    then show ?thesis using that(1) by (metis (no_types, lifting) db.select_convs db.surjective db.update_convs(5) db_ok_def has_default_frame(5))
  qed
  then show "keeps db_ok (denial_body E now host port ws)" "keeps (\<lambda>d. db_ok d \<and> has_default d) (denial_body E now host port ws)"
    unfolding keeps_def by blast+
qed

lemma silent_denial_body [intro]: "silent (denial_body E now host port ws)"
  by (auto intro!: silentI elim!: denial_body_cases simp: upsert_denial_def cap_denials_def Let_def split: if_splits option.splits)

section \<open>The operations\<close>

lemma RecordDenial_body: "RecordDenial E now wsID host port = tx (tbind (cast_uuid E wsID) (denial_body E now host port))"
  by (simp add: RecordDenial_def denial_body_def [abs_def])

interpretation record_denial: store_op "RecordDenial E now wsID host port" for E now wsID host port
  unfolding RecordDenial_body by (rule store_op_tx; fast intro: silent_logs)

definition request_body :: "(nat \<Rightarrow> string) \<Rightarrow> time \<Rightarrow> string \<Rightarrow> string \<Rightarrow> string \<Rightarrow> int \<Rightarrow> string \<Rightarrow> string \<Rightarrow> string txn" where
  "request_body gen now actor wsID host port justification ws d =
     (case select_pending ws host port d of
        Some i \<Rightarrow> Inr (i, d)
      | None \<Rightarrow> tbind (insert_request (new_request (gen 0) ws host port justification actor now)) (\<lambda>i.
          tbind (audit now actor ''request''
            [(''request'', JStr i), (''workspace'', JStr wsID), (''host'', JStr host), (''port'', JNum port)]) (\<lambda>_.
          tret i)) d)"

lemma FileRequest_body:
  "FileRequest E gen now actor wsID host port justification =
     tx (if \<not> ValidRule \<lparr>Kind = ''host'', Value = host, Port = port\<rparr> then tfail ErrInvalid
         else tbind (cast_uuid E wsID) (request_body gen now actor wsID host port justification))"
  by (rule ext) (simp add: FileRequest_def request_body_def [abs_def] tx_def tfail_def mapErr_def)

lemma request_body_cases:
  assumes "request_body gen now actor wsID host port j ws d = Inr (i, d')"
  obtains "d' = d" "select_pending ws host port d = Some i"
    | e where "select_pending ws host port d = None" "insert_request (new_request (gen 0) ws host port j actor now) d = Inr (i, e)"
      "d' = e\<lparr>audits := audits d @ [\<lparr>au_at = now, au_actor = actor, au_action = ''request'', au_detail =
          [(''request'', JStr i), (''workspace'', JStr wsID), (''host'', JStr host), (''port'', JNum port)]\<rparr>]\<rparr>"
  using assms by (auto simp: request_body_def txn_Inr insert_request_Inr split: option.splits)

lemma request_body_laws [intro]:
  assumes "ValidName host"
  shows "keeps db_ok (request_body gen now actor wsID host port j ws)"
    "keeps has_default (request_body gen now actor wsID host port j ws)"
proof -
  have 1: "db_ok d'" if "request_body gen now actor wsID host port j ws d = Inr (i, d')" "db_ok d" for d i d'
    using that(1)
  proof (cases rule: request_body_cases)
    case (2 e)
    then show ?thesis
      using keepsD [OF keeps_insert_request(1) [OF assms] that(2) 2(2)] by simp
  qed (use that in simp)
  have 2: "has_default d'" if "request_body gen now actor wsID host port j ws d = Inr (i, d')" "has_default d" for d i d'
    using that(1)
  proof (cases rule: request_body_cases)
    case (2 e)
    then show ?thesis
      using keepsD [OF keeps_insert_request(2) [OF assms] that(2) 2(2)] by simp
  qed (use that in simp)
  show "keeps db_ok (request_body gen now actor wsID host port j ws)" "keeps has_default (request_body gen now actor wsID host port j ws)"
    using 1 2 unfolding keeps_def by blast+
qed

interpretation file_request: audited_op "FileRequest E gen now actor wsID host port j" actor for E gen now actor wsID host port j
proof (intro audited_op.intro audited_op_axioms.intro)
  let ?fn = "if \<not> ValidRule \<lparr>Kind = ''host'', Value = host, Port = port\<rparr> then tfail ErrInvalid
         else tbind (cast_uuid E wsID) (request_body gen now actor wsID host port j)"
  have valid: "ValidRule \<lparr>Kind = ''host'', Value = host, Port = port\<rparr> \<Longrightarrow> ValidName host" by (simp add: ValidRule_def)
  have body: "d' = d \<or> (\<exists>row. au_actor row = actor \<and> audits d' = audits d @ [row])"
    if "request_body gen now actor wsID host port j ws d = Inr (i, d')" for ws d i d'
    using that by (cases rule: request_body_cases) auto
  have fn: "d' = d \<or> (\<exists>row. au_actor row = actor \<and> audits d' = audits d @ [row])" if "?fn d = Inr (i, d')" for d i d'
    using that by (auto simp: txn_Inr split: if_splits dest!: body)
  have "keeps db_ok ?fn" "keeps has_default ?fn"
    using valid by (cases "ValidRule \<lparr>Kind = ''host'', Value = host, Port = port\<rparr>"; simp; fast)+
  moreover have "logs ?fn" unfolding logs_def using fn by fastforce
  ultimately show "store_op (FileRequest E gen now actor wsID host port j)"
    unfolding FileRequest_body by (intro store_op_tx keeps_both)
  show "\<exists>new. new \<noteq> [] \<and> audits (snd (FileRequest E gen now actor wsID host port j d)) = audits d @ new \<and>
      list_all (\<lambda>row. au_actor row = actor) new" if changed: "snd (FileRequest E gen now actor wsID host port j d) \<noteq> d" for d
  proof -
    obtain i d' where d': "?fn d = Inr (i, d')" "snd (FileRequest E gen now actor wsID host port j d) = d'"
      using tx_changed [of ?fn d] changed unfolding FileRequest_body by blast
    then obtain row where "au_actor row = actor" "audits d' = audits d @ [row]" using fn changed by metis
    then show ?thesis unfolding d' by (intro exI [of _ "[row]"]) simp
  qed
qed

lemma decide_laws:
  "keeps db_ok (let extra = x in if b then audit now actor ''deny'' extra else grant_tx E gen now sh actor ws r ttl extra)"
  "keeps has_default (let extra = x in if b then audit now actor ''deny'' extra else grant_tx E gen now sh actor ws r ttl extra)"
  "signs actor (let extra = x in if b then audit now actor ''deny'' extra else grant_tx E gen now sh actor ws r ttl extra)"
  "keeps db_ok (update_pending u (if c then ''approved'' else ''denied'') actor (if c then Some t else None) now)"
  "keeps has_default (update_pending u (if c then ''approved'' else ''denied'') actor (if c then Some t else None) now)"
  unfolding Let_def by (fast, fast, fast) (simp_all add: keeps_update_pending)

interpretation decide: audited_op "Decide E gen now sh actor i approve ttl" actor for E gen now sh actor i approve ttl
  unfolding Decide_def by (rule audited_op_tx; (rule keeps_both)?; fast intro: decide_laws)

end
