(* ===== verification/ZonePolicy.thy ===== *)
theory ZonePolicy
  imports StoreZones
begin

text \<open>
  What the operations of zones.go do to the policy. \<open>policy_of\<close> is the abstract view of the
  tables: the rules in force for a workspace at a time. \<open>Effective\<close> over \<open>PolicyInput\<close> computes
  it (\<open>Effective_policy_of\<close>), and every operation acts on it in one line: deleting or renaming
  a zone and expiring grants leave it alone, a grant adds one rule for one workspace, a move
  exchanges the rules of one zone for those of another.
\<close>

definition rows_of :: "db \<Rightarrow> time \<Rightarrow> string \<Rightarrow> rule_row list" where
  \<comment> \<open>the rows in force for a workspace\<close>
  "rows_of d now ws = filter (\<lambda>row. live now row \<and> (ru_ws row = Some ws \<or> ru_zone row = zone_in d ws)) (rules d)"

definition policy_of :: "db \<Rightarrow> time \<Rightarrow> string \<Rightarrow> string \<Rightarrow> Rule set" where
  "policy_of d now ws kind = rule_of ` set (filter (\<lambda>row. ru_kind row = kind) (rows_of d now ws))"

definition ids_ok :: "db \<Rightarrow> bool" where
  \<comment> \<open>the text of a uuid is not empty\<close>
  "ids_ok d \<longleftrightarrow> list_all (\<lambda>z. z_id z \<noteq> []) (zones d)"

definition assigned :: "db \<Rightarrow> (string \<times> string) set" where
  "assigned d = (\<lambda>a. (as_ws a, as_zone a)) ` set (assignments d)"

section \<open>Results of the operations\<close>

lemma DeleteZone_Inr:
  assumes "DeleteZone E now actor i d = (Inr u, d')"
  obtains v z where "uuid_in E i = Some v" "z \<in> set (zones d)" "z_id z = v" "\<not> z_is_default z"
    "\<forall>a \<in> set (assignments d). as_zone a \<noteq> v"
    "zones d' = filter (\<lambda>z. z_id z \<noteq> v) (zones d)" "rules d' = filter (\<lambda>r. ru_zone r \<noteq> Some v) (rules d)"
    "assignments d' = assignments d"
  using assms by (auto simp: DeleteZone_def tx_Inr txn_Inr delete_zone_def split: if_splits dest!: select_deletable_Inr)

lemma SetDefaultZone_Inr:
  assumes "SetDefaultZone E now actor i d = (Inr u, d')"
  obtains v where "uuid_in E i = Some v" "v \<in> z_id ` set (zones d)" "zones d' = chosen v (zones d)" "rules d' = rules d"
    "assignments d' = filter (\<lambda>a. as_zone a \<noteq> v) (assignments d)"
  using assms by (auto simp: SetDefaultZone_def tx_Inr txn_Inr set_default_chosen one_def delete_assignments_def
      filter_empty_conv split: if_splits)

lemma AssignZone_Inr:
  assumes "AssignZone E now actor wsID zoneID d = (Inr u, d')"
  obtains z ws where "uuid_in E zoneID = Some (z_id z)" "uuid_in E wsID = Some ws" "z \<in> set (zones d)"
    "find (\<lambda>y. z_id y = z_id z) (zones d) = Some z" "zones d' = zones d" "rules d' = rules d"
    "assignments d' = (if z_is_default z then filter (\<lambda>a. as_ws a \<noteq> ws) (assignments d)
       else if ws \<in> as_ws ` set (assignments d)
       then map (\<lambda>a. if as_ws a = ws then a\<lparr>as_zone := z_id z, as_by := actor, as_at := now\<rparr> else a) (assignments d)
       else assignments d @ [\<lparr>as_ws = ws, as_zone = z_id z, as_by = actor, as_at = now\<rparr>])"
proof -
  obtain v def d1 ws e where v: "uuid_in E zoneID = Some v" "uuid_in E wsID = Some ws"
    and sel: "select_is_default v d = Inr (def, d1)"
    and e: "(if def then delete_assignments (\<lambda>a. as_ws a = ws) else upsert_assignment ws v actor now) d1 = Inr ((), e)"
    and d': "zones d' = zones e" "rules d' = rules e" "assignments d' = assignments e"
    using assms unfolding AssignZone_def tx_Inr txn_Inr by force
  obtain z where z: "find (\<lambda>y. z_id y = v) (zones d) = Some z" and [simp]: "def = z_is_default z" "d1 = d"
    using sel by (auto simp: select_is_default_def split: option.splits)
  have "z \<in> set (zones d)" "z_id z = v" using z by (auto dest: find_Some_mem)
  with v z e d' show ?thesis
    by (intro that [of z ws]) (auto simp: delete_assignments_def upsert_assignment_def split: if_splits)
qed

lemma Grant_Inr:
  assumes "Grant E gen now sh actor wsID r ttl d = (Inr u, d')"
  obtains ws row where "uuid_in E wsID = Some ws" "ValidRule r" "0 < ttl" "zones d' = zones d" "assignments d' = assignments d"
    "rules d' = rules d @ [row]" "rule_of row = r" "ru_zone row = None" "ru_ws row = Some ws"
    "ru_expires row = Some (now + interval_us ttl)"
proof -
  let ?row = "\<lambda>ws. \<lparr>ru_id = gen 0, ru_zone = None, ru_ws = Some ws, ru_kind = Kind r, ru_value = Value r,
                    ru_port = Port r, ru_expires = Some (now + interval_us ttl), ru_created_by = actor, ru_created_at = now\<rparr>"
  obtain ws where "uuid_in E wsID = Some ws" "ValidRule r" "0 < ttl" "zones d' = zones d" "assignments d' = assignments d"
    "rules d' = rules d @ [?row ws]"
    using assms by (auto simp: Grant_def tx_Inr grant_tx_def txn_Inr insert_rule_Inr split: if_splits)
  then show ?thesis by (intro that [of ws "?row ws"]) (simp_all add: rule_of_def)
qed

section \<open>The zone of a workspace\<close>

lemma find_Some_distinct:
  assumes "distinct (map f xs)"
  shows "find (\<lambda>x. f x = k) xs = Some x \<longleftrightarrow> x \<in> set xs \<and> f x = k"
proof
  assume x: "x \<in> set xs \<and> f x = k"
  then obtain y where y: "find (\<lambda>x. f x = k) xs = Some y" by (cases "find (\<lambda>x. f x = k) xs") (auto simp: find_None_iff)
  with x assms have "y = x" by (auto simp: distinct_map dest!: find_Some_mem inj_onD)
  with y show "find (\<lambda>x. f x = k) xs = Some x" by simp
qed (auto dest: find_Some_mem)

lemma zone_in_default:
  assumes "has_default d"
  shows "map_option z_id (find z_is_default (zones d)) = Some z \<longleftrightarrow> (\<exists>x \<in> set (zones d). z_is_default x \<and> z_id x = z)"
proof -
  obtain y where y: "filter z_is_default (zones d) = [y]"
    using assms by (auto simp: has_default_def length_Suc_conv)
  then have "set (filter z_is_default (zones d)) = {y}" by simp
  then have "x \<in> set (zones d) \<and> z_is_default x \<longleftrightarrow> x = y" for x by auto
  then have "(\<exists>x \<in> set (zones d). z_is_default x \<and> z_id x = z) \<longleftrightarrow> z_id y = z" by (metis (no_types, lifting))
  then show ?thesis using y by (simp add: find_filter)
qed

lemma zone_in_iff:
  assumes "db_ok d" "has_default d"
  shows "zone_in d ws = Some z \<longleftrightarrow> (ws, z) \<in> assigned d \<or>
    (\<forall>y. (ws, y) \<notin> assigned d) \<and> (\<exists>x \<in> set (zones d). z_is_default x \<and> z_id x = z)"
proof (cases "find (\<lambda>a. as_ws a = ws) (assignments d)")
  case None
  then have "(ws, y) \<notin> assigned d" for y by (auto simp: find_None_iff assigned_def)
  with None show ?thesis using zone_in_default [OF assms(2)] by (auto simp: zone_in_def)
next
  case (Some a)
  have "distinct (map as_ws (assignments d))" using assms(1) by (simp add: db_ok_def assignments_ok_def)
  then have a: "b \<in> set (assignments d) \<and> as_ws b = ws \<longleftrightarrow> b = a" for b
    using find_Some_distinct [of as_ws "assignments d" ws b] Some by (auto simp del: find_Some_iff)
  then have "(ws, y) \<in> assigned d \<longleftrightarrow> as_zone a = y" for y unfolding assigned_def image_iff by (metis prod.inject)
  with Some show ?thesis by (auto simp: zone_in_def)
qed

lemma zone_in_total: "has_default d \<Longrightarrow> \<exists>z. zone_in d ws = Some z"
  by (auto simp: zone_in_def has_default_def length_Suc_conv find_filter split: option.splits)

section \<open>The policy and the code that computes it\<close>

lemma Effective_policy_of:
  assumes "db_ok d" "has_default d" "ids_ok d" "ws \<noteq> []"
  shows "set (Effective (PolicyInput E now d d d) ws kind) = policy_of d now ws kind"
proof -
  have "[] \<notin> z_id ` set (zones d)" using assms(3) by (auto simp: ids_ok_def list_all_iff)
  from Effective_PolicyInput [OF assms(1,2) this assms(4)] show ?thesis
    by (auto simp: policy_of_def rows_of_def)
qed

lemma policy_of_cong: "rows_of d t ws = rows_of d' t ws \<Longrightarrow> policy_of d t ws k = policy_of d' t ws k"
  by (simp add: policy_of_def)

lemma zone_in_cong: "zones d = zones d' \<Longrightarrow> assignments d = assignments d' \<Longrightarrow> zone_in d = zone_in d'"
  by (auto simp: zone_in_def fun_eq_iff split: option.splits)

lemma success_keeps:
  "audited_op op actor \<Longrightarrow> op d = (Inr a, d') \<Longrightarrow> db_ok d \<Longrightarrow> has_default d \<Longrightarrow> db_ok d' \<and> has_default d'"
  by (metis audited_op.axioms(1) snd_conv store_op.keeps_db_ok store_op.keeps_default)

section \<open>Effects on the zone of a workspace\<close>

lemma zone_in_DeleteZone:
  assumes "db_ok d" "has_default d" "DeleteZone E now actor i d = (Inr u, d')"
  shows "zone_in d' ws = zone_in d ws" and "rows_of d' t ws = rows_of d t ws"
proof -
  obtain v z where z: "z \<in> set (zones d)" "z_id z = v" "\<not> z_is_default z" and free: "\<forall>a \<in> set (assignments d). as_zone a \<noteq> v"
    and d': "zones d' = filter (\<lambda>z. z_id z \<noteq> v) (zones d)" "rules d' = filter (\<lambda>r. ru_zone r \<noteq> Some v) (rules d)"
      "assignments d' = assignments d"
    by (rule DeleteZone_Inr [OF assms(3)]) blast
  have ok': "db_ok d'" "has_default d'" using success_keeps [OF delete_zone.audited_op_axioms assms(3,1,2)] by simp_all
  have "inj_on z_id (set (zones d))" using assms(1) by (simp add: db_ok_def zones_ok_def distinct_map)
  then have def: "x \<in> set (zones d) \<Longrightarrow> z_is_default x \<Longrightarrow> z_id x \<noteq> v" for x using z by (auto dest: inj_onD)
  have iff: "zone_in d' ws = Some y \<longleftrightarrow> zone_in d ws = Some y" for y
    unfolding zone_in_iff [OF ok'] zone_in_iff [OF assms(1,2)] using d' def by (auto simp: assigned_def)
  then show eq: "zone_in d' ws = zone_in d ws" using zone_in_total [OF assms(2)] by metis
  have "zone_in d ws \<noteq> Some v" unfolding zone_in_iff [OF assms(1,2)] using free def by (auto simp: assigned_def)
  then have "live t r \<and> (ru_ws r = Some ws \<or> ru_zone r = zone_in d ws) \<and> ru_zone r \<noteq> Some v \<longleftrightarrow>
      live t r \<and> (ru_ws r = Some ws \<or> ru_zone r = zone_in d ws)" if "r \<in> set (rules d)" for r
    using db_ok_row [OF assms(1) that] by (auto simp: rule_row_ok_def)
  then show "rows_of d' t ws = rows_of d t ws" unfolding rows_of_def eq d'(2) by (auto intro!: filter_cong)
qed

lemma zone_in_SetDefaultZone:
  assumes "db_ok d" "has_default d" "SetDefaultZone E now actor i d = (Inr u, d')"
  obtains v where "uuid_in E i = Some v"
    "zone_in d' ws = (if \<exists>a \<in> set (assignments d). as_ws a = ws \<and> as_zone a \<noteq> v then zone_in d ws else Some v)"
proof -
  obtain v where v: "uuid_in E i = Some v" "v \<in> z_id ` set (zones d)" "zones d' = chosen v (zones d)"
    "assignments d' = filter (\<lambda>a. as_zone a \<noteq> v) (assignments d)"
    by (rule SetDefaultZone_Inr [OF assms(3)]) blast
  have ok': "db_ok d'" "has_default d'" using success_keeps [OF set_default_zone.audited_op_axioms assms(3,1,2)] by simp_all
  have chosen: "(\<exists>x \<in> set (chosen v (zones d)). z_is_default x \<and> z_id x = z) \<longleftrightarrow> z = v" for z
    using v(2) by (auto simp: chosen_def)
  have dist: "distinct (map as_ws (assignments d))" using assms(1) by (simp add: db_ok_def assignments_ok_def)
  have "zone_in d' ws = (if \<exists>a \<in> set (assignments d). as_ws a = ws \<and> as_zone a \<noteq> v then zone_in d ws else Some v)"
  proof (cases "\<exists>a \<in> set (assignments d). as_ws a = ws \<and> as_zone a \<noteq> v")
    case True
    then obtain a where a: "a \<in> set (assignments d)" "as_ws a = ws" "as_zone a \<noteq> v" by blast
    then have "zone_in d' ws = Some (as_zone a)" unfolding zone_in_iff [OF ok'] assigned_def v(3,4) by auto
    moreover have "zone_in d ws = Some (as_zone a)" unfolding zone_in_iff [OF assms(1,2)] assigned_def using a by auto
    ultimately show ?thesis using True by simp
  next
    case False
    then have "zone_in d' ws = Some v" unfolding zone_in_iff [OF ok'] assigned_def v(3,4) chosen by auto
    then show ?thesis by (simp add: False)
  qed
  with v(1) show ?thesis by (rule that)
qed

lemma pairs_drop:
  "(w, y) \<in> (\<lambda>a. (as_ws a, as_zone a)) ` set (filter (\<lambda>a. as_ws a \<noteq> ws) as) \<longleftrightarrow>
     w \<noteq> ws \<and> (w, y) \<in> (\<lambda>a. (as_ws a, as_zone a)) ` set as"
  by auto

lemma pairs_move:
  "(w, y) \<in> (\<lambda>a. (as_ws a, as_zone a)) ` set (map (\<lambda>a. if as_ws a = ws then a\<lparr>as_zone := z, as_by := b, as_at := t\<rparr> else a) as) \<longleftrightarrow>
     (if w = ws then y = z \<and> ws \<in> as_ws ` set as else (w, y) \<in> (\<lambda>a. (as_ws a, as_zone a)) ` set as)"
  by (induction as) (auto simp del: set_map)

lemma zone_in_AssignZone:
  assumes "db_ok d" "has_default d" "AssignZone E now actor wsID zoneID d = (Inr u, d')"
  obtains z ws where "uuid_in E zoneID = Some z" "uuid_in E wsID = Some ws" "rules d' = rules d" "zones d' = zones d"
    "zone_in d' ws = Some z" "\<And>w. w \<noteq> ws \<Longrightarrow> zone_in d' w = zone_in d w"
proof -
  from assms(3) obtain z ws where z: "uuid_in E zoneID = Some (z_id z)" "uuid_in E wsID = Some ws" "z \<in> set (zones d)"
    and d': "zones d' = zones d" "rules d' = rules d"
    "assignments d' = (if z_is_default z then filter (\<lambda>a. as_ws a \<noteq> ws) (assignments d)
       else if ws \<in> as_ws ` set (assignments d)
       then map (\<lambda>a. if as_ws a = ws then a\<lparr>as_zone := z_id z, as_by := actor, as_at := now\<rparr> else a) (assignments d)
       else assignments d @ [\<lparr>as_ws = ws, as_zone = z_id z, as_by = actor, as_at = now\<rparr>])"
    by (rule AssignZone_Inr) blast
  have ok': "db_ok d'" "has_default d'" using success_keeps [OF assign_zone.audited_op_axioms assms(3,1,2)] by simp_all
  have pairs: "(w, y) \<in> assigned d' \<longleftrightarrow> (if w = ws then \<not> z_is_default z \<and> y = z_id z else (w, y) \<in> assigned d)" for w y
  proof (cases "z_is_default z")
    case False
    then show ?thesis
      by (cases "ws \<in> as_ws ` set (assignments d)") (simp_all only: assigned_def d'(3) pairs_move if_False if_True, auto)
  qed (simp add: assigned_def d'(3) pairs_drop del: set_filter)
  have "zone_in d' ws = Some (z_id z)"
    unfolding zone_in_iff [OF ok'] pairs d'(1) using z(3) by auto
  moreover have "zone_in d' w = Some y \<longleftrightarrow> zone_in d w = Some y" if "w \<noteq> ws" for w y
    unfolding zone_in_iff [OF ok'] zone_in_iff [OF assms(1,2)] pairs d'(1) using that by auto
  then have "zone_in d' w = zone_in d w" if "w \<noteq> ws" for w using that zone_in_total [OF assms(2)] by metis
  ultimately show ?thesis using z d' by (intro that)
qed

section \<open>Effects on the rules in force\<close>

lemma rows_of_Grant:
  assumes "has_default d" "Grant E gen now sh actor wsID r ttl d = (Inr u, d')"
  obtains ws where "uuid_in E wsID = Some ws" "zones d' = zones d"
    "\<And>t w k. policy_of d' t w k = policy_of d t w k \<union> (if w = ws \<and> Kind r = k \<and> t < now + interval_us ttl then {r} else {})"
proof -
  obtain ws row where g: "uuid_in E wsID = Some ws" "zones d' = zones d" "assignments d' = assignments d"
    "rules d' = rules d @ [row]" "rule_of row = r" "ru_zone row = None" "ru_ws row = Some ws"
    "ru_expires row = Some (now + interval_us ttl)"
    by (rule Grant_Inr [OF assms(2)]) blast
  have zi: "zone_in d' = zone_in d" using g(2,3) by (intro zone_in_cong)
  have "Kind r = ru_kind row" using g(5) by (auto simp: rule_of_def)
  moreover have "None \<noteq> zone_in d w" for w using zone_in_total [OF assms(1), of w] by auto
  ultimately have "policy_of d' t w k = policy_of d t w k \<union> (if w = ws \<and> Kind r = k \<and> t < now + interval_us ttl then {r} else {})" for t w k
    using g(4-8) by (auto simp: policy_of_def rows_of_def live_def zi)
  with g(1,2) show ?thesis by (rule that)
qed

lemma rows_of_ExpireGrants:
  assumes "db_ok d" "now \<le> t"
  shows "rows_of (snd (ExpireGrants now d)) t ws = rows_of d t ws"
proof -
  have zi: "zone_in (snd (ExpireGrants now d)) = zone_in d" by (rule zone_in_cong) (simp_all add: ExpireGrants_run Let_def)
  have "live t r \<Longrightarrow> \<not> expired_at now r" for r using assms(2) by (auto simp: live_def expired_at_def split: option.splits)
  then show ?thesis unfolding rows_of_def zi by (auto simp: ExpireGrants_run Let_def intro!: filter_cong)
qed

lemma fold_add_zone_cong:
  "map (\<lambda>z. (z_id z, z_is_default z)) zs = map (\<lambda>z. (z_id z, z_is_default z)) zs' \<Longrightarrow> fold add_zone zs inp = fold add_zone zs' inp"
proof (induction zs arbitrary: zs' inp)
  case (Cons z zs)
  then obtain z' zs'' where "zs' = z' # zs''" "z_id z' = z_id z" "z_is_default z' = z_is_default z"
    by (cases zs') auto
  moreover from this have "add_zone z' = add_zone z" by (simp add: add_zone_def Let_def fun_eq_iff)
  ultimately show ?case using Cons by simp
qed simp

lemma PolicyInput_RenameZone:
  "PolicyInput E t (snd (RenameZone E' now actor i name d)) (snd (RenameZone E' now actor i name d))
     (snd (RenameZone E' now actor i name d)) = PolicyInput E t d d d"
proof -
  have "map (\<lambda>z. (z_id z, z_is_default z)) (map (\<lambda>z. if z_id z = u then z\<lparr>z_name := name\<rparr> else z) zs) =
     map (\<lambda>z. (z_id z, z_is_default z)) zs" for u zs by (induction zs) auto
  then have "map (\<lambda>z. (z_id z, z_is_default z)) (zones d') = map (\<lambda>z. (z_id z, z_is_default z)) (zones d) \<and>
      rules d' = rules d \<and> assignments d' = assignments d" if "RenameZone E' now actor i name d = (Inr (), d')" for d'
    using that by (auto simp: RenameZone_def tx_Inr txn_Inr update_zone_name_def one_def simp del: map_map split: if_splits)
  moreover obtain r d' where rd: "RenameZone E' now actor i name d = (r, d')" by (cases "RenameZone E' now actor i name d")
  ultimately have "map (\<lambda>z. (z_id z, z_is_default z)) (zones d') = map (\<lambda>z. (z_id z, z_is_default z)) (zones d) \<and>
      rules d' = rules d \<and> assignments d' = assignments d"
    using rename_zone.failed_unchanged [of E' now actor i name d] by (cases r) auto
  then show ?thesis unfolding PolicyInput_def Let_def rd snd_conv by (simp add: fold_add_zone_cong [of "zones d'" "zones d"])
qed

lemma insert_rules_Inr: "insert_rules rs d = Inr (u, d') \<Longrightarrow> d' = d\<lparr>rules := rules d @ rs\<rparr>"
  by (induction rs arbitrary: d) (fastforce simp: txn_Inr insert_rule_Inr)+

lemma CloneZone_Inr:
  assumes "CloneZone E gen now actor srcID name d = (Inr i, d')"
  obtains src where "uuid_in E srcID = Some src" "i = gen 0" "src \<in> z_id ` set (zones d)" "i \<notin> z_id ` set (zones d)"
    "zones d' = zones d @ [\<lparr>z_id = i, z_name = name, z_is_default = False, z_created_at = now\<rparr>]"
    "rules d' = rules d @ clone_rules gen now actor i src (rules d)" "assignments d' = assignments d"
  using assms
  by (auto simp: CloneZone_def tx_Inr txn_Inr insert_clone_def insert_zone_Inr copy_rules_def dest!: insert_rules_Inr split: if_splits)

lemma rule_of_clone:
  "rule_of ` set (clone_rules gen now actor i src rs) = rule_of ` {r \<in> set rs. ru_zone r = Some src}"
  "r \<in> set (clone_rules gen now actor i src rs) \<Longrightarrow> ru_zone r = Some i"
proof -
  have "map rule_of (clone_rules gen now actor i src rs) = map rule_of (filter (\<lambda>r. ru_zone r = Some src) rs)"
  proof -
    have "map rule_of (clone_rules gen now actor i src rs) = map rule_of (map snd (enumerate 0 (filter (\<lambda>r. ru_zone r = Some src) rs)))"
      unfolding clone_rules_def map_map by (rule map_cong) (auto simp: zone_rule_def rule_of_def)
    then show ?thesis by simp
  qed
  then show "rule_of ` set (clone_rules gen now actor i src rs) = rule_of ` {r \<in> set rs. ru_zone r = Some src}"
    by (metis set_filter set_map)
  show "r \<in> set (clone_rules gen now actor i src rs) \<Longrightarrow> ru_zone r = Some i"
    by (auto simp: clone_rules_def zone_rule_def)
qed

lemma demo_ok: "db_ok demo_db" "has_default demo_db" "ids_ok demo_db"
  by code_simp+

section \<open>Properties\<close>

text \<open>C18. Deleting a zone, in a call that no other transaction overlaps, succeeds only for an existing zone that is not the default and has no
  workspace; it then takes no rule away from any workspace: the rules that \<open>Effective\<close> computes
  from the database are the same before and after, at every time and for every workspace.\<close>

theorem DeleteZone_policy:
  assumes "db_ok d" "has_default d" "ids_ok d" "ws \<noteq> []" "DeleteZone E now actor i d = (Inr (), d')"
  shows "set (Effective (PolicyInput E t d' d' d') ws kind) = set (Effective (PolicyInput E t d d d) ws kind) \<and>
    (\<exists>v. uuid_in E i = Some v \<and> v \<in> z_id ` set (zones d) \<and> v \<notin> z_id ` set (zones d') \<and>
      (\<forall>r \<in> set (rules d'). ru_zone r \<noteq> Some v) \<and> zone_in d ws \<noteq> Some v)"
proof (intro conjI)
  obtain v z where v: "uuid_in E i = Some v" "z \<in> set (zones d)" "z_id z = v"
    "zones d' = filter (\<lambda>z. z_id z \<noteq> v) (zones d)" "rules d' = filter (\<lambda>r. ru_zone r \<noteq> Some v) (rules d)"
    by (rule DeleteZone_Inr [OF assms(5)]) blast
  have ok': "db_ok d'" "has_default d'" using success_keeps [OF delete_zone.audited_op_axioms assms(5,1,2)] by simp_all
  have "ids_ok d'" using assms(3) v(4) by (auto simp: ids_ok_def list_all_iff)
  then show "set (Effective (PolicyInput E t d' d' d') ws kind) = set (Effective (PolicyInput E t d d d) ws kind)"
    using zone_in_DeleteZone(2) [OF assms(1,2,5)]
    by (simp add: Effective_policy_of assms ok' policy_of_def)
  have "zone_in d' ws \<noteq> Some v" unfolding zone_in_iff [OF ok'] using v(4) ok'(1)
    by (fastforce simp: assigned_def db_ok_def assignments_ok_def)
  then show "\<exists>v. uuid_in E i = Some v \<and> v \<in> z_id ` set (zones d) \<and> v \<notin> z_id ` set (zones d') \<and>
      (\<forall>r \<in> set (rules d'). ru_zone r \<noteq> Some v) \<and> zone_in d ws \<noteq> Some v"
    using v zone_in_DeleteZone(1) [OF assms(1,2,5)] by auto
qed

text \<open>A change of the default zone moves exactly the workspaces that follow the default:
  those with an explicit assignment to another zone stay where they are, all others are in the
  new default zone.\<close>

theorem SetDefaultZone_zone_in:
  assumes "db_ok d" "has_default d" "SetDefaultZone E now actor i d = (Inr (), d')"
  shows "\<exists>v. uuid_in E i = Some v \<and> zone_in d' ws =
    (if \<exists>a \<in> set (assignments d). as_ws a = ws \<and> as_zone a \<noteq> v then zone_in d ws else Some v)"
  by (rule zone_in_SetDefaultZone [OF assms, of ws]) blast

text \<open>Assigning a workspace to a zone puts it, and no other workspace, there; this also holds
  for the default zone, where the row is deleted instead.\<close>

theorem AssignZone_zone_in:
  assumes "db_ok d" "has_default d" "AssignZone E now actor wsID zoneID d = (Inr (), d')"
  shows "\<exists>z ws. uuid_in E zoneID = Some z \<and> uuid_in E wsID = Some ws \<and>
    (\<forall>w. zone_in d' w = (if w = ws then Some z else zone_in d w)) \<and>
    (z \<in> z_id ` set (filter z_is_default (zones d)) \<longrightarrow> ws \<notin> as_ws ` set (assignments d'))"
proof -
  obtain z ws where z: "uuid_in E zoneID = Some z" "uuid_in E wsID = Some ws" "zones d' = zones d"
    "zone_in d' ws = Some z" "\<And>w. w \<noteq> ws \<Longrightarrow> zone_in d' w = zone_in d w"
    by (rule zone_in_AssignZone [OF assms]) blast
  have "db_ok d'" using success_keeps [OF assign_zone.audited_op_axioms assms(3,1,2)] by simp
  then have ok: "assignments_ok (zones d) (assignments d')" and inj: "inj_on z_id (set (zones d))"
    using z(3) by (simp_all add: db_ok_def zones_ok_def distinct_map)
  have "ws \<notin> as_ws ` set (assignments d')" if "z \<in> z_id ` set (filter z_is_default (zones d))"
  proof
    assume "ws \<in> as_ws ` set (assignments d')"
    then obtain a where a: "find (\<lambda>a. as_ws a = ws) (assignments d') = Some a"
      by (cases "find (\<lambda>a. as_ws a = ws) (assignments d')") (auto simp: find_None_iff)
    with z(4) have "as_zone a = z" "a \<in> set (assignments d')" by (auto simp: zone_in_def dest: find_Some_mem)
    moreover from this obtain x where "x \<in> set (zones d)" "z_id x = z" "\<not> z_is_default x"
      using ok by (auto simp: assignments_ok_def)
    ultimately show False using that inj by (auto dest: inj_onD)
  qed
  with z show ?thesis by auto
qed

text \<open>C16. A grant puts its rule, until its time to live has passed, in force for its workspace, and
  changes the rules of no other workspace and of no other kind.\<close>

theorem Grant_policy:
  assumes "db_ok d" "has_default d" "ids_ok d" "w \<noteq> []" "Grant E gen now sh actor wsID r ttl d = (Inr (), d')"
  shows "\<exists>ws. uuid_in E wsID = Some ws \<and>
    set (Effective (PolicyInput E t d' d' d') w kind) = set (Effective (PolicyInput E t d d d) w kind) \<union>
      (if w = ws \<and> Kind r = kind \<and> t < now + interval_us ttl then {r} else {})"
proof -
  obtain ws where ws: "uuid_in E wsID = Some ws" "zones d' = zones d"
    "\<And>t w k. policy_of d' t w k = policy_of d t w k \<union> (if w = ws \<and> Kind r = k \<and> t < now + interval_us ttl then {r} else {})"
    by (rule rows_of_Grant [OF assms(2,5)]) blast
  have "db_ok d'" "has_default d'" using success_keeps [OF grant.audited_op_axioms assms(5,1,2)] by simp_all
  moreover have "ids_ok d'" using assms(3) ws(2) by (simp add: ids_ok_def)
  ultimately show ?thesis using ws assms by (auto simp: Effective_policy_of)
qed

text \<open>C17. The expiry of grants deletes exactly the workspace rules whose time has passed and writes
  one audit row for each, and it never changes what is in force: PolicyInput had stopped
  loading those rules already.\<close>

theorem ExpireGrants_policy:
  assumes "db_ok d" "has_default d" "ids_ok d" "ws \<noteq> []" "now \<le> t" "ExpireGrants now d = (res, d')"
  shows "set (Effective (PolicyInput E t d' d' d') ws kind) = set (Effective (PolicyInput E t d d d) ws kind) \<and>
    res = Inr (length (rules d) - length (rules d')) \<and>
    length (audits d') = length (audits d) + (length (rules d) - length (rules d')) \<and>
    rules d' = filter (\<lambda>r. ru_ws r = None \<or> live now r) (rules d)"
proof (intro conjI)
  have d': "d' = snd (ExpireGrants now d)" using assms(6) by simp
  have "db_ok d'" "has_default d'"
    unfolding d' using assms expire_grants.keeps_db_ok expire_grants.keeps_default by blast+
  moreover have "ids_ok d'" using assms(3) by (simp add: ids_ok_def d' ExpireGrants_run Let_def)
  ultimately show "set (Effective (PolicyInput E t d' d' d') ws kind) = set (Effective (PolicyInput E t d d d) ws kind)"
    using rows_of_ExpireGrants [OF assms(1,5), of ws] by (simp add: Effective_policy_of assms(1-4) policy_of_def assms(6) [THEN arg_cong [of _ _ snd], simplified])
  have len: "length (filter (expired_at now) (rules d)) = length (rules d) - length (rules d')"
    using sum_length_filter_compl [of "expired_at now" "rules d"] by (simp add: d' ExpireGrants_run Let_def)
  show "res = Inr (length (rules d) - length (rules d'))" "length (audits d') = length (audits d) + (length (rules d) - length (rules d'))"
    using assms(6) unfolding len [symmetric] by (auto simp: ExpireGrants_run Let_def)
  have "\<not> expired_at now r \<longleftrightarrow> ru_ws r = None \<or> live now r" if "r \<in> set (rules d)" for r
    using db_ok_row [OF assms(1) that] by (auto simp: expired_at_def live_def rule_row_ok_def)
  then show "rules d' = filter (\<lambda>r. ru_ws r = None \<or> live now r) (rules d)"
    by (auto simp: d' ExpireGrants_run Let_def intro: filter_cong)
qed

text \<open>A clone has the rules of its source and no workspace; nothing of the source changes.\<close>

theorem CloneZone_rules:
  assumes "db_ok d" "CloneZone E gen now actor srcID name d = (Inr i, d')"
  shows "\<exists>src. uuid_in E srcID = Some src \<and>
    rule_of ` {r \<in> set (rules d'). ru_zone r = Some i} = rule_of ` {r \<in> set (rules d). ru_zone r = Some src} \<and>
    {r \<in> set (rules d'). ru_zone r = Some src} = {r \<in> set (rules d). ru_zone r = Some src} \<and>
    i \<noteq> src \<and> (\<forall>a \<in> set (assignments d'). as_zone a \<noteq> i)"
proof -
  obtain src where src: "uuid_in E srcID = Some src" "src \<in> z_id ` set (zones d)" "i \<notin> z_id ` set (zones d)"
    "rules d' = rules d @ clone_rules gen now actor i src (rules d)" "assignments d' = assignments d"
    by (rule CloneZone_Inr [OF assms(2)]) blast
  have "{r \<in> set (rules d'). ru_zone r = Some i} = set (clone_rules gen now actor i src (rules d))"
    using assms(1) src(3,4) rule_of_clone(2) by (auto simp: db_ok_def rules_ok_iff)
  moreover have "{r \<in> set (rules d'). ru_zone r = Some src} = {r \<in> set (rules d). ru_zone r = Some src}"
    using src(2-4) rule_of_clone(2) by force
  moreover have "i \<noteq> src" using src by auto
  moreover have "\<forall>a \<in> set (assignments d'). as_zone a \<noteq> i"
    using assms(1) src(3,5) unfolding db_ok_def assignments_ok_def image_iff by (metis (no_types, lifting))
  ultimately show ?thesis using src(1) rule_of_clone(1) by (intro exI [of _ src]) simp
qed

section \<open>The properties on a concrete database\<close>

definition demo_zones :: db where
  \<comment> \<open>a second zone and a workspace in a third one\<close>
  "demo_zones =
     (let d1 = snd (CreateZone (demo_gen ''a'') 1 ''ann'' ''lab'' demo_db);
          d2 = snd (CloneZone demo_pg (demo_gen ''b'') 2 ''ann'' ''d'' ''copy'' d1);
          d3 = snd (AssignZone demo_pg 3 ''ann'' ''w1'' ''b'' d2)
      in snd (Grant demo_pg (demo_gen ''g'') 4 (\<lambda>_. ''1h0m0s'') ''ann'' ''w2'' \<lparr>Kind = ''host'', Value = ''pypi.org'', Port = 443\<rparr> 1000000 d3))"

lemma demo_zones_ok: "db_ok demo_zones" "has_default demo_zones" "ids_ok demo_zones"
  by code_simp+

theorem DeleteZone_policy_witness:
  "\<exists>d'. DeleteZone demo_pg 5 ''ann'' ''a'' demo_zones = (Inr (), d') \<and>
     set (Effective (PolicyInput demo_pg 6 d' d' d') ''w1'' ''host'') =
     set (Effective (PolicyInput demo_pg 6 demo_zones demo_zones demo_zones) ''w1'' ''host'')"
proof -
  have "DeleteZone demo_pg 5 ''ann'' ''a'' demo_zones = (Inr (), snd (DeleteZone demo_pg 5 ''ann'' ''a'' demo_zones))"
    by code_simp
  then show ?thesis using DeleteZone_policy [OF demo_zones_ok, of "''w1''" demo_pg 5 "''ann''" "''a''" _ 6 "''host''"] by blast
qed

theorem SetDefaultZone_zone_in_witness:
  "zone_in (snd (SetDefaultZone demo_pg 5 ''ann'' ''a'' demo_zones)) ''w2'' = Some ''a'' \<and>
   zone_in (snd (SetDefaultZone demo_pg 5 ''ann'' ''a'' demo_zones)) ''w1'' = Some ''b''"
proof -
  let ?d = "snd (SetDefaultZone demo_pg 5 ''ann'' ''a'' demo_zones)"
  have run: "SetDefaultZone demo_pg 5 ''ann'' ''a'' demo_zones = (Inr (), ?d)" by code_simp
  have "\<not> (\<exists>a \<in> set (assignments demo_zones). as_ws a = ''w2'' \<and> as_zone a \<noteq> ''a'')"
    "\<exists>a \<in> set (assignments demo_zones). as_ws a = ''w1'' \<and> as_zone a \<noteq> ''a''"
    "zone_in demo_zones ''w1'' = Some ''b''" "uuid_in demo_pg ''a'' = Some ''a''" by code_simp+
  then show ?thesis
    using SetDefaultZone_zone_in [OF demo_zones_ok(1,2) run, of "''w2''"] SetDefaultZone_zone_in [OF demo_zones_ok(1,2) run, of "''w1''"]
    by auto
qed

theorem AssignZone_zone_in_witness:
  "zone_in (snd (AssignZone demo_pg 5 ''ann'' ''w1'' ''d'' demo_zones)) ''w1'' = Some ''d''"
proof -
  have run: "AssignZone demo_pg 5 ''ann'' ''w1'' ''d'' demo_zones = (Inr (), snd (AssignZone demo_pg 5 ''ann'' ''w1'' ''d'' demo_zones))"
    and "uuid_in demo_pg ''d'' = Some ''d''" "uuid_in demo_pg ''w1'' = Some ''w1''"
    by code_simp+
  then show ?thesis using AssignZone_zone_in [OF demo_zones_ok(1,2) run] by auto
qed

theorem Grant_policy_witness:
  "\<lparr>Kind = ''host'', Value = ''*.pypi.org'', Port = 443\<rparr> \<in>
     (let d' = snd (Grant demo_pg (demo_gen ''h'') 5 (\<lambda>_. ''1s'') ''ann'' ''w2'' \<lparr>Kind = ''host'', Value = ''*.pypi.org'', Port = 443\<rparr> 1000000 demo_zones)
      in set (Effective (PolicyInput demo_pg 900 d' d' d') ''w2'' ''host''))"
proof -
  let ?r = "\<lparr>Kind = ''host'', Value = ''*.pypi.org'', Port = 443\<rparr>"
  let ?g = "Grant demo_pg (demo_gen ''h'') 5 (\<lambda>_. ''1s'') ''ann'' ''w2'' ?r 1000000 demo_zones"
  have run: "?g = (Inr (), snd ?g)" by code_simp
  have "uuid_in demo_pg ''w2'' = Some ''w2''" by code_simp
  then show ?thesis
    using Grant_policy [OF demo_zones_ok _ run, of "''w2''" 900 "''host''"] by (simp add: Let_def interval_us_def)
qed

theorem ExpireGrants_policy_witness:
  "fst (ExpireGrants 5000 demo_zones) = Inr 1 \<and>
   length (rules (snd (ExpireGrants 5000 demo_zones))) + 1 = length (rules demo_zones)"
proof -
  have run: "ExpireGrants 5000 demo_zones = (fst (ExpireGrants 5000 demo_zones), snd (ExpireGrants 5000 demo_zones))" by simp
  have "length (rules demo_zones) = 5" "length (filter (\<lambda>r. ru_ws r = None \<or> live 5000 r) (rules demo_zones)) = 4"
    by code_simp+
  then show ?thesis using ExpireGrants_policy [OF demo_zones_ok _ _ run, of "''w1''" 5000] by simp
qed

theorem CloneZone_rules_witness:
  "\<exists>d'. CloneZone demo_pg (demo_gen ''k'') 7 ''ann'' ''b'' ''third'' demo_zones = (Inr ''k'', d') \<and>
     rule_of ` {r \<in> set (rules d'). ru_zone r = Some ''k''} = rule_of ` {r \<in> set (rules demo_zones). ru_zone r = Some ''b''}"
proof -
  let ?c = "CloneZone demo_pg (demo_gen ''k'') 7 ''ann'' ''b'' ''third'' demo_zones"
  have run: "?c = (Inr ''k'', snd ?c)" and "uuid_in demo_pg ''b'' = Some ''b''" by code_simp+
  then show ?thesis using CloneZone_rules [OF demo_zones_ok(1) run] by auto
qed

end
