(* ===== verification/RequestFlow.thy ===== *)
theory RequestFlow
  imports StoreRequests ZonePolicy
begin

text \<open>
  What requests and denials do: a request is filed once, decided once and, when approved, is
  the same as a grant; the denials of a workspace are throttled and capped without touching
  the other workspaces.
\<close>

section \<open>Filing and deciding\<close>

lemma find_append: "find P (xs @ ys) = (case find P xs of None \<Rightarrow> find P ys | Some x \<Rightarrow> Some x)"
  by (induction xs) auto

lemma FileRequest_Inr:
  assumes "FileRequest E gen now actor wsID host port j d = (Inr i, d')"
  obtains ws where "uuid_in E wsID = Some ws" "ValidRule \<lparr>Kind = ''host'', Value = host, Port = port\<rparr>"
    "request_body gen now actor wsID host port j ws d = Inr (i, d')"
  using assms by (auto simp: FileRequest_body tx_Inr txn_Inr split: if_splits)

lemma request_body_pending:
  assumes "request_body gen now actor wsID host port j ws d = Inr (i, d')"
  shows "select_pending ws host port d' = Some i"
  using assms
proof (cases rule: request_body_cases)
  case (2 e)
  then show ?thesis
    by (auto simp: insert_request_Inr select_pending_def find_append new_request_def split: option.splits)
qed simp

lemma update_pending_decides:
  assumes "update_pending v status actor ttl now d = Inr (r, e)" "status \<noteq> ''pending''"
  shows "find (\<lambda>q. rq_id q = v \<and> rq_status q = ''pending'') (requests e) = None"
proof -
  have "find (\<lambda>q. rq_id q = v \<and> rq_status q = ''pending'') (map (\<lambda>q. if rq_id q = v \<and> rq_status q = ''pending''
       then q\<lparr>rq_status := status, rq_decided_by := b, rq_decided_at := t, rq_ttl := ttl\<rparr> else q) qs) = None" for b t qs
    using assms(2) by (induction qs) auto
  then show ?thesis using update_pending_Inr(4) [OF assms(1)] by simp
qed

lemma Decide_Inr:
  assumes "Decide E gen now sh actor i approve ttl d = (Inr u, d')"
  obtains v r e where "uuid_in E i = Some v" "r \<in> set (requests d)" "rq_id r = v" "rq_status r = ''pending''"
    "update_pending v (if approve then ''approved'' else ''denied'') actor (if approve then Some (interval_us ttl) else None) now d = Inr (r, e)"
    "(if approve then grant_tx E gen now sh actor (rq_ws r) \<lparr>Kind = ''host'', Value = rq_host r, Port = rq_port r\<rparr> ttl
        [(''request'', JStr i), (''self_approved'', JBool (actor = rq_requester r))]
      else audit now actor ''deny'' [(''request'', JStr i), (''self_approved'', JBool (actor = rq_requester r))]) e = Inr (u, d')"
proof -
  obtain v r e where "uuid_in E i = Some v" and up:
    "update_pending v (if approve then ''approved'' else ''denied'') actor (if approve then Some (interval_us ttl) else None) now d = Inr (r, e)"
    and "(if approve then grant_tx E gen now sh actor (rq_ws r) \<lparr>Kind = ''host'', Value = rq_host r, Port = rq_port r\<rparr> ttl
        [(''request'', JStr i), (''self_approved'', JBool (actor = rq_requester r))]
      else audit now actor ''deny'' [(''request'', JStr i), (''self_approved'', JBool (actor = rq_requester r))]) e = Inr (u, d')"
    using assms by (cases approve) (auto simp: Decide_def tx_Inr tbind_Inr cast_uuid_Inr Let_def)
  with update_pending_Inr(1-3) [OF up] show ?thesis by (intro that)
qed

lemma grant_tx_Inr:
  assumes "grant_tx E gen now sh actor wsID r ttl extra d = Inr (u, d')"
  obtains ws row where "uuid_in E wsID = Some ws" "0 < ttl" "zones d' = zones d" "assignments d' = assignments d" "requests d' = requests d"
    "rules d' = rules d @ [row]" "rule_of row = r" "ru_zone row = None" "ru_ws row = Some ws"
    "ru_expires row = Some (now + interval_us ttl)"
proof -
  let ?row = "\<lambda>ws. \<lparr>ru_id = gen 0, ru_zone = None, ru_ws = Some ws, ru_kind = Kind r, ru_value = Value r,
                    ru_port = Port r, ru_expires = Some (now + interval_us ttl), ru_created_by = actor, ru_created_at = now\<rparr>"
  obtain ws where "uuid_in E wsID = Some ws" "0 < ttl" "zones d' = zones d" "assignments d' = assignments d" "requests d' = requests d"
    "rules d' = rules d @ [?row ws]"
    using assms by (auto simp: grant_tx_def txn_Inr insert_rule_Inr split: if_splits)
  then show ?thesis by (intro that [of ws "?row ws"]) (simp_all add: rule_of_def)
qed

lemma policy_of_append:
  assumes "has_default d" "zones d' = zones d" "assignments d' = assignments d" "rules d' = rules d @ [row]"
    "ru_zone row = None" "ru_ws row = Some ws" "ru_expires row = Some e"
  shows "policy_of d' t w k = policy_of d t w k \<union> (if w = ws \<and> ru_kind row = k \<and> t < e then {rule_of row} else {})"
proof -
  have "zone_in d' = zone_in d" using assms(2,3) by (intro zone_in_cong)
  moreover have "None \<noteq> zone_in d w" for w using zone_in_total [OF assms(1), of w] by auto
  ultimately show ?thesis using assms(4-7) by (auto simp: policy_of_def rows_of_def live_def)
qed

section \<open>Properties of requests\<close>

text \<open>Filing the same request again, by anyone, returns the id of the pending one and changes
  nothing.\<close>

theorem FileRequest_idempotent:
  assumes "FileRequest E gen now actor wsID host port j d = (Inr i, d')"
  shows "FileRequest E gen' now' actor' wsID host port j' d' = (Inr i, d')"
proof -
  obtain ws where ws: "uuid_in E wsID = Some ws" "ValidRule \<lparr>Kind = ''host'', Value = host, Port = port\<rparr>"
    "request_body gen now actor wsID host port j ws d = Inr (i, d')"
    by (rule FileRequest_Inr [OF assms]) blast
  then show ?thesis
    using request_body_pending [OF ws(3)]
    by (simp add: FileRequest_body tx_Inr txn_Inr request_body_def)
qed

text \<open>C14. A request is decided at most once: after a decision every further one, approval or denial,
  is refused as a conflict and changes nothing.\<close>

theorem Decide_once:
  assumes "Decide E gen now sh actor i approve ttl d = (Inr (), d')"
  shows "Decide E gen' now' sh' actor' i approve' ttl' d' = (Inl ErrConflict, d')"
proof -
  obtain v r e where v: "uuid_in E i = Some v" and up:
    "update_pending v (if approve then ''approved'' else ''denied'') actor (if approve then Some (interval_us ttl) else None) now d = Inr (r, e)"
    and fin: "(if approve then grant_tx E gen now sh actor (rq_ws r) \<lparr>Kind = ''host'', Value = rq_host r, Port = rq_port r\<rparr> ttl
        [(''request'', JStr i), (''self_approved'', JBool (actor = rq_requester r))]
      else audit now actor ''deny'' [(''request'', JStr i), (''self_approved'', JBool (actor = rq_requester r))]) e = Inr ((), d')"
    by (rule Decide_Inr [OF assms]) blast
  have "requests d' = requests e" using fin by (cases approve) (auto simp: txn_Inr elim: grant_tx_Inr)
  then have "find (\<lambda>q. rq_id q = v \<and> rq_status q = ''pending'') (requests d') = None"
    using update_pending_decides [OF up] by (cases approve) simp_all
  then show ?thesis using v
    by (simp add: Decide_def tx_def tbind_def cast_uuid_def tret_def no_rows_to_def update_pending_def Let_def mapErr_def)
qed

text \<open>C15. An approval is a grant: it puts the requested host and port in force for the workspace that
  asked, until the time to live has passed, and for nobody else; a denial changes no rule.\<close>

theorem Decide_policy:
  assumes "db_ok d" "has_default d" "ids_ok d" "w \<noteq> []" "Decide E gen now sh actor i approve ttl d = (Inr (), d')"
  shows "\<exists>r \<in> set (requests d). uuid_in E i = Some (rq_id r) \<and> rq_status r = ''pending'' \<and>
    (approve \<longrightarrow> uuid_in E (rq_ws r) \<noteq> None \<and> 0 < ttl) \<and>
    set (Effective (PolicyInput E t d' d' d') w kind) = set (Effective (PolicyInput E t d d d) w kind) \<union>
      (if approve \<and> uuid_in E (rq_ws r) = Some w \<and> kind = ''host'' \<and> t < now + interval_us ttl
       then {\<lparr>Kind = ''host'', Value = rq_host r, Port = rq_port r\<rparr>} else {})"
proof -
  obtain v r e where r: "uuid_in E i = Some v" "r \<in> set (requests d)" "rq_id r = v" "rq_status r = ''pending''" and up:
    "update_pending v (if approve then ''approved'' else ''denied'') actor (if approve then Some (interval_us ttl) else None) now d = Inr (r, e)"
    and fin: "(if approve then grant_tx E gen now sh actor (rq_ws r) \<lparr>Kind = ''host'', Value = rq_host r, Port = rq_port r\<rparr> ttl
        [(''request'', JStr i), (''self_approved'', JBool (actor = rq_requester r))]
      else audit now actor ''deny'' [(''request'', JStr i), (''self_approved'', JBool (actor = rq_requester r))]) e = Inr ((), d')"
    by (rule Decide_Inr [OF assms(5)]) blast
  have e: "zones e = zones d" "rules e = rules d" "assignments e = assignments d" using update_pending_Inr(4) [OF up] by simp_all
  have ok': "db_ok d'" "has_default d'" using success_keeps [OF decide.audited_op_axioms assms(5,1,2)] by simp_all
  have "has_default e" using assms(2) e by (simp add: has_default_def)
  have pe: "policy_of e t w kind = policy_of d t w kind" using e zone_in_cong [of e d] by (simp add: policy_of_def rows_of_def)
  show ?thesis
  proof (cases approve)
    case True
    with fin obtain ws row where g: "uuid_in E (rq_ws r) = Some ws" "0 < ttl" "zones d' = zones e" "assignments d' = assignments e"
      "rules d' = rules e @ [row]" "rule_of row = \<lparr>Kind = ''host'', Value = rq_host r, Port = rq_port r\<rparr>" "ru_zone row = None"
      "ru_ws row = Some ws" "ru_expires row = Some (now + interval_us ttl)"
      by (auto elim: grant_tx_Inr)
    have "ids_ok d'" using assms(3) g(3) e(1) by (simp add: ids_ok_def)
    then show ?thesis
      using r True g(1,2,6) policy_of_append [OF \<open>has_default e\<close> g(3-5,7-9), of t w kind]
      by (intro bexI [of _ r]) (auto simp: Effective_policy_of assms ok' pe rule_of_def)
  next
    case False
    then have d': "zones d' = zones e" "rules d' = rules e" "assignments d' = assignments e" using fin by (auto simp: txn_Inr)
    then have "policy_of d' t w kind = policy_of d t w kind" using pe zone_in_cong [of d' e] by (simp add: policy_of_def rows_of_def)
    moreover have "ids_ok d'" using assms(3) d'(1) e(1) by (simp add: ids_ok_def)
    ultimately show ?thesis using r False by (intro bexI [of _ r]) (auto simp: Effective_policy_of assms ok')
  qed
qed

text \<open>Every outcome of filing: an invalid host or port, an id that is no uuid and a justification
  that is empty or over 2000 characters are refused as invalid; all else returns a pending
  request for that workspace, host and port.\<close>

theorem FileRequest_outcome:
  assumes "gen 0 \<notin> rq_id ` set (requests d)"
  shows "(case FileRequest E gen now actor wsID host port j d of
      (Inl e, d') \<Rightarrow> e = ErrInvalid \<and> d' = d \<and> (\<not> ValidName host \<or> (port \<noteq> 80 \<and> port \<noteq> 443) \<or> uuid_in E wsID = None \<or>
         (char_length j < 1 \<or> 2000 < char_length j) \<and> (\<forall>ws. uuid_in E wsID = Some ws \<longrightarrow> select_pending ws host port d = None))
    | (Inr i, d') \<Rightarrow> ValidName host \<and> (port = 80 \<or> port = 443) \<and>
         (\<exists>ws. uuid_in E wsID = Some ws \<and> select_pending ws host port d' = Some i \<and>
            (select_pending ws host port d = None \<longrightarrow> 1 \<le> char_length j \<and> char_length j \<le> 2000)))"
proof (cases "FileRequest E gen now actor wsID host port j d")
  case (Pair res d')
  show ?thesis
  proof (cases res)
    case (Inl e)
    then have "d' = d" using Pair file_request.failed_unchanged [of E gen now actor wsID host port j d e] by simp
    with Inl Pair assms show ?thesis
      by (auto simp: FileRequest_body tx_def tbind_def cast_uuid_def tfail_def tret_def request_body_def ValidRule_def mapErr_def
          insert_request_def request_check_def new_request_def audit_def split: if_splits option.splits sum.splits)
  next
    case (Inr i)
    obtain ws where ws: "uuid_in E wsID = Some ws" "ValidRule \<lparr>Kind = ''host'', Value = host, Port = port\<rparr>"
      "request_body gen now actor wsID host port j ws d = Inr (i, d')"
      using Pair Inr by (auto elim: FileRequest_Inr)
    have "select_pending ws host port d = None \<longrightarrow> 1 \<le> char_length j \<and> char_length j \<le> 2000"
      using ws(3) by (cases rule: request_body_cases) (auto simp: insert_request_Inr request_check_def new_request_def)
    then show ?thesis using Pair Inr ws request_body_pending [OF ws(3)] by (auto simp: ValidRule_def)
  qed
qed

text \<open>C32. Every outcome of a decision: an id that is no uuid is invalid, an unknown or already decided
  request is a conflict, an approval without a positive time to live is invalid, all else
  succeeds; whatever fails leaves the request pending and the database as it was.\<close>

theorem Decide_outcome:
  assumes "db_ok d" "gen 0 \<notin> ru_id ` set (rules d)" "\<forall>q \<in> set (requests d). uuid_in E (rq_ws q) = Some (rq_ws q)"
  shows "fst (Decide E gen now sh actor i approve ttl d) =
      (case uuid_in E i of None \<Rightarrow> Inl ErrInvalid
       | Some v \<Rightarrow> if \<forall>q \<in> set (requests d). rq_id q = v \<longrightarrow> rq_status q \<noteq> ''pending'' then Inl ErrConflict
                  else if approve \<and> ttl \<le> 0 then Inl ErrInvalid else Inr ()) \<and>
    (\<forall>e. fst (Decide E gen now sh actor i approve ttl d) = Inl e \<longrightarrow> snd (Decide E gen now sh actor i approve ttl d) = d)"
proof (intro conjI allI impI)
  show "snd (Decide E gen now sh actor i approve ttl d) = d" if "fst (Decide E gen now sh actor i approve ttl d) = Inl e" for e
    using that by (rule decide.failed_unchanged)
  show "fst (Decide E gen now sh actor i approve ttl d) =
      (case uuid_in E i of None \<Rightarrow> Inl ErrInvalid
       | Some v \<Rightarrow> if \<forall>q \<in> set (requests d). rq_id q = v \<longrightarrow> rq_status q \<noteq> ''pending'' then Inl ErrConflict
                  else if approve \<and> ttl \<le> 0 then Inl ErrInvalid else Inr ())"
  proof (cases "uuid_in E i")
    case None
    then show ?thesis by (simp add: Decide_def tx_def tbind_def cast_uuid_def tfail_def mapErr_def)
  next
    case (Some v)
    show ?thesis
    proof (cases "find (\<lambda>q. rq_id q = v \<and> rq_status q = ''pending'') (requests d)")
      case None
      then have "\<forall>q \<in> set (requests d). rq_id q = v \<longrightarrow> rq_status q \<noteq> ''pending''" by (auto simp: find_None_iff)
      with None Some show ?thesis
        by (simp add: Decide_def tx_def tbind_def cast_uuid_def tret_def no_rows_to_def update_pending_def mapErr_def)
    next
      case (Some r)
      then have r: "r \<in> set (requests d)" "rq_id r = v" "rq_status r = ''pending''" by (auto dest: find_Some_mem)
      then have "ValidRule \<lparr>Kind = ''host'', Value = rq_host r, Port = rq_port r\<rparr>"
        using assms(1) by (auto simp: db_ok_def requests_ok_def list_all_iff request_row_ok_def request_check_def ValidRule_def)
      then show ?thesis
        using \<open>uuid_in E i = Some v\<close> Some r assms(2,3)
        by (auto simp: Decide_def tx_def tbind_def cast_uuid_def tret_def tfail_def no_rows_to_def update_pending_def mapErr_def
            grant_tx_def insert_rule_def rule_check_def ValidRule_def audit_def)
    qed
  qed
qed

section \<open>Properties of denials\<close>

lemma RecordDenial_run:
  "RecordDenial E now wsID host port d = (case uuid_in E wsID of None \<Rightarrow> (Inl ErrInvalid, d)
     | Some ws \<Rightarrow> tx (denial_body E now host port ws) d)"
  by (simp add: RecordDenial_body tx_def tbind_def cast_uuid_def tfail_def tret_def mapErr_def split: option.splits)

text \<open>A denial that is already recorded counts at most once a second: within a second of the last
  one nothing changes, later its counter goes up by one, its time becomes the current one, and
  no other row changes.\<close>

theorem RecordDenial_repeated:
  assumes "db_ok d" "uuid_in E wsID = Some ws" "int4 port" "r \<in> set (denials d)" "denial_key r = (ws, host, port)"
    "int4 (dn_count r + 1)"
  shows "RecordDenial E now wsID host port d =
    (Inr (), if dn_last r < now - 1000000
      then d\<lparr>denials := map (\<lambda>q. if q = r then r\<lparr>dn_count := dn_count r + 1, dn_last := now\<rparr> else q) (denials d)\<rparr> else d)"
proof -
  have dist: "distinct (map denial_key (denials d))" using assms(1) by (simp add: db_ok_def denials_ok_def)
  have f: "find (\<lambda>q. denial_key q = (ws, host, port)) (denials d) = Some r"
    using find_Some_distinct [OF dist, of "(ws, host, port)" r] assms(4,5) by blast
  have "denial_key q = (ws, host, port) \<longleftrightarrow> q = r" if "q \<in> set (denials d)" for q
    using dist assms(4,5) that by (metis distinct_map inj_onD)
  then have eq: "map (\<lambda>q. if denial_key q = (ws, host, port) then q\<lparr>dn_count := dn_count q + 1, dn_last := now\<rparr> else q) (denials d) =
      map (\<lambda>q. if q = r then r\<lparr>dn_count := dn_count r + 1, dn_last := now\<rparr> else q) (denials d)"
    by (intro map_cong) auto
  show ?thesis
    unfolding RecordDenial_run using assms(2,3,6) f eq
    by (simp add: tx_def denial_body_def upsert_denial_def throttle_us_def)
qed

lemma record_new:
  assumes "db_ok d" "uuid_in E wsID = Some ws" "int4 port" "(ws, host, port) \<notin> denial_key ` set (denials d)"
    "\<forall>r \<in> set (denials d). dn_ws r = ws \<longrightarrow> dn_last r < now" "RecordDenial E now wsID host port d = (res, d')"
  shows "res = Inr () \<and>
    \<lparr>dn_ws = ws, dn_host = host, dn_port = port, dn_count = 1, dn_first = now, dn_last = now\<rparr> \<in> set (denials d') \<and>
    length (filter (\<lambda>r. dn_ws r = ws) (denials d')) = min 200 (Suc (length (filter (\<lambda>r. dn_ws r = ws) (denials d)))) \<and>
    (\<forall>r \<in> set (denials d) - set (denials d'). \<forall>k \<in> set (denials d'). dn_ws k = ws \<longrightarrow> dn_last r \<le> dn_last k) \<and>
    (\<forall>r. dn_ws r \<noteq> ws \<longrightarrow> (r \<in> set (denials d') \<longleftrightarrow> r \<in> set (denials d))) \<and>
    set (denials d') \<subseteq> insert \<lparr>dn_ws = ws, dn_host = host, dn_port = port, dn_count = 1, dn_first = now, dn_last = now\<rparr> (set (denials d))"
proof -
  let ?new = "\<lparr>dn_ws = ws, dn_host = host, dn_port = port, dn_count = 1, dn_first = now, dn_last = now\<rparr>"
  define e where "e = d\<lparr>denials := denials d @ [?new]\<rparr>"
  have "find (\<lambda>r. denial_key r = (ws, host, port)) (denials d) = None"
    using assms(4) by (auto simp: find_None_iff image_iff)
  then have up: "upsert_denial ws host port now d = Inr (True, e)"
    using assms(3) by (simp add: upsert_denial_def e_def)
  obtain e' where cap: "cap_denials E ws e = Inr ((), e')" by (simp add: cap_denials_def Let_def)
  have res: "res = Inr ()" "d' = e'"
    using assms(6,2) up cap by (auto simp: RecordDenial_run tx_def denial_body_def)
  have dok: "denials_ok (denials d)" using assms(1) by (simp add: db_ok_def)
  note new = upsert_denial_new [OF dok up]
  note kept = cap_denials_keeps(1) [OF new(3) cap]
  let ?S = "by_age E ws (denials e)"
  have srt: "sorted (map (\<lambda>r. (- dn_last r, xfrm E (dn_host r))) ?S)" by (simp add: by_age_def)
  have mono: "dn_last r \<le> dn_last k" if "k \<in> set (take n ?S)" "r \<in> set (drop n ?S)" for k r n
  proof -
    have "sorted (map (\<lambda>r. (- dn_last r, xfrm E (dn_host r))) (take n ?S @ drop n ?S))" using srt by simp
    then have "(- dn_last k, xfrm E (dn_host k)) \<le> (- dn_last r, xfrm E (dn_host r))"
      using that unfolding map_append sorted_append by auto
    then show ?thesis by (auto simp: less_eq_prod_def)
  qed
  have S: "set ?S = {r \<in> set (denials e). dn_ws r = ws}" by (rule by_age_keys(2) [OF new(3)])
  have split: "set ?S = set (take denial_cap ?S) \<union> set (drop denial_cap ?S)" by (metis append_take_drop_id set_append)
  have "?new \<in> set (take denial_cap ?S)"
  proof (rule ccontr)
    assume out: "?new \<notin> set (take denial_cap ?S)"
    have mem: "?new \<in> set ?S" unfolding S by (simp add: e_def)
    then have dr: "?new \<in> set (drop denial_cap ?S)" using out split by blast
    then have "take denial_cap ?S \<noteq> []" by (auto simp: denial_cap_def)
    then obtain k where k: "k \<in> set (take denial_cap ?S)" by (cases "take denial_cap ?S") auto
    then have "k \<in> {r \<in> set (denials e). dn_ws r = ws}" "k \<noteq> ?new" using S split out by blast+
    then have "k \<in> set (denials d)" "dn_ws k = ws" by (auto simp: e_def)
    then show False using mono [OF k dr] assms(5) by auto
  qed
  then have 1: "?new \<in> set (denials d')" using kept res by simp
  have "db_ok d'" using record_denial.keeps_db_ok [OF assms(1), of E now wsID host port] assms(6) by simp
  then have "distinct (map denial_key (denials d'))" by (simp add: db_ok_def denials_ok_def)
  then have "length (filter (\<lambda>r. dn_ws r = ws) (denials d')) = card {r \<in> set (denials d'). dn_ws r = ws}"
    by (simp add: distinct_map distinct_card [symmetric])
  also have "{r \<in> set (denials d'). dn_ws r = ws} = set (take denial_cap ?S)" using kept res S split by auto
  also have "card \<dots> = min denial_cap (length ?S)"
    using by_age_keys(1) [OF new(3), of E ws] by (simp add: distinct_map distinct_card min.commute)
  also have "length ?S = Suc (length (filter (\<lambda>r. dn_ws r = ws) (denials d)))" by (simp add: by_age_def e_def)
  finally have 2: "length (filter (\<lambda>r. dn_ws r = ws) (denials d')) = min 200 (Suc (length (filter (\<lambda>r. dn_ws r = ws) (denials d))))"
    by (simp add: denial_cap_def)
  have 3: "dn_last r \<le> dn_last k" if "r \<in> set (denials d) - set (denials d')" "k \<in> set (denials d')" "dn_ws k = ws" for r k
  proof -
    have "r \<in> set (denials e)" "r \<notin> set (denials d')" using that(1) by (auto simp: e_def)
    then have "r \<in> set (drop denial_cap ?S)" using kept [of r] res S split by (auto split: if_splits)
    moreover have "k \<in> set (take denial_cap ?S)" using kept [of k] res that by simp
    ultimately show ?thesis by (rule mono [rotated])
  qed
  have 4: "r \<in> set (denials d') \<longleftrightarrow> r \<in> set (denials d)" if "dn_ws r \<noteq> ws" for r
    using kept [of r] res that by (auto simp: e_def)
  have "r \<in> set (denials e)" if "r \<in> set (denials d')" for r
    using kept [of r] res that split S by (cases "dn_ws r = ws") auto
  then have 5: "set (denials d') \<subseteq> insert ?new (set (denials d))" by (auto simp: e_def)
  show ?thesis using res 1 2 3 4 5 by blast
qed

text \<open>C29. A first denial is recorded, and a flood of them cannot grow the table or bury anybody else:
  when the clock is ahead of the workspace's rows, the new row is there afterwards, the
  workspace has all its rows up to 200 and exactly 200 beyond, what was dropped is no newer than what was kept, and
  the rows of every other workspace are untouched.\<close>

theorem RecordDenial_new:
  assumes "db_ok d" "uuid_in E wsID = Some ws" "int4 port" "(ws, host, port) \<notin> denial_key ` set (denials d)"
    "\<forall>r \<in> set (denials d). dn_ws r = ws \<longrightarrow> dn_last r < now" "RecordDenial E now wsID host port d = (res, d')"
  shows "res = Inr () \<and>
    \<lparr>dn_ws = ws, dn_host = host, dn_port = port, dn_count = 1, dn_first = now, dn_last = now\<rparr> \<in> set (denials d') \<and>
    length (filter (\<lambda>r. dn_ws r = ws) (denials d')) = min 200 (Suc (length (filter (\<lambda>r. dn_ws r = ws) (denials d)))) \<and>
    (\<forall>r \<in> set (denials d) - set (denials d'). \<forall>k \<in> set (denials d'). dn_ws k = ws \<longrightarrow> dn_last r \<le> dn_last k) \<and>
    (\<forall>r. dn_ws r \<noteq> ws \<longrightarrow> (r \<in> set (denials d') \<longleftrightarrow> r \<in> set (denials d)))"
  using record_new [OF assms] by blast

section \<open>The properties on a concrete database\<close>

definition demo_requests :: db where
  "demo_requests = snd (FileRequest demo_pg (demo_gen ''q'') 5 ''bob'' ''w1'' ''pypi.org'' 443 ''need packages'' demo_zones)"

definition demo_denials :: db where
  "demo_denials = snd (RecordDenial demo_pg 6 ''w1'' ''evil.example'' 443 demo_requests)"

lemma demo_denials_ok: "db_ok demo_requests" "has_default demo_requests" "ids_ok demo_requests" "db_ok demo_denials"
  by code_simp+

theorem FileRequest_idempotent_witness:
  "FileRequest demo_pg (demo_gen ''z'') 9 ''eve'' ''w1'' ''pypi.org'' 443 ''again'' demo_requests = (Inr ''q'', demo_requests)"
proof -
  have "FileRequest demo_pg (demo_gen ''q'') 5 ''bob'' ''w1'' ''pypi.org'' 443 ''need packages'' demo_zones = (Inr ''q'', demo_requests)"
    by code_simp
  then show ?thesis by (rule FileRequest_idempotent)
qed

theorem Decide_once_witness:
  "\<exists>d'. Decide demo_pg (demo_gen ''h'') 7 (\<lambda>_. ''1h'') ''ann'' ''q'' True 1000000 demo_requests = (Inr (), d') \<and>
     Decide demo_pg (demo_gen ''k'') 8 (\<lambda>_. ''1h'') ''eve'' ''q'' False 0 d' = (Inl ErrConflict, d')"
proof -
  let ?d = "Decide demo_pg (demo_gen ''h'') 7 (\<lambda>_. ''1h'') ''ann'' ''q'' True 1000000 demo_requests"
  have run: "?d = (Inr (), snd ?d)" by code_simp
  then show ?thesis using Decide_once [OF run] by blast
qed

theorem Decide_policy_witness:
  "\<exists>d'. Decide demo_pg (demo_gen ''h'') 7 (\<lambda>_. ''1h'') ''ann'' ''q'' False 0 demo_requests = (Inr (), d') \<and>
     set (Effective (PolicyInput demo_pg 8 d' d' d') ''w1'' ''host'') =
     set (Effective (PolicyInput demo_pg 8 demo_requests demo_requests demo_requests) ''w1'' ''host'')"
proof -
  let ?d = "Decide demo_pg (demo_gen ''h'') 7 (\<lambda>_. ''1h'') ''ann'' ''q'' False 0 demo_requests"
  have run: "?d = (Inr (), snd ?d)" by code_simp
  then show ?thesis using Decide_policy [OF demo_denials_ok(1-3) _ run, of "''w1''" 8 "''host''"] by auto
qed

theorem FileRequest_outcome_witness:
  "fst (FileRequest demo_pg (demo_gen ''z'') 9 ''eve'' ''w2'' ''pypi.org'' 22 ''ssh'' demo_requests) = Inl ErrInvalid"
proof -
  have fresh: "demo_gen ''z'' 0 \<notin> rq_id ` set (requests demo_requests)" by code_simp
  show ?thesis
    using FileRequest_outcome [where gen = "demo_gen ''z''" and d = demo_requests and E = demo_pg and now = 9 and actor = "''eve''"
        and wsID = "''w2''" and host = "''pypi.org''" and port = 22 and j = "''ssh''", OF fresh]
    by (auto split: sum.splits prod.splits) (metis obj_sumE)
qed

theorem Decide_outcome_witness:
  "fst (Decide demo_pg (demo_gen ''h'') 7 (\<lambda>_. ''0s'') ''ann'' ''q'' True 0 demo_requests) = Inl ErrInvalid"
proof -
  have "demo_gen ''h'' 0 \<notin> ru_id ` set (rules demo_requests)"
    "\<forall>q \<in> set (requests demo_requests). uuid_in demo_pg (rq_ws q) = Some (rq_ws q)"
    "uuid_in demo_pg ''q'' = Some ''q''"
    "\<not> (\<forall>q \<in> set (requests demo_requests). rq_id q = ''q'' \<longrightarrow> rq_status q \<noteq> ''pending'')" by code_simp+
  then show ?thesis
    using Decide_outcome [OF demo_denials_ok(1), of "demo_gen ''h''" demo_pg 7 "\<lambda>_. ''0s''" "''ann''" "''q''" True 0] by simp
qed

theorem RecordDenial_repeated_witness:
  "RecordDenial demo_pg 900000 ''w1'' ''evil.example'' 443 demo_denials = (Inr (), demo_denials)"
proof -
  let ?r = "\<lparr>dn_ws = ''w1'', dn_host = ''evil.example'', dn_port = 443, dn_count = 1, dn_first = 6, dn_last = 6\<rparr> :: denial_row"
  have "uuid_in demo_pg ''w1'' = Some ''w1''" "int4 443" "?r \<in> set (denials demo_denials)"
    "denial_key ?r = (''w1'', ''evil.example'', 443)" "int4 (dn_count ?r + 1)" by code_simp+
  from RecordDenial_repeated [OF demo_denials_ok(4) this, of 900000] show ?thesis by simp
qed

theorem RecordDenial_new_witness:
  "\<lparr>dn_ws = ''w1'', dn_host = ''b.example'', dn_port = 80, dn_count = 1, dn_first = 7, dn_last = 7\<rparr> \<in>
     set (denials (snd (RecordDenial demo_pg 7 ''w1'' ''b.example'' 80 demo_denials)))"
proof -
  have "uuid_in demo_pg ''w1'' = Some ''w1''" "int4 80" "(''w1'', ''b.example'', 80) \<notin> denial_key ` set (denials demo_denials)"
    "\<forall>r \<in> set (denials demo_denials). dn_ws r = ''w1'' \<longrightarrow> dn_last r < 7" by code_simp+
  from RecordDenial_new [OF demo_denials_ok(4) this, of "fst (RecordDenial demo_pg 7 ''w1'' ''b.example'' 80 demo_denials)"
      "snd (RecordDenial demo_pg 7 ''w1'' ''b.example'' 80 demo_denials)"] show ?thesis by simp
qed

end
