(* ===== verification/StoreSystem.thy ===== *)
theory StoreSystem
  imports RequestFlow
begin

text \<open>
  The store as a state machine: \<open>call\<close> lists every mutating operation of package store with its
  arguments, \<open>exec\<close> runs one, and \<open>reachable\<close> is the set of databases that a deployment can
  reach from a seeded empty one. The contracts \<open>store_op\<close> and \<open>audited_op\<close> of the single
  operations give the invariants of all of them.
\<close>

type_synonym gen = "nat \<Rightarrow> string"

datatype call =
    CSeed gen time
  | CCreateZone gen time string string
  | CCloneZone gen time string string string
  | CRenameZone time string string string
  | CDeleteZone time string string
  | CSetDefaultZone time string string
  | CAddZoneRule gen time string string Rule
  | CDeleteRule time string string
  | CAssign time string string string
  | CGrant gen time "duration \<Rightarrow> string" string string Rule duration
  | CExpireGrants time
  | CAuditSystem time string "(string \<times> json) list"
  | CFileRequest gen time string string string int string
  | CDecide gen time "duration \<Rightarrow> string" string string bool duration
  | CRecordDenial time string string int

fun exec :: "pg \<Rightarrow> call \<Rightarrow> db \<Rightarrow> db" where
  "exec E (CSeed gen now) d = snd (Seed gen now d)"
| "exec E (CCreateZone gen now actor name) d = snd (CreateZone gen now actor name d)"
| "exec E (CCloneZone gen now actor src name) d = snd (CloneZone E gen now actor src name d)"
| "exec E (CRenameZone now actor i name) d = snd (RenameZone E now actor i name d)"
| "exec E (CDeleteZone now actor i) d = snd (DeleteZone E now actor i d)"
| "exec E (CSetDefaultZone now actor i) d = snd (SetDefaultZone E now actor i d)"
| "exec E (CAddZoneRule gen now actor z r) d = snd (AddZoneRule E gen now actor z r d)"
| "exec E (CDeleteRule now actor i) d = snd (DeleteRule E now actor i d)"
| "exec E (CAssign now actor ws z) d = snd (AssignZone E now actor ws z d)"
| "exec E (CGrant gen now sh actor ws r ttl) d = snd (Grant E gen now sh actor ws r ttl d)"
| "exec E (CExpireGrants now) d = snd (ExpireGrants now d)"
| "exec E (CAuditSystem now action detail) d = snd (AuditSystem now action detail d)"
| "exec E (CFileRequest gen now actor ws host port j) d = snd (FileRequest E gen now actor ws host port j d)"
| "exec E (CDecide gen now sh actor i approve ttl) d = snd (Decide E gen now sh actor i approve ttl d)"
| "exec E (CRecordDenial now ws host port) d = snd (RecordDenial E now ws host port d)"

fun actor_of :: "call \<Rightarrow> string option" where
  \<comment> \<open>whose name the audit rows of a call carry; a denial writes none\<close>
  "actor_of (CSeed gen now) = Some ''bootstrap''"
| "actor_of (CCreateZone gen now actor name) = Some actor"
| "actor_of (CCloneZone gen now actor src name) = Some actor"
| "actor_of (CRenameZone now actor i name) = Some actor"
| "actor_of (CDeleteZone now actor i) = Some actor"
| "actor_of (CSetDefaultZone now actor i) = Some actor"
| "actor_of (CAddZoneRule gen now actor z r) = Some actor"
| "actor_of (CDeleteRule now actor i) = Some actor"
| "actor_of (CAssign now actor ws z) = Some actor"
| "actor_of (CGrant gen now sh actor ws r ttl) = Some actor"
| "actor_of (CExpireGrants now) = Some ''system''"
| "actor_of (CAuditSystem now action detail) = Some ''system''"
| "actor_of (CFileRequest gen now actor ws host port j) = Some actor"
| "actor_of (CDecide gen now sh actor i approve ttl) = Some actor"
| "actor_of (CRecordDenial now ws host port) = None"

inductive reachable :: "pg \<Rightarrow> db \<Rightarrow> bool" for E where
  start: "fst (Seed gen now empty_db) = Inr () \<Longrightarrow> reachable E (snd (Seed gen now empty_db))"
| step: "reachable E d \<Longrightarrow> reachable E (exec E c d)"

inductive_cases reachable_cases: "reachable E d"

section \<open>Seeding\<close>

definition seed_body :: "gen \<Rightarrow> time \<Rightarrow> unit txn" where
  "seed_body gen now = tbind (insert_zone (gen 0) ''default'' True now) (\<lambda>i.
     tbind (insert_rule (zone_rule (gen 1) i ''host'' ''example.com'' 443 ''bootstrap'' now)) (\<lambda>_.
     tbind (insert_rule (zone_rule (gen 2) i ''host'' ''example.com'' 80 ''bootstrap'' now)) (\<lambda>_.
     audit now ''bootstrap'' ''seed''
       [(''zone'', JStr i), (''hosts'', JArr [JStr ''example.com:443'', JStr ''example.com:80''])])))"

lemma Seed_body: "Seed gen now d = (if zones d = [] then tx (seed_body gen now) d else (Inr (), d))"
  by (auto simp: Seed_def seed_body_def tx_def)

lemma seed_rules_ok:
  "rule_row_ok (zone_rule i z ''host'' ''example.com'' 443 by now)" "rule_row_ok (zone_rule i z ''host'' ''example.com'' 80 by now)"
  by (simp_all add: zone_rule_ok ValidRule_def ValidName_example)

lemma seed_body_laws: "keeps db_ok (seed_body gen now)" "signs ''bootstrap'' (seed_body gen now)"
  unfolding seed_body_def by (fast intro: seed_rules_ok)+

interpretation seed: audited_op "Seed gen now" "''bootstrap''" for gen now
proof unfold_locales
  fix d e
  show "fst (Seed gen now d) = Inl e \<Longrightarrow> snd (Seed gen now d) = d" unfolding Seed_def by (rule tx_Inl)
  show "db_ok d \<Longrightarrow> db_ok (snd (Seed gen now d))"
    unfolding Seed_body using tx_keeps [OF seed_body_laws(1)] by simp
  show "has_default d \<Longrightarrow> has_default (snd (Seed gen now d))" by (auto simp: Seed_body has_default_def)
  have "\<exists>new. (snd (Seed gen now d) \<noteq> d \<longrightarrow> new \<noteq> []) \<and> audits (snd (Seed gen now d)) = audits d @ new \<and> list_all (\<lambda>row. au_actor row = ''bootstrap'') new"
  proof (cases "snd (Seed gen now d) = d")
    case False
    then have "zones d = []" by (auto simp: Seed_body split: if_splits)
    then have "snd (tx (seed_body gen now) d) \<noteq> d" "snd (Seed gen now d) = snd (tx (seed_body gen now) d)"
      using False by (simp_all add: Seed_body)
    then show ?thesis using tx_changed [of "seed_body gen now" d] seed_body_laws(2) unfolding signs_def by metis
  qed simp
  then show "\<exists>new. audits (snd (Seed gen now d)) = audits d @ new"
    and "snd (Seed gen now d) \<noteq> d \<Longrightarrow> \<exists>new. new \<noteq> [] \<and> audits (snd (Seed gen now d)) = audits d @ new \<and> list_all (\<lambda>row. au_actor row = ''bootstrap'') new"
    by blast+
qed

lemma empty_ok: "db_ok empty_db"
  by (simp add: db_ok_def empty_db_def zones_ok_def rules_ok_def assignments_ok_def requests_ok_def denials_ok_def)

lemma seed_body_zones: "seed_body gen now d = Inr (u, d') \<Longrightarrow>
    zones d' = zones d @ [\<lparr>z_id = gen 0, z_name = ''default'', z_is_default = True, z_created_at = now\<rparr>]"
  unfolding seed_body_def txn_Inr insert_zone_Inr insert_rule_Inr by (elim exE conjE) simp

lemma Seed_default:
  assumes "zones d = []" "fst (Seed gen now d) = Inr ()"
  shows "has_default (snd (Seed gen now d))"
proof -
  obtain u d' where "seed_body gen now d = Inr (u, d')"
    using assms by (auto simp: Seed_body tx_def split: sum.splits)
  with assms(1) seed_body_zones [OF this] show ?thesis by (simp add: Seed_body tx_def has_default_def)
qed

section \<open>All calls\<close>

lemmas all_keep_db_ok = seed.keeps_db_ok create_zone.keeps_db_ok clone_zone.keeps_db_ok rename_zone.keeps_db_ok
  delete_zone.keeps_db_ok set_default_zone.keeps_db_ok add_zone_rule.keeps_db_ok delete_rule_op.keeps_db_ok
  assign_zone.keeps_db_ok grant.keeps_db_ok expire_grants.keeps_db_ok audit_system.keeps_db_ok
  file_request.keeps_db_ok decide.keeps_db_ok record_denial.keeps_db_ok

lemmas all_keep_default = seed.keeps_default create_zone.keeps_default clone_zone.keeps_default rename_zone.keeps_default
  delete_zone.keeps_default set_default_zone.keeps_default add_zone_rule.keeps_default delete_rule_op.keeps_default
  assign_zone.keeps_default grant.keeps_default expire_grants.keeps_default audit_system.keeps_default
  file_request.keeps_default decide.keeps_default record_denial.keeps_default

lemmas all_append = seed.audit_prefix create_zone.audit_prefix clone_zone.audit_prefix rename_zone.audit_prefix
  delete_zone.audit_prefix set_default_zone.audit_prefix add_zone_rule.audit_prefix delete_rule_op.audit_prefix
  assign_zone.audit_prefix grant.audit_prefix expire_grants.audit_prefix audit_system.audit_prefix
  file_request.audit_prefix decide.audit_prefix record_denial.audit_prefix

lemmas all_audited = seed.changed_audited create_zone.changed_audited clone_zone.changed_audited rename_zone.changed_audited
  delete_zone.changed_audited set_default_zone.changed_audited add_zone_rule.changed_audited delete_rule_op.changed_audited
  assign_zone.changed_audited grant.changed_audited expire_grants.changed_audited audit_system.changed_audited
  file_request.changed_audited decide.changed_audited

lemma exec_keeps: "db_ok d \<Longrightarrow> db_ok (exec E c d)"
  by (cases c) (simp_all add: all_keep_db_ok)

lemma exec_default: "db_ok d \<Longrightarrow> has_default d \<Longrightarrow> has_default (exec E c d)"
  by (cases c) (simp_all add: all_keep_default)

lemma exec_prefix: "prefix (audits d) (audits (exec E c d))"
  by (cases c) (simp_all add: all_append)

lemma exec_audited:
  "actor_of c = Some actor \<Longrightarrow> exec E c d \<noteq> d \<Longrightarrow>
     \<exists>new. new \<noteq> [] \<and> audits (exec E c d) = audits d @ new \<and> list_all (\<lambda>row. au_actor row = actor) new"
  by (cases c) (simp_all add: all_audited,
      (use seed.changed_audited expire_grants.changed_audited audit_system.changed_audited in blast)+)

lemma record_denial_frame:
  assumes "db_ok d"
  shows "snd (RecordDenial E now ws host port d) = d\<lparr>denials := denials (snd (RecordDenial E now ws host port d))\<rparr>"
proof (cases "snd (RecordDenial E now ws host port d) = d")
  case False
  then obtain u v d' where "denial_body E now host port v d = Inr (u, d')" "snd (RecordDenial E now ws host port d) = d'"
    using tx_changed [of "tbind (cast_uuid E ws) (denial_body E now host port)" d]
    by (auto simp: RecordDenial_body txn_Inr)
  then show ?thesis using denial_body_ok assms by (metis db_ok_def)
qed simp

lemma reachable_inv:
  assumes "reachable E d"
  shows "db_ok d \<and> has_default d"
  using assms
proof (induction rule: reachable.induct)
  case (start gen now)
  then have "has_default (snd (Seed gen now empty_db))" by (intro Seed_default) (simp_all add: empty_db_def)
  then show ?case using seed.keeps_db_ok [OF empty_ok] by simp
next
  case (step d c)
  then show ?case using exec_keeps exec_default by simp
qed

section \<open>Properties\<close>

text \<open>C5. Every database a deployment can reach by store operations that do not overlap satisfies the invariant: ids and names are unique, every
  zone and rule is valid, rules and assignments point at existing zones, no assignment points at
  the default zone, requests are well formed, no workspace has more than 200 denials; and there is
  always exactly one default zone.\<close>

theorem reachable_ok:
  assumes "reachable E d"
  shows "db_ok d \<and> length (filter z_is_default (zones d)) = 1"
  using reachable_inv [OF assms] by (simp add: has_default_def)

text \<open>C10. The audit table is append-only and complete: a call only ever adds rows at its end, and a call
  that changes anything adds at least one, every one in the name of the caller. The exception is a
  denial, which writes no audit row but changes nothing except the table of denials.\<close>

theorem exec_audit:
  assumes "db_ok d"
  shows "prefix (audits d) (audits (exec E c d)) \<and>
    (exec E c d \<noteq> d \<longrightarrow> (case actor_of c of
        Some actor \<Rightarrow> \<exists>new. new \<noteq> [] \<and> audits (exec E c d) = audits d @ new \<and> list_all (\<lambda>row. au_actor row = actor) new
      | None \<Rightarrow> exec E c d = d\<lparr>denials := denials (exec E c d)\<rparr>))"
proof (cases "actor_of c")
  case None
  then obtain now ws host port where c: "c = CRecordDenial now ws host port" by (cases c) auto
  show ?thesis unfolding c using record_denial.audit_prefix record_denial_frame [OF assms] by simp
next
  case (Some actor)
  then show ?thesis using exec_prefix exec_audited by simp
qed

theorem reachable_ok_witness: "db_ok demo_db \<and> length (filter z_is_default (zones demo_db)) = 1"
proof -
  have "fst (Seed (demo_gen ''d'') 0 empty_db) = Inr ()" by code_simp
  then have "reachable demo_pg demo_db" unfolding demo_db_def by (rule reachable.start)
  then show ?thesis by (rule reachable_ok)
qed

theorem exec_audit_witness:
  "prefix (audits demo_denials) (audits (exec demo_pg (CDeleteRule 9 ''ann'' ''dx'') demo_denials)) \<and>
   exec demo_pg (CDeleteRule 9 ''ann'' ''dx'') demo_denials \<noteq> demo_denials"
proof -
  have "length (rules (exec demo_pg (CDeleteRule 9 ''ann'' ''dx'') demo_denials)) \<noteq> length (rules demo_denials)" by code_simp
  then show ?thesis using exec_audit [OF demo_denials_ok(4), of demo_pg "CDeleteRule 9 ''ann'' ''dx''"] by metis
qed

end
