(* ===== verification/Xds.thy ===== *)
theory Xds
  imports Policy Sha256
begin

text \<open>
  Package xds, the Envoy configuration (src/admin/internal/xds/build.go): virtual hosts, clusters
  and listeners as untyped trees, one virtual host per allowed \<open>host:port\<close> with the addresses that
  may use it.

  The last step of Build decodes each tree into a typed message with protojson and validates it;
  that code is not in the repository, so \<open>decode\<close> is an argument: it maps the name of the message
  type and the tree to an error or a resource. A duration is a number of nanoseconds.
\<close>

section \<open>Definitions\<close>

definition NodeID :: string where
  "NodeID = ''sandcastle-egress''"

definition RouteName :: string where
  "RouteName = ''egress''"

record Params =
  Hosts :: "(HostKey, string list) gomap"
  RequestURL :: string
  TunnelMax :: int

definition typed :: "string \<Rightarrow> (string \<times> json) list \<Rightarrow> json" where
  "typed t fs = JObj (AList.update ''@type'' (JStr (''type.googleapis.com/'' @ t)) fs)"

definition hashName :: "HostKey \<Rightarrow> string list \<Rightarrow> string" where
  "hashName k ips =
     (let h = sha256 (hk_Host k @ ''|'' @ Itoa (hk_Port k) @ ''|'' @ Join ips '','')
      in hex_encode (take 5 h))"

definition dnsCache :: json where
  "dnsCache = JObj [(''name'', JStr ''dfp''), (''dns_lookup_family'', JStr ''V4_ONLY'')]"

definition rbacPerRoute :: "string list \<Rightarrow> json" where
  "rbacPerRoute ips =
     (let principals = map (\<lambda>ip. JObj [(''direct_remote_ip'', JObj [(''address_prefix'', JStr ip), (''prefix_len'', JNum 32)])]) ips
      in typed ''envoy.extensions.filters.http.rbac.v3.RBACPerRoute'' [(''rbac'', JObj [(''rules'', JObj [
           (''action'', JStr ''ALLOW''),
           (''policies'', JObj [(''workspaces'', JObj [(''permissions'', JArr [JObj [(''any'', JBool True)]]),
              (''principals'', JArr principals)])])])])])"

definition dfpCluster :: "string \<Rightarrow> json" where
  "dfpCluster name = JObj [(''name'', JStr name), (''lb_policy'', JStr ''CLUSTER_PROVIDED''), (''cluster_type'', JObj [
     (''name'', JStr ''envoy.clusters.dynamic_forward_proxy''),
     (''typed_config'', typed ''envoy.extensions.clusters.dynamic_forward_proxy.v3.ClusterConfig'' [(''dns_cache_config'', dnsCache)])])]"

definition deny_body :: "string \<Rightarrow> string" where
  "deny_body requestURL =
     ''sandcastle: egress to %REQ(:AUTHORITY)% is not allowed for this workspace.'' @ [CHR 0x0A] @
     ''Request access: '' @ requestURL @ ''?src=%DOWNSTREAM_REMOTE_ADDRESS_WITHOUT_PORT%&host=%REQ(:AUTHORITY)%'' @ [CHR 0x0A]"

definition hcm :: "string \<Rightarrow> json" where
  "hcm requestURL = typed ''envoy.extensions.filters.network.http_connection_manager.v3.HttpConnectionManager'' [
     (''stat_prefix'', JStr ''egress''),
     (''upgrade_configs'', JArr [JObj [(''upgrade_type'', JStr ''CONNECT'')]]),
     (''rds'', JObj [(''route_config_name'', JStr RouteName),
        (''config_source'', JObj [(''ads'', JObj []), (''resource_api_version'', JStr ''V3'')])]),
     (''access_log'', JArr [
        JObj [(''name'', JStr ''envoy.access_loggers.stdout''),
          (''typed_config'', typed ''envoy.extensions.access_loggers.stream.v3.StdoutAccessLog'' [
             (''log_format'', JObj [(''json_format'', JObj [
                (''time'', JStr ''%START_TIME%''), (''src'', JStr ''%DOWNSTREAM_REMOTE_ADDRESS_WITHOUT_PORT%''),
                (''method'', JStr ''%REQ(:METHOD)%''), (''authority'', JStr ''%REQ(:AUTHORITY)%''),
                (''code'', JStr ''%RESPONSE_CODE%''), (''flags'', JStr ''%RESPONSE_FLAGS%''),
                (''bytes_up'', JStr ''%BYTES_RECEIVED%''), (''bytes_down'', JStr ''%BYTES_SENT%'')])])])],
        JObj [(''name'', JStr ''envoy.access_loggers.http_grpc''),
          (''typed_config'', typed ''envoy.extensions.access_loggers.grpc.v3.HttpGrpcAccessLogConfig'' [
             (''common_config'', JObj [(''log_name'', JStr ''egress''), (''transport_api_version'', JStr ''V3''),
                (''grpc_service'', JObj [(''envoy_grpc'', JObj [(''cluster_name'', JStr ''admin'')])])])])]]),
     (''local_reply_config'', JObj [(''mappers'', JArr [JObj [
        (''filter'', JObj [(''status_code_filter'', JObj [(''comparison'', JObj [(''op'', JStr ''EQ''),
           (''value'', JObj [(''default_value'', JNum 403), (''runtime_key'', JStr ''sandcastle.deny'')])])])]),
        (''headers_to_add'', JArr [JObj [(''header'', JObj [(''key'', JStr ''x-sandcastle-denied''),
           (''value'', JStr ''host=%REQ(:AUTHORITY)%; source=%DOWNSTREAM_REMOTE_ADDRESS_WITHOUT_PORT%'')])]]),
        (''body_format_override'', JObj [(''text_format_source'', JObj [(''inline_string'', JStr (deny_body requestURL))])])]])]),
     (''http_filters'', JArr [
        JObj [(''name'', JStr ''envoy.filters.http.rbac''),
          (''typed_config'', typed ''envoy.extensions.filters.http.rbac.v3.RBAC'' [(''rules'', JObj [(''action'', JStr ''ALLOW'')])])],
        JObj [(''name'', JStr ''envoy.filters.http.dynamic_forward_proxy''),
          (''typed_config'', typed ''envoy.extensions.filters.http.dynamic_forward_proxy.v3.FilterConfig'' [(''dns_cache_config'', dnsCache)])],
        JObj [(''name'', JStr ''envoy.filters.http.router''),
          (''typed_config'', typed ''envoy.extensions.filters.http.router.v3.Router'' [])]])]"

definition proxyListener :: "string \<Rightarrow> json" where
  "proxyListener requestURL = JObj [
     (''name'', JStr ''proxy''),
     (''address'', JObj [(''socket_address'', JObj [(''address'', JStr ''0.0.0.0''), (''port_value'', JNum 3128)])]),
     (''filter_chains'', JArr [JObj [(''filters'', JArr [JObj [
        (''name'', JStr ''envoy.filters.network.http_connection_manager''), (''typed_config'', hcm requestURL)]])]])]"

definition sniListener :: "string \<Rightarrow> string \<Rightarrow> json" where
  "sniListener name host = JObj [
     (''name'', JStr name),
     (''internal_listener'', JObj []),
     (''listener_filters'', JArr [JObj [(''name'', JStr ''envoy.filters.listener.tls_inspector''),
        (''typed_config'', typed ''envoy.extensions.filters.listener.tls_inspector.v3.TlsInspector'' [])]]),
     (''filter_chains'', JArr [JObj [
        (''filter_chain_match'', JObj [(''server_names'', JArr [JStr host])]),
        (''filters'', JArr [
           JObj [(''name'', JStr ''envoy.filters.network.sni_dynamic_forward_proxy''),
             (''typed_config'', typed ''envoy.extensions.filters.network.sni_dynamic_forward_proxy.v3.FilterConfig''
                [(''port_value'', JNum 443), (''dns_cache_config'', dnsCache)])],
           JObj [(''name'', JStr ''envoy.filters.network.tcp_proxy''),
             (''typed_config'', typed ''envoy.extensions.filters.network.tcp_proxy.v3.TcpProxy''
                [(''stat_prefix'', JStr name), (''cluster'', JStr ''dfp_sni'')])]])]]),
     (''access_log'', JArr [JObj [(''name'', JStr ''envoy.access_loggers.stdout''),
        (''typed_config'', typed ''envoy.extensions.access_loggers.stream.v3.StdoutAccessLog'' [
           (''log_format'', JObj [(''json_format'', JObj [
              (''time'', JStr ''%START_TIME%''), (''stage'', JStr ''sni''), (''sni'', JStr ''%REQUESTED_SERVER_NAME%''),
              (''flags'', JStr ''%RESPONSE_FLAGS%''), (''bytes_up'', JStr ''%BYTES_RECEIVED%''), (''bytes_down'', JStr ''%BYTES_SENT%'')])])])]])]"

definition perRoute :: "string list \<Rightarrow> json" where
  "perRoute ips = JObj [(''envoy.filters.http.rbac'', rbacPerRoute ips)]"

definition tls_vhost :: "string \<Rightarrow> int \<Rightarrow> HostKey \<Rightarrow> string list \<Rightarrow> json" where
  "tls_vhost hash tunnelMax k ips = JObj [
     (''name'', JStr (''h_'' @ hash)), (''domains'', JArr [JStr (hk_Host k @ '':443'')]), (''typed_per_filter_config'', perRoute ips),
     (''routes'', JArr [JObj [
        (''match'', JObj [(''connect_matcher'', JObj [])]),
        (''route'', JObj [
           (''cluster'', JStr (''sni_'' @ hash)),
           (''max_stream_duration'', JObj [(''max_stream_duration'', JStr (Itoa (int_seconds tunnelMax) @ ''s''))]),
           (''upgrade_configs'', JArr [JObj [(''upgrade_type'', JStr ''CONNECT''), (''connect_config'', JObj [])]])])]])]"

definition sni_cluster :: "string \<Rightarrow> json" where
  "sni_cluster sni = JObj [
     (''name'', JStr sni),
     (''load_assignment'', JObj [(''cluster_name'', JStr sni), (''endpoints'', JArr [JObj [(''lb_endpoints'', JArr [JObj [
        (''endpoint'', JObj [(''address'', JObj [(''envoy_internal_address'', JObj [(''server_listener_name'', JStr sni)])])])]])]])])]"

definition http_vhost :: "string \<Rightarrow> HostKey \<Rightarrow> string list \<Rightarrow> json" where
  "http_vhost hash k ips = JObj [
     (''name'', JStr (''h_'' @ hash)), (''domains'', JArr [JStr (hk_Host k), JStr (hk_Host k @ '':80'')]),
     (''typed_per_filter_config'', perRoute ips),
     (''routes'', JArr [JObj [(''match'', JObj [(''prefix'', JStr ''/'')]), (''route'', JObj [(''cluster'', JStr ''dfp_http'')])]])]"

definition deny_vhost :: json where
  "deny_vhost = JObj [(''name'', JStr ''deny''), (''domains'', JArr [JStr ''*'']), (''routes'', JArr [
     JObj [(''match'', JObj [(''connect_matcher'', JObj [])]), (''direct_response'', JObj [(''status'', JNum 403)])],
     JObj [(''match'', JObj [(''prefix'', JStr ''/'')]), (''direct_response'', JObj [(''status'', JNum 403)])]])]"

definition build_key :: "Params \<Rightarrow> HostKey \<Rightarrow> json list \<times> json list \<times> json list \<Rightarrow> json list \<times> json list \<times> json list" where
  \<comment> \<open>one round of the loop over the sorted keys\<close>
  "build_key p k = (\<lambda>(listeners, clusters, vhosts).
     let ips = get_or [] (Hosts p) k; hash = hashName k ips in
     if hk_Port k = 443 then
       (listeners @ [sniListener (''sni_'' @ hash) (hk_Host k)], clusters @ [sni_cluster (''sni_'' @ hash)],
        vhosts @ [tls_vhost hash (TunnelMax p) k ips])
     else (listeners, clusters, vhosts @ [http_vhost hash k ips]))"

definition objects :: "Params \<Rightarrow> json list \<times> json list \<times> json list" where
  \<comment> \<open>listeners, clusters and virtual hosts before decoding\<close>
  "objects p =
     (case fold (build_key p) (sort (map fst (Hosts p)))
        ([proxyListener (RequestURL p)], [dfpCluster ''dfp_http'', dfpCluster ''dfp_sni''], []) of
        (listeners, clusters, vhosts) \<Rightarrow> (listeners, clusters, vhosts @ [deny_vhost]))"

definition route_config :: "json list \<Rightarrow> json" where
  "route_config vhosts = JObj [(''name'', JStr RouteName), (''virtual_hosts'', JArr vhosts)]"

definition obj_name :: "json \<Rightarrow> string" where
  "obj_name j = (case jfield ''name'' j of Some (JStr n) \<Rightarrow> n | _ \<Rightarrow> [])"

fun decode_all :: "(string \<Rightarrow> json \<Rightarrow> string + 'm) \<Rightarrow> string \<Rightarrow> string \<Rightarrow> json list \<Rightarrow> string + 'm list" where
  "decode_all decode what t [] = Inr []"
| "decode_all decode what t (x # xs) = (case decode t x of Inl e \<Rightarrow> Inl (what @ '' '' @ obj_name x @ '': '' @ e) | Inr m \<Rightarrow>
     (case decode_all decode what t xs of Inl e \<Rightarrow> Inl e | Inr ms \<Rightarrow> Inr (m # ms)))"

record 'm resources =
  listener_type :: "'m list"
  cluster_type :: "'m list"
  route_type :: "'m list"

definition Build :: "(string \<Rightarrow> json \<Rightarrow> string + 'm) \<Rightarrow> Params \<Rightarrow> string + 'm resources" where
  "Build decode p =
     (if Contains (RequestURL p) ''%'' then Inl ''request URL must not contain %''
      else case objects p of (listeners, clusters, vhosts) \<Rightarrow>
        (case decode_all decode ''listener'' ''Listener'' listeners of Inl e \<Rightarrow> Inl e | Inr ls \<Rightarrow>
        (case decode_all decode ''cluster'' ''Cluster'' clusters of Inl e \<Rightarrow> Inl e | Inr cs \<Rightarrow>
        (case decode ''RouteConfiguration'' (route_config vhosts) of Inl e \<Rightarrow> Inl (''route: '' @ e) | Inr rc \<Rightarrow>
           Inr \<lparr>listener_type = ls, cluster_type = cs, route_type = [rc]\<rparr>))))"

end
