(* ===== verification/Envoy.thy ===== *)
theory Envoy
  imports Xds
begin

text \<open>
  Envoy, which is not part of the repository, as a parameter: what the built configuration relies on of it. The locale
  \<open>vhost_choice\<close> states how a virtual host is chosen for the authority of a request (the exact domain first, then the
  longest wildcard, then the catch-all, on a configuration whose domains are unique); the locale \<open>envoy_proxy\<close> adds what
  is documented of RBAC rules (\<^verbatim>\<open>envoy.config.rbac.v3\<close>: actions, policies, permissions and principals), of the RBAC
  filter and its override per virtual host, of the order of the HTTP filters, and of matching and carrying out a route.
  The laws only speak of the features that the code uses and say nothing of a configuration outside them. The locale
  \<open>local_replies\<close> states how the text of a local reply is made from the mappers of the connection manager and
  their format operators. The locales are interpreted on functions that behave so.
\<close>

section \<open>Reading a configuration\<close>

definition strs :: "json list \<Rightarrow> string list" where
  "strs js = concat (map (\<lambda>j. case j of JStr s \<Rightarrow> [s] | _ \<Rightarrow> []) js)"

definition domains_of :: "json \<Rightarrow> string list" where
  "domains_of v = strs (jarr (jfield ''domains'' v))"

section \<open>Choosing a virtual host\<close>

definition dmatch :: "string \<Rightarrow> string \<Rightarrow> bool" where
  \<comment> \<open>a wildcard does not match the empty string\<close>
  "dmatch d a \<longleftrightarrow> d = a \<or> (d \<noteq> [] \<and> hd d = CHR ''*'' \<and> HasSuffix a (tl d) \<and> length (tl d) < length a)"

definition rank :: "string \<Rightarrow> string \<Rightarrow> nat" where
  "rank a d = (if d = a then Suc (length a) else length d)"

locale vhost_choice =
  fixes pick :: "json list \<Rightarrow> string \<Rightarrow> json option"
  assumes pick_best: "distinct (concat (map domains_of vs)) \<Longrightarrow> v \<in> set vs \<Longrightarrow> d \<in> set (domains_of v) \<Longrightarrow> dmatch d a \<Longrightarrow>
    (\<And>v' d'. v' \<in> set vs \<Longrightarrow> d' \<in> set (domains_of v') \<Longrightarrow> dmatch d' a \<Longrightarrow> d' \<noteq> d \<Longrightarrow> rank a d' < rank a d) \<Longrightarrow> pick vs a = Some v"

definition envoy_pick :: "json list \<Rightarrow> string \<Rightarrow> json option" where
  "envoy_pick vs a =
     (let ms = sort_key (\<lambda>m. rank a (fst m)) (filter (\<lambda>m. dmatch (fst m) a) (concat (map (\<lambda>v. map (\<lambda>d. (d, v)) (domains_of v)) vs)))
      in if ms = [] then None else Some (snd (last ms)))"

interpretation envoy: vhost_choice envoy_pick
proof
  fix vs v d a
  let ?all = "concat (map (\<lambda>v. map (\<lambda>d. (d, v)) (domains_of v)) vs)"
  let ?ms = "sort_key (\<lambda>m. rank a (fst m)) (filter (\<lambda>m. dmatch (fst m) a) ?all)"
  assume dist: "distinct (concat (map domains_of vs))" and v: "v \<in> set vs" "d \<in> set (domains_of v)" "dmatch d a"
    and best: "\<And>v' d'. v' \<in> set vs \<Longrightarrow> d' \<in> set (domains_of v') \<Longrightarrow> dmatch d' a \<Longrightarrow> d' \<noteq> d \<Longrightarrow> rank a d' < rank a d"
  have set: "m \<in> set ?ms \<longleftrightarrow> dmatch (fst m) a \<and> snd m \<in> set vs \<and> fst m \<in> set (domains_of (snd m))" for m by (cases m) auto
  have dv: "(d, v) \<in> set ?ms" unfolding set using v by simp
  then have ne: "?ms \<noteq> []" by (metis empty_iff list.set(1))
  have fst_all: "map fst ?all = concat (map domains_of vs)" by (induction vs) (simp_all add: comp_def)
  then have inj: "inj_on fst (set ?all)" using dist by (metis distinct_map)
  have "sorted (map (\<lambda>m. rank a (fst m)) ?ms)" by (rule sorted_sort_key)
  note le = sorted_last [OF this dv]
  obtain d' v' where last: "last ?ms = (d', v')" by (cases "last ?ms")
  have l: "(d', v') \<in> set ?ms" unfolding last [symmetric] using ne by (rule last_in_set)
  have m: "dmatch d' a" "v' \<in> set vs" "d' \<in> set (domains_of v')" using set [of "(d', v')"] l by auto
  have le': "rank a d \<le> rank a d'" using le unfolding last by simp
  have "d' = d" using best [OF m(2,3,1)] le' by linarith
  moreover have "(d', v') \<in> set ?all" "(d, v) \<in> set ?all" using m v by auto
  ultimately have "(d, v') = (d, v)" using inj_onD [OF inj, of "(d, v')" "(d, v)"] by simp
  then have "v' = v" by simp
  with \<open>d' = d\<close> last have "last ?ms = (d, v)" by simp
  then show "envoy_pick vs a = Some v" using ne by (simp add: envoy_pick_def Let_def)
qed

section \<open>Answering a request\<close>

record ereq =
  q_connect :: bool \<comment> \<open>the method is CONNECT\<close>
  q_authority :: string
  q_path :: string
  q_ip :: string \<comment> \<open>the address the connection comes from\<close>

datatype verdict =
    Forward string \<comment> \<open>to this cluster\<close>
  | LocalReply int \<comment> \<open>a local reply with this status\<close>

fun dots :: "string \<Rightarrow> string \<Rightarrow> string list" where
  "dots cur [] = [cur]"
| "dots cur (c # s) = (if c = CHR ''.'' then cur # dots [] s else dots (cur @ [c]) s)"

definition octet :: "string \<Rightarrow> bool" where
  "octet s \<longleftrightarrow> s \<noteq> [] \<and> list_all is_digit s \<and> (length s = 1 \<or> hd s \<noteq> CHR ''0'') \<and>
     (length s < 3 \<or> length s = 3 \<and> fst (ParseUint s) \<le> 255)"

definition ipv4 :: "string \<Rightarrow> bool" where
  \<comment> \<open>an IPv4 address in its usual notation; a prefix of 32 bits of such an address is the address itself\<close>
  "ipv4 s \<longleftrightarrow> length (dots [] s) = 4 \<and> list_all octet (dots [] s)"

definition type_of :: "json \<Rightarrow> string" where
  "type_of j = (case jfield ''@type'' j of Some (JStr t) \<Rightarrow> t | _ \<Rightarrow> [])"

definition http_filters :: "json \<Rightarrow> json list" where
  "http_filters h = jarr (jfield ''http_filters'' h)"

definition filter_type :: "json \<Rightarrow> string" where
  "filter_type f = (case jfield ''typed_config'' f of Some c \<Rightarrow> type_of c | None \<Rightarrow> [])"

definition is_rbac :: "json \<Rightarrow> bool" where
  "is_rbac f \<longleftrightarrow> filter_type f = ''type.googleapis.com/envoy.extensions.filters.http.rbac.v3.RBAC''"

definition is_dfp :: "json \<Rightarrow> bool" where
  "is_dfp f \<longleftrightarrow> filter_type f = ''type.googleapis.com/envoy.extensions.filters.http.dynamic_forward_proxy.v3.FilterConfig''"

definition is_router :: "json \<Rightarrow> bool" where
  "is_router f \<longleftrightarrow> filter_type f = ''type.googleapis.com/envoy.extensions.filters.http.router.v3.Router''"

definition rules_for :: "json \<Rightarrow> json \<Rightarrow> json option" where
  \<comment> \<open>the rules of an RBAC filter on a virtual host: those of the override under the name of the filter, if there is one\<close>
  "rules_for f v = (case jpath [''typed_per_filter_config'', obj_name f] v of
      None \<Rightarrow> jpath [''typed_config'', ''rules''] f
    | Some c \<Rightarrow> if type_of c = ''type.googleapis.com/envoy.extensions.filters.http.rbac.v3.RBACPerRoute'' then jpath [''rbac'', ''rules''] c else None)"

definition rbac_policies :: "json \<Rightarrow> json list" where
  "rbac_policies rules = (case jfield ''policies'' rules of Some (JObj fs) \<Rightarrow> map snd fs | _ \<Rightarrow> [])"

definition route_matches :: "json \<Rightarrow> ereq \<Rightarrow> bool" where
  "route_matches r q = (case jpath [''match'', ''connect_matcher''] r of
      Some _ \<Rightarrow> q_connect q
    | None \<Rightarrow> (case jpath [''match'', ''prefix''] r of Some (JStr p) \<Rightarrow> \<not> q_connect q \<and> HasPrefix (q_path q) p | _ \<Rightarrow> False))"

definition first_route :: "json \<Rightarrow> ereq \<Rightarrow> json option" where
  \<comment> \<open>the first route that matches\<close>
  "first_route v q = find (\<lambda>r. route_matches r q) (jarr (jfield ''routes'' v))"

definition tunnels :: "json \<Rightarrow> json \<Rightarrow> bool" where
  \<comment> \<open>CONNECT is enabled for the listener and carried out on the route\<close>
  "tunnels h r \<longleftrightarrow> JObj [(''upgrade_type'', JStr ''CONNECT'')] \<in> set (jarr (jfield ''upgrade_configs'' h)) \<and>
     JObj [(''upgrade_type'', JStr ''CONNECT''), (''connect_config'', JObj [])] \<in> set (jarr (jpath [''route'', ''upgrade_configs''] r))"

record envoy =
  ev_pick :: "json list \<Rightarrow> string \<Rightarrow> json option"
  ev_permission :: "json \<Rightarrow> ereq \<Rightarrow> bool"
  ev_principal :: "json \<Rightarrow> ereq \<Rightarrow> bool"
  ev_rbac :: "json \<Rightarrow> ereq \<Rightarrow> bool" \<comment> \<open>RBAC rules let a request pass\<close>
  ev_respond :: "json \<Rightarrow> json list \<Rightarrow> ereq \<Rightarrow> verdict" \<comment> \<open>a connection manager with the virtual hosts of its routes\<close>

definition hits :: "envoy \<Rightarrow> json \<Rightarrow> ereq \<Rightarrow> bool" where
  \<comment> \<open>a policy matches when one of its permissions and one of its principals do\<close>
  "hits V pol q \<longleftrightarrow> (\<exists>x \<in> set (jarr (jfield ''permissions'' pol)). ev_permission V x q) \<and>
     (\<exists>x \<in> set (jarr (jfield ''principals'' pol)). ev_principal V x q)"

locale envoy_proxy = vhost_choice "ev_pick V" for V :: envoy +
  assumes permission_any: "ev_permission V (JObj [(''any'', JBool True)]) q"
    and principal_ip: "ipv4 a \<Longrightarrow> ipv4 (q_ip q) \<Longrightarrow>
      ev_principal V (JObj [(''direct_remote_ip'', JObj [(''address_prefix'', JStr a), (''prefix_len'', JNum 32)])]) q \<longleftrightarrow> q_ip q = a"
    and rbac_allow: "jfield ''action'' rules = Some (JStr ''ALLOW'') \<Longrightarrow> ev_rbac V rules q \<longleftrightarrow> (\<exists>pol \<in> set (rbac_policies rules). hits V pol q)"
    and rbac_deny: "jfield ''action'' rules = Some (JStr ''DENY'') \<Longrightarrow> ev_rbac V rules q \<longleftrightarrow> \<not> (\<exists>pol \<in> set (rbac_policies rules). hits V pol q)"
    and filter_refuses: "http_filters h = fs @ [rt] \<Longrightarrow> is_router rt \<Longrightarrow> list_all (\<lambda>f. is_rbac f \<or> is_dfp f) fs \<Longrightarrow>
      ev_pick V vs (q_authority q) = Some v \<Longrightarrow> first_route v q \<noteq> None \<Longrightarrow>
      f \<in> set fs \<Longrightarrow> is_rbac f \<Longrightarrow> rules_for f v = Some rules \<Longrightarrow> \<not> ev_rbac V rules q \<Longrightarrow> ev_respond V h vs q = LocalReply 403"
    and filters_pass: "http_filters h = fs @ [rt] \<Longrightarrow> is_router rt \<Longrightarrow> list_all (\<lambda>f. is_rbac f \<or> is_dfp f) fs \<Longrightarrow>
      ev_pick V vs (q_authority q) = Some v \<Longrightarrow> first_route v q = Some r \<Longrightarrow>
      (\<And>f. f \<in> set fs \<Longrightarrow> is_rbac f \<Longrightarrow> \<exists>rules. rules_for f v = Some rules \<and> ev_rbac V rules q) \<Longrightarrow>
      jpath [''route'', ''cluster''] r = Some (JStr c) \<Longrightarrow> (q_connect q \<Longrightarrow> tunnels h r) \<Longrightarrow> ev_respond V h vs q = Forward c"

section \<open>A proxy that behaves so\<close>

definition envoy_principal :: "json \<Rightarrow> ereq \<Rightarrow> bool" where
  "envoy_principal j q \<longleftrightarrow> j = JObj [(''direct_remote_ip'', JObj [(''address_prefix'', JStr (q_ip q)), (''prefix_len'', JNum 32)])]"

definition envoy_permission :: "json \<Rightarrow> ereq \<Rightarrow> bool" where
  "envoy_permission j q \<longleftrightarrow> j = JObj [(''any'', JBool True)]"

definition envoy_rbac :: "json \<Rightarrow> ereq \<Rightarrow> bool" where
  "envoy_rbac rules q =
     (let hit = (\<exists>pol \<in> set (rbac_policies rules). (\<exists>x \<in> set (jarr (jfield ''permissions'' pol)). envoy_permission x q) \<and>
                  (\<exists>x \<in> set (jarr (jfield ''principals'' pol)). envoy_principal x q))
      in if jfield ''action'' rules = Some (JStr ''DENY'') then \<not> hit else hit)"

definition envoy_respond :: "json \<Rightarrow> json list \<Rightarrow> ereq \<Rightarrow> verdict" where
  "envoy_respond h vs q = (case envoy_pick vs (q_authority q) of
      None \<Rightarrow> LocalReply 404
    | Some v \<Rightarrow>
        (case first_route v q of
           None \<Rightarrow> LocalReply 404
         | Some r \<Rightarrow>
             if \<exists>f \<in> set (http_filters h). is_rbac f \<and> (case rules_for f v of None \<Rightarrow> False | Some rules \<Rightarrow> \<not> envoy_rbac rules q) then LocalReply 403
             else (case jpath [''route'', ''cluster''] r of
                Some (JStr c) \<Rightarrow> if q_connect q \<and> \<not> tunnels h r then LocalReply 403 else Forward c
              | _ \<Rightarrow> (case jpath [''direct_response'', ''status''] r of Some (JNum n) \<Rightarrow> LocalReply n | _ \<Rightarrow> LocalReply 404))))"

definition envoy_spec :: envoy where
  "envoy_spec = \<lparr>ev_pick = envoy_pick, ev_permission = envoy_permission, ev_principal = envoy_principal, ev_rbac = envoy_rbac,
     ev_respond = envoy_respond\<rparr>"

interpretation proxy: envoy_proxy envoy_spec
proof
  fix vs v d a
  assume "distinct (concat (map domains_of vs))" "v \<in> set vs" "d \<in> set (domains_of v)" "dmatch d a"
    "\<And>v' d'. v' \<in> set vs \<Longrightarrow> d' \<in> set (domains_of v') \<Longrightarrow> dmatch d' a \<Longrightarrow> d' \<noteq> d \<Longrightarrow> rank a d' < rank a d"
  then show "ev_pick envoy_spec vs a = Some v" unfolding envoy_spec_def envoy.simps by (rule envoy.pick_best)
next
  fix h fs rt vs q v r c
  assume a: "http_filters h = fs @ [rt]" "is_router rt" "list_all (\<lambda>f. is_rbac f \<or> is_dfp f) fs" "ev_pick envoy_spec vs (q_authority q) = Some v"
    "first_route v q = Some r" "\<And>f. f \<in> set fs \<Longrightarrow> is_rbac f \<Longrightarrow> \<exists>rules. rules_for f v = Some rules \<and> ev_rbac envoy_spec rules q"
    "jpath [''route'', ''cluster''] r = Some (JStr c)" "q_connect q \<Longrightarrow> tunnels h r"
  have "\<not> is_rbac rt" using a(2) by (simp add: is_router_def is_rbac_def)
  then have "\<not> (\<exists>f \<in> set (http_filters h). is_rbac f \<and> (case rules_for f v of None \<Rightarrow> False | Some rules \<Rightarrow> \<not> envoy_rbac rules q))"
  proof (intro notI)
    assume "\<exists>f \<in> set (http_filters h). is_rbac f \<and> (case rules_for f v of None \<Rightarrow> False | Some rules \<Rightarrow> \<not> envoy_rbac rules q)"
    then obtain f rules where f: "f \<in> set fs" "is_rbac f" "rules_for f v = Some rules" "\<not> envoy_rbac rules q"
      using \<open>\<not> is_rbac rt\<close> by (auto simp: a(1) split: option.splits)
    then show False using a(6) [OF f(1,2)] by (simp add: envoy_spec_def)
  qed
  then show "ev_respond envoy_spec h vs q = Forward c" using a(4,5,7,8) by (auto simp: envoy_respond_def envoy_spec_def)
next
  fix h fs rt vs q v f rules
  assume a: "http_filters h = fs @ [rt]" "ev_pick envoy_spec vs (q_authority q) = Some v" "first_route v q \<noteq> None"
    "f \<in> set fs" "is_rbac f" "rules_for f v = Some rules" "\<not> ev_rbac envoy_spec rules q"
  then have "\<exists>f \<in> set (http_filters h). is_rbac f \<and> (case rules_for f v of None \<Rightarrow> False | Some rules \<Rightarrow> \<not> envoy_rbac rules q)"
    by (intro bexI [of _ f]) (simp_all add: envoy_spec_def)
  moreover obtain r where "first_route v q = Some r" using a(3) by blast
  ultimately show "ev_respond envoy_spec h vs q = LocalReply 403" using a(2) by (simp add: envoy_respond_def envoy_spec_def)
next
  fix rules q
  show "jfield ''action'' rules = Some (JStr ''ALLOW'') \<Longrightarrow> ev_rbac envoy_spec rules q \<longleftrightarrow> (\<exists>pol \<in> set (rbac_policies rules). hits envoy_spec pol q)"
    "jfield ''action'' rules = Some (JStr ''DENY'') \<Longrightarrow> ev_rbac envoy_spec rules q \<longleftrightarrow> \<not> (\<exists>pol \<in> set (rbac_policies rules). hits envoy_spec pol q)"
    by (simp_all add: envoy_spec_def envoy_rbac_def hits_def Let_def)
qed (auto simp: envoy_spec_def envoy_permission_def envoy_principal_def)

section \<open>The text of a local reply\<close>

definition mapper_for :: "int \<Rightarrow> json \<Rightarrow> bool" where
  \<comment> \<open>a mapper of the local replies with this status, as long as nobody sets its runtime key\<close>
  "mapper_for n m \<longleftrightarrow> jpath [''filter'', ''status_code_filter'', ''comparison'', ''op''] m = Some (JStr ''EQ'') \<and>
     jpath [''filter'', ''status_code_filter'', ''comparison'', ''value'', ''default_value''] m = Some (JNum n)"

definition reply_format :: "json \<Rightarrow> int \<Rightarrow> string option" where
  "reply_format h n = (case find (mapper_for n) (jarr (jpath [''local_reply_config'', ''mappers''] h)) of
      None \<Rightarrow> None
    | Some m \<Rightarrow> (case jpath [''body_format_override'', ''text_format_source'', ''inline_string''] m of Some (JStr s) \<Rightarrow> Some s | _ \<Rightarrow> None))"

abbreviation fmt_authority :: string where
  "fmt_authority \<equiv> ''%REQ(:AUTHORITY)%''"

abbreviation fmt_address :: string where
  "fmt_address \<equiv> ''%DOWNSTREAM_REMOTE_ADDRESS_WITHOUT_PORT%''"

locale local_replies =
  fixes expand :: "string \<Rightarrow> ereq \<Rightarrow> string" and body :: "json \<Rightarrow> int \<Rightarrow> ereq \<Rightarrow> string"
  assumes expand_none: "expand [] q = []"
    and expand_plain: "CHR ''%'' \<notin> set t \<Longrightarrow> expand (t @ s) q = t @ expand s q"
    and expand_authority: "expand (fmt_authority @ s) q = q_authority q @ expand s q"
    and expand_address: "expand (fmt_address @ s) q = q_ip q @ expand s q"
    and body_mapped: "reply_format h n = Some s \<Longrightarrow> body h n q = expand s q"
begin

lemma deny_text:
  assumes "CHR ''%'' \<notin> set url"
  shows "expand (deny_body url) q = ''sandcastle: egress to '' @ q_authority q @ '' is not allowed for this workspace.'' @ [CHR 0x0A] @
    ''Request access: '' @ url @ ''?src='' @ q_ip q @ ''&host='' @ q_authority q @ [CHR 0x0A]"
proof -
  have d: "deny_body url = ''sandcastle: egress to '' @ fmt_authority @ '' is not allowed for this workspace.'' @ [CHR 0x0A] @ ''Request access: '' @ url @ ''?src='' @
      fmt_address @ ''&host='' @ fmt_authority @ [CHR 0x0A] @ []"
    by (simp add: deny_body_def)
  have p: "CHR ''%'' \<notin> set ''sandcastle: egress to ''" "CHR ''%'' \<notin> set '' is not allowed for this workspace.''" "CHR ''%'' \<notin> set [CHR 0x0A]"
    "CHR ''%'' \<notin> set ''Request access: ''" "CHR ''%'' \<notin> set ''?src=''" "CHR ''%'' \<notin> set ''&host=''"
    by simp_all
  show ?thesis unfolding d
    by (simp only: p [THEN expand_plain] expand_plain [OF assms] expand_authority expand_address expand_none expand_plain [OF p(3), of "[]", unfolded append_Nil2] append_Nil2)
qed

lemma refusal_text:
  assumes "CHR ''%'' \<notin> set url"
  shows "body (hcm url) 403 q = ''sandcastle: egress to '' @ q_authority q @ '' is not allowed for this workspace.'' @ [CHR 0x0A] @
    ''Request access: '' @ url @ ''?src='' @ q_ip q @ ''&host='' @ q_authority q @ [CHR 0x0A]"
proof -
  have "reply_format (hcm url) 403 = Some (deny_body url)"
    by (simp add: reply_format_def hcm_def typed_def jpath_def mapper_for_def)
  then show ?thesis using body_mapped deny_text [OF assms] by metis
qed

end

fun expand_from :: "nat \<Rightarrow> string \<Rightarrow> ereq \<Rightarrow> string" where
  \<comment> \<open>the first argument counts what is left to skip of an operator\<close>
  "expand_from k [] q = []"
| "expand_from (Suc k) (c # s) q = expand_from k s q"
| "expand_from 0 (c # s) q =
     (if HasPrefix (c # s) fmt_authority then q_authority q @ expand_from (length fmt_authority - 1) s q
      else if HasPrefix (c # s) fmt_address then q_ip q @ expand_from (length fmt_address - 1) s q
      else c # expand_from 0 s q)"

definition envoy_body :: "json \<Rightarrow> int \<Rightarrow> ereq \<Rightarrow> string" where
  "envoy_body h n q = (case reply_format h n of Some s \<Rightarrow> expand_from 0 s q | None \<Rightarrow> [])"

lemma expand_skip: "expand_from (length t) (t @ s) q = expand_from 0 s q"
  by (induction t) auto

interpretation replies: local_replies "expand_from 0" envoy_body
proof
  fix t s q
  show "CHR ''%'' \<notin> set t \<Longrightarrow> expand_from 0 (t @ s) q = t @ expand_from 0 s q"
    by (induction t) (auto simp: HasPrefix_def)
  show "expand_from 0 (fmt_authority @ s) q = q_authority q @ expand_from 0 s q"
    using expand_skip [of "tl fmt_authority" s q] by (simp add: HasPrefix_def)
  show "expand_from 0 (fmt_address @ s) q = q_ip q @ expand_from 0 s q"
    using expand_skip [of "tl fmt_address" s q] by (simp add: HasPrefix_def)
qed (simp_all add: envoy_body_def)

end
