(* ===== verification/Egress.thy ===== *)
theory Egress
  imports Envoy
begin

text \<open>
  What the built configuration means to a proxy with the laws of \<open>envoy_proxy\<close>: a request is forwarded exactly when some
  pod with the address of the client has an effective rule for the host, and is answered with 403 otherwise. The merge in
  \<open>HostIPs\<close> and Envoy's preference for the most specific domain together implement the allow list.
\<close>

section \<open>Definitions\<close>

definition hcm_of :: "json \<Rightarrow> json option" where
  \<comment> \<open>the connection manager of a listener, its first filter\<close>
  "hcm_of l = (case jarr (jfield ''filter_chains'' l) of
      [] \<Rightarrow> None
    | fc # _ \<Rightarrow> (case jarr (jfield ''filters'' fc) of
        f # _ \<Rightarrow> if obj_name f = ''envoy.filters.network.http_connection_manager'' then jfield ''typed_config'' f else None
      | [] \<Rightarrow> None))"

definition vhost_of :: "Params \<Rightarrow> HostKey \<Rightarrow> json" where
  "vhost_of p k = (let ips = get_or [] (Hosts p) k; hash = hashName k ips
     in if hk_Port k = 443 then tls_vhost hash (TunnelMax p) k ips else http_vhost hash k ips)"

definition sni_name :: "Params \<Rightarrow> HostKey \<Rightarrow> string" where
  "sni_name p k = ''sni_'' @ hashName k (get_or [] (Hosts p) k)"

definition doms :: "HostKey \<Rightarrow> string list" where
  "doms k = (if hk_Port k = 443 then [hk_Host k @ '':443''] else [hk_Host k, hk_Host k @ '':80''])"

definition authorities :: "HostKey \<Rightarrow> string set" where
  \<comment> \<open>how a client may name the destination: a port may be left out for plain HTTP\<close>
  "authorities k = set (doms k)"

section \<open>Facts on the built objects\<close>

definition asks :: "string \<Rightarrow> int \<Rightarrow> ereq \<Rightarrow> bool" where
  \<comment> \<open>a tunnel to port 443 or a plain request on port 80\<close>
  "asks host port q \<longleftrightarrow> q_authority q \<in> authorities (HostKey host port) \<and>
     (if port = 443 then q_connect q else \<not> q_connect q \<and> HasPrefix (q_path q) ''/'')"

definition cluster_for :: "Params \<Rightarrow> HostKey \<Rightarrow> string" where
  "cluster_for p k = (if hk_Port k = 443 then sni_name p k else ''dfp_http'')"

lemma vhost_parts:
  "domains_of (vhost_of p k) = doms k" "domains_of deny_vhost = [''*'']"
  by (simp_all add: domains_of_def vhost_of_def tls_vhost_def http_vhost_def deny_vhost_def doms_def Let_def strs_def)

definition rbac_filter :: json where
  "rbac_filter = JObj [(''name'', JStr ''envoy.filters.http.rbac''),
     (''typed_config'', typed ''envoy.extensions.filters.http.rbac.v3.RBAC'' [(''rules'', JObj [(''action'', JStr ''ALLOW'')])])]"

definition ip_principal :: "string \<Rightarrow> json" where
  "ip_principal ip = JObj [(''direct_remote_ip'', JObj [(''address_prefix'', JStr ip), (''prefix_len'', JNum 32)])]"

definition host_rules :: "string list \<Rightarrow> json" where
  "host_rules ips = JObj [(''action'', JStr ''ALLOW''), (''policies'', JObj [(''workspaces'',
     JObj [(''permissions'', JArr [JObj [(''any'', JBool True)]]), (''principals'', JArr (map ip_principal ips))])])]"

lemma hcm_filters:
  obtains dfp rt where "http_filters (hcm url) = [rbac_filter, dfp] @ [rt]" "is_dfp dfp" "is_router rt"
  by (simp add: http_filters_def hcm_def typed_def rbac_filter_def is_dfp_def is_router_def filter_type_def type_of_def)

lemma rbac_filter_rbac: "is_rbac rbac_filter" "\<not> is_dfp rbac_filter"
  by (simp_all add: rbac_filter_def is_rbac_def is_dfp_def filter_type_def type_of_def typed_def)

lemma dfp_not_rbac: "is_dfp f \<Longrightarrow> \<not> is_rbac f"
  by (simp add: is_dfp_def is_rbac_def)

lemma vhost_rules:
  "rules_for rbac_filter (vhost_of p k) = Some (host_rules (get_or [] (Hosts p) k))"
  "rules_for rbac_filter deny_vhost = Some (JObj [(''action'', JStr ''ALLOW'')])"
  by (simp_all add: rules_for_def rbac_filter_def obj_name_def vhost_of_def tls_vhost_def http_vhost_def deny_vhost_def perRoute_def
      rbacPerRoute_def host_rules_def ip_principal_def typed_def type_of_def jpath_def Let_def)

lemma vhost_route:
  assumes "if hk_Port k = 443 then q_connect q else \<not> q_connect q \<and> HasPrefix (q_path q) ''/''"
  obtains r where "first_route (vhost_of p k) q = Some r" "jpath [''route'', ''cluster''] r = Some (JStr (cluster_for p k))"
    "q_connect q \<Longrightarrow> tunnels (hcm url) r"
  using assms by (auto simp: first_route_def route_matches_def vhost_of_def tls_vhost_def http_vhost_def cluster_for_def sni_name_def tunnels_def
      hcm_def typed_def jpath_def Let_def split: if_splits)

lemma deny_route: "q_connect q \<or> HasPrefix (q_path q) ''/'' \<Longrightarrow> first_route deny_vhost q \<noteq> None"
  by (auto simp: first_route_def route_matches_def deny_vhost_def jpath_def)

lemma build_key_fold:
  "fold (build_key p) ks (l, c, v) = (l @ map (\<lambda>k. sniListener (sni_name p k) (hk_Host k)) (filter (\<lambda>k. hk_Port k = 443) ks),
     c @ map (\<lambda>k. sni_cluster (sni_name p k)) (filter (\<lambda>k. hk_Port k = 443) ks), v @ map (vhost_of p) ks)"
  by (induction ks arbitrary: l c v) (simp_all add: build_key_def vhost_of_def sni_name_def Let_def)

lemma objects_form:
  "objects p = (proxyListener (RequestURL p) # map (\<lambda>k. sniListener (sni_name p k) (hk_Host k)) (filter (\<lambda>k. hk_Port k = 443) (sort (map fst (Hosts p)))),
     [dfpCluster ''dfp_http'', dfpCluster ''dfp_sni''] @ map (\<lambda>k. sni_cluster (sni_name p k)) (filter (\<lambda>k. hk_Port k = 443) (sort (map fst (Hosts p)))),
     map (vhost_of p) (sort (map fst (Hosts p))) @ [deny_vhost])"
  by (simp add: objects_def build_key_fold)

section \<open>Domains and the keys they stand for\<close>

lemma valid_host_end:
  assumes "ValidName h"
  shows "h \<noteq> []" "CHR '':'' \<notin> set h" "CHR ''a'' \<le> last h"
proof -
  obtain w ls t where t: "tld_ok t" "h = w @ dotted ls @ t" "ls \<noteq> []"
    using assms unfolding ValidName_iff fqdn_def by (metis append.left_neutral)
  then have "t \<noteq> []" by (auto simp: tld_ok_def)
  then show "h \<noteq> []" "CHR ''a'' \<le> last h" using t by (auto simp: tld_ok_def)
  show "CHR '':'' \<notin> set h" using ValidName_chars [OF assms, of "CHR '':''"] by (auto simp: alnum_def)
qed

definition port_text :: "string \<Rightarrow> int \<Rightarrow> bool" where
  \<comment> \<open>how a domain or an authority ends for a port\<close>
  "port_text e port \<longleftrightarrow> (port = 443 \<and> e = '':443'') \<or> (port = 80 \<and> (e = [] \<or> e = '':80''))"

lemma doms_iff: "hk_Port k = 443 \<or> hk_Port k = 80 \<Longrightarrow> d \<in> set (doms k) \<longleftrightarrow> (\<exists>e. port_text e (hk_Port k) \<and> d = hk_Host k @ e)"
  by (auto simp: doms_def port_text_def)

lemma port_text_colon:
  assumes "CHR '':'' \<notin> set x" "port_text y q"
  shows "takeWhile (\<lambda>c. c \<noteq> CHR '':'') (x @ y) = x" "dropWhile (\<lambda>c. c \<noteq> CHR '':'') (x @ y) = y"
proof -
  have y: "takeWhile (\<lambda>c. c \<noteq> CHR '':'') y = []" "dropWhile (\<lambda>c. c \<noteq> CHR '':'') y = y"
    using assms(2) by (auto simp: port_text_def)
  have x: "c \<in> set x \<Longrightarrow> c \<noteq> CHR '':''" for c using assms(1) by metis
  show "takeWhile (\<lambda>c. c \<noteq> CHR '':'') (x @ y) = x" "dropWhile (\<lambda>c. c \<noteq> CHR '':'') (x @ y) = y"
    using takeWhile_append2 [of x "\<lambda>c. c \<noteq> CHR '':''" y, OF x] dropWhile_append2 [of x "\<lambda>c. c \<noteq> CHR '':''" y, OF x] y by simp_all
qed

lemma cut_colon:
  assumes "h @ e = h' @ e'" "CHR '':'' \<notin> set h" "CHR '':'' \<notin> set h'" "port_text e p" "port_text e' p'"
  shows "h = h' \<and> e = e'"
proof -
  have "h = h'" using port_text_colon(1) [OF assms(2,4)] port_text_colon(1) [OF assms(3,5)] assms(1) by simp
  with assms(1) show ?thesis by simp
qed

lemma port_text_unique: "port_text e p \<Longrightarrow> port_text e p' \<Longrightarrow> p = p'"
  by (auto simp: port_text_def)

lemma HasSuffix_append_same: "HasSuffix (x @ e) (y @ e) \<longleftrightarrow> HasSuffix x y"
  by (auto simp: HasSuffix_iff)

lemma dmatch_host:
  assumes v: "ValidName (hk_Host k)" "hk_Port k = 443 \<or> hk_Port k = 80" and h: "fqdn host" "ValidName host"
    and d: "port_text e' (hk_Port k)" and e: "port_text e port"
  shows "dmatch (hk_Host k @ e') (host @ e) \<longleftrightarrow> e' = e \<and> (k = HostKey host port \<or> covers k (HostKey host port))"
proof -
  note vk = valid_host_end [OF v(1)] and vh = valid_host_end [OF h(2)]
  have eqk: "k = HostKey (hk_Host k) (hk_Port k)" by simp
  have exact: "hk_Host k @ e' = host @ e \<longleftrightarrow> e' = e \<and> k = HostKey host port"
    using cut_colon [OF _ vk(2) vh(2) d e] port_text_unique [OF d] e by (cases k) auto
  have star: "hd (hk_Host k @ e') = CHR ''*'' \<longleftrightarrow> (\<exists>s. hk_Host k = CHR ''*'' # s)"
    using vk(1) by (cases "hk_Host k") auto
  have wild: "HasSuffix (host @ e) (s @ e') \<and> length (s @ e') < length (host @ e) \<longleftrightarrow>
      e' = e \<and> covers k (HostKey host port)" if s: "hk_Host k = CHR ''*'' # s" for s
  proof -
    obtain t where t: "s = CHR ''.'' # t" "fqdn t" using ValidName_star v(1) s by metis
    have ns: "CHR '':'' \<notin> set s" "s \<noteq> []" using vk(2) s t by auto
    have "k \<noteq> HostKey host port" using s fqdn_chars [OF h(1), of "CHR ''*''"] by (cases k) auto
    have short: "length s < length host" if suf: "HasSuffix host s"
    proof -
      obtain x where x: "host = x @ s" using suf by (auto simp: HasSuffix_iff)
      then have "x \<noteq> []" using fqdn_hd [OF h(1)] t by auto
      then show ?thesis using x by simp
    qed
    have "HasSuffix (host @ e) (s @ e') \<longleftrightarrow> e' = e \<and> HasSuffix host s"
    proof
      assume "HasSuffix (host @ e) (s @ e')"
      then obtain x where x: "host @ e = (x @ s) @ e'" by (auto simp: HasSuffix_iff)
      have "CHR '':'' \<notin> set (x @ s)"
      proof
        assume "CHR '':'' \<in> set (x @ s)"
        then have "CHR '':'' \<in> set x" using ns by simp
        then obtain a b where ab: "x = a @ CHR '':'' # b" by (meson split_list)
        have drop: "set (u @ w) \<subseteq> set (dropWhile (\<lambda>c. c \<noteq> CHR '':'') (z @ CHR '':'' # u @ w))" for z u w
          by (induction z) auto
        have "host @ e = a @ CHR '':'' # (b @ s) @ e'" using x ab by simp
        then have "set ((b @ s) @ e') \<subseteq> set e" using drop [of "b @ s" e' a] port_text_colon(2) [OF vh(2) e] by simp
        then have "last s \<in> set e" using ns(2) by auto
        moreover have "CHR ''a'' \<le> last s" using vk(3) s ns(2) by simp
        ultimately show False using e by (auto simp: port_text_def)
      qed
      then have "host = x @ s \<and> e = e'" by (intro cut_colon [OF x vh(2) _ e d])
      then show "e' = e \<and> HasSuffix host s" by (auto simp: HasSuffix_iff)
    qed (auto simp: HasSuffix_append_same)
    moreover have "e' = e \<Longrightarrow> hk_Port k = port" using port_text_unique d e by blast
    ultimately show ?thesis
      using short \<open>k \<noteq> HostKey host port\<close> s by (auto simp: covers_def)
  qed
  show ?thesis
  proof (cases "\<exists>s. hk_Host k = CHR ''*'' # s")
    case True
    then obtain s where s: "hk_Host k = CHR ''*'' # s" by blast
    then show ?thesis unfolding dmatch_def exact using wild [OF s] by auto
  next
    case False
    then have "\<not> covers k (HostKey host port)" by (auto simp: covers_def)
    then show ?thesis unfolding dmatch_def exact using star False by auto
  qed
qed

section \<open>Unique domains\<close>

lemma doms_disjoint:
  assumes "ValidName (hk_Host k)" "hk_Port k = 443 \<or> hk_Port k = 80" "ValidName (hk_Host k')" "hk_Port k' = 443 \<or> hk_Port k' = 80"
    "d \<in> set (doms k)" "d \<in> set (doms k')"
  shows "k = k'"
proof -
  obtain e e' where e: "port_text e (hk_Port k)" "d = hk_Host k @ e" "port_text e' (hk_Port k')" "d = hk_Host k' @ e'"
    using assms doms_iff by blast
  have "hk_Host k @ e = hk_Host k' @ e'" using e by simp
  from cut_colon [OF this valid_host_end(2) [OF assms(1)] valid_host_end(2) [OF assms(3)] e(1,3)]
  have eq: "hk_Host k = hk_Host k'" "e = e'" by simp_all
  have "hk_Port k = hk_Port k'" using e(3) unfolding eq(2) [symmetric] by (rule port_text_unique [OF e(1)])
  with eq(1) show ?thesis by (simp add: HostKey.expand)
qed

lemma doms_distinct: "distinct (doms k)"
  by (simp add: doms_def)

lemma star_not_dom: "ValidName (hk_Host k) \<Longrightarrow> ''*'' \<notin> set (doms k)"
  using valid_host_end [of "hk_Host k"] by (cases "hk_Host k"; auto simp: doms_def)

definition keys_ok :: "HostKey list \<Rightarrow> bool" where
  "keys_ok ks \<longleftrightarrow> distinct ks \<and> (\<forall>k \<in> set ks. ValidName (hk_Host k) \<and> (hk_Port k = 443 \<or> hk_Port k = 80))"

lemma domains_distinct:
  assumes "keys_ok ks"
  shows "distinct (concat (map domains_of (map (vhost_of p) ks @ [deny_vhost])))"
proof -
  have "distinct (concat (map doms ks))"
    using assms
  proof (induction ks)
    case (Cons k ks)
    have "set (doms k) \<inter> set (doms k') = {}" if "k' \<in> set ks" for k'
      using Cons.prems that doms_disjoint [of k k'] by (auto simp: keys_ok_def)
    with Cons show ?case by (auto simp: keys_ok_def doms_distinct)
  qed simp
  moreover have "''*'' \<notin> set (concat (map doms ks))" using assms star_not_dom by (auto simp: keys_ok_def)
  moreover have "map domains_of (map (vhost_of p) ks) = map doms ks" by (simp add: vhost_parts)
  ultimately show ?thesis by (simp add: vhost_parts del: map_map)
qed

section \<open>Whom the configuration admits\<close>

definition candidate :: "string \<Rightarrow> int \<Rightarrow> HostKey \<Rightarrow> bool" where
  "candidate host port k \<longleftrightarrow> k = HostKey host port \<or> covers k (HostKey host port)"

lemma candidate_rank:
  assumes "candidate host port k" "candidate host port k'" "fqdn host" "rank (host @ e) (hk_Host k @ e) \<le> rank (host @ e) (hk_Host k' @ e)"
    "ValidName (hk_Host k)" "ValidName (hk_Host k')"
  shows "k = k' \<or> covers k k'"
proof (cases "k' = HostKey host port")
  case True
  then show ?thesis using assms(1) by (auto simp: candidate_def)
next
  case False
  then obtain s' where s': "hk_Host k' = CHR ''*'' # s'" "HasSuffix host s'" "hk_Port k' = port"
    using assms(2) by (auto simp: candidate_def covers_def)
  have len': "rank (host @ e) (hk_Host k' @ e) = Suc (length s') + length e \<and> length s' < length host"
  proof -
    have "CHR ''*'' \<notin> set host" using fqdn_chars [OF assms(3), of "CHR ''*''"] by auto
    then have "hk_Host k' \<noteq> host" using s'(1) by auto
    moreover obtain t where "s' = CHR ''.'' # t" using ValidName_star assms(6) s'(1) by metis
    moreover obtain x where "host = x @ s'" using s'(2) by (auto simp: HasSuffix_iff)
    ultimately show ?thesis using s'(1) fqdn_hd [OF assms(3)] by (cases x) (auto simp: rank_def)
  qed
  have ne: "k \<noteq> HostKey host port" using assms(4) len' by (auto simp: rank_def)
  then obtain s where s: "hk_Host k = CHR ''*'' # s" "HasSuffix host s" "hk_Port k = port"
    using assms(1) by (auto simp: candidate_def covers_def)
  have "length s \<le> length s'"
    using assms(4) len' s(1) by (auto simp: rank_def split: if_splits)
  then have suf: "HasSuffix s' s"
    using s(2) s'(2) by (metis HasSuffix_suffix suffix_length_suffix)
  show ?thesis
  proof (cases "s = s'")
    case True
    then show ?thesis using s s' by (cases k; cases k') simp
  next
    case False
    have "HasSuffix (hk_Host k') s" using suf s'(1) by (simp add: HasSuffix_suffix suffix_ConsI)
    then show ?thesis using s s' False by (auto simp: covers_def)
  qed
qed

context vhost_choice
begin

lemma pick_key:
  assumes ks: "keys_ok ks" and h: "fqdn host" "ValidName host" and e: "port_text e port"
    and w: "w \<in> set ks" "candidate host port w"
    and max: "\<And>k. k \<in> set ks \<Longrightarrow> candidate host port k \<Longrightarrow> rank (host @ e) (hk_Host k @ e) \<le> rank (host @ e) (hk_Host w @ e)"
  shows "pick (map (vhost_of p) ks @ [deny_vhost]) (host @ e) = Some (vhost_of p w)"
proof (rule pick_best [OF domains_distinct [OF ks]])
  let ?d = "hk_Host w @ e" and ?a = "host @ e"
  have vw: "ValidName (hk_Host w)" "hk_Port w = 443 \<or> hk_Port w = 80" using ks w(1) by (auto simp: keys_ok_def)
  have pw: "hk_Port w = port" using w(2) by (auto simp: candidate_def covers_def)
  show "vhost_of p w \<in> set (map (vhost_of p) ks @ [deny_vhost])" using w(1) by simp
  show "?d \<in> set (domains_of (vhost_of p w))" using doms_iff [OF vw(2)] e pw by (auto simp: vhost_parts)
  show "dmatch ?d ?a" using dmatch_host [OF vw h _ e] e pw w(2) by (simp add: candidate_def)
  fix v' d'
  assume v': "v' \<in> set (map (vhost_of p) ks @ [deny_vhost])" and d': "d' \<in> set (domains_of v')" and m: "dmatch d' ?a" and ne: "d' \<noteq> ?d"
  show "rank ?a d' < rank ?a ?d"
  proof (cases "v' = deny_vhost")
    case True
    then have d'': "d' = ''*''" using d' by (simp add: vhost_parts)
    have "length ?d > 1"
    proof -
      obtain t where "hk_Host w = host \<or> hk_Host w = CHR ''*'' # CHR ''.'' # t"
        using vw(1) w(2) ValidName_star by (fastforce simp: candidate_def covers_def)
      moreover have "length host > 1" using h(2) valid_host_end(1) unfolding ValidName_iff fqdn_def dotted_def tld_ok_def by fastforce
      ultimately show ?thesis by auto
    qed
    moreover have "CHR ''*'' \<notin> set host" using fqdn_chars [OF h(1), of "CHR ''*''"] by auto
    then have "?a \<noteq> ''*''" using fqdn_hd [OF h(1)] by (cases host) auto
    then have "''*'' \<noteq> ?a" by metis
    ultimately show ?thesis using d'' by (auto simp: rank_def)
  next
    case False
    then obtain k where k: "k \<in> set ks" "v' = vhost_of p k" using v' by auto
    then have vk: "ValidName (hk_Host k)" "hk_Port k = 443 \<or> hk_Port k = 80" using ks by (auto simp: keys_ok_def)
    obtain e' where e': "port_text e' (hk_Port k)" "d' = hk_Host k @ e'" using d' doms_iff [OF vk(2)] k(2) by (auto simp: vhost_parts)
    have c: "e' = e" "candidate host port k" using m dmatch_host [OF vk h e'(1) e] e'(2) by (auto simp: candidate_def)
    then have le: "rank ?a d' \<le> rank ?a ?d" using max [OF k(1)] e'(2) by simp
    have "rank ?a d' \<noteq> rank ?a ?d"
    proof
      assume eq: "rank ?a d' = rank ?a ?d"
      then have "k = w \<or> covers k w" "w = k \<or> covers w k"
        using candidate_rank [OF c(2) w(2) h(1) _ vk(1) vw(1), of e] candidate_rank [OF w(2) c(2) h(1) _ vw(1) vk(1), of e] c(1) e'(2) by auto
      then have "k = w" using covers_trans [OF vk(1) _ vw(1), of k] covers_irrefl by blast
      then show False using ne c(1) e'(2) by simp
    qed
    with le show ?thesis by simp
  qed
qed

lemma pick_deny:
  assumes ks: "keys_ok ks" and h: "fqdn host" "ValidName host" and e: "port_text e port"
    and none: "\<And>k. k \<in> set ks \<Longrightarrow> \<not> candidate host port k"
  shows "pick (map (vhost_of p) ks @ [deny_vhost]) (host @ e) = Some deny_vhost"
proof (rule pick_best [OF domains_distinct [OF ks]])
  show "deny_vhost \<in> set (map (vhost_of p) ks @ [deny_vhost])" "''*'' \<in> set (domains_of deny_vhost)" by (simp_all add: vhost_parts)
  show "dmatch ''*'' (host @ e)" using valid_host_end(1) [OF h(2)] by (simp add: dmatch_def HasSuffix_def)
  fix v' d'
  assume v': "v' \<in> set (map (vhost_of p) ks @ [deny_vhost])" and d': "d' \<in> set (domains_of v')" and m: "dmatch d' (host @ e)" and ne: "d' \<noteq> ''*''"
  then obtain k where k: "k \<in> set ks" "v' = vhost_of p k" by (auto simp: vhost_parts)
  then have vk: "ValidName (hk_Host k)" "hk_Port k = 443 \<or> hk_Port k = 80" using ks by (auto simp: keys_ok_def)
  obtain e' where e': "port_text e' (hk_Port k)" "d' = hk_Host k @ e'" using d' doms_iff [OF vk(2)] k(2) by (auto simp: vhost_parts)
  then have "candidate host port k" using m dmatch_host [OF vk h e'(1) e] by (auto simp: candidate_def)
  with none [OF k(1)] show "rank (host @ e) d' < rank (host @ e) ''*''" by simp
qed

lemma best_key:
  assumes ks: "keys_ok (sort (map fst (Hosts p)))" and h: "fqdn host" "ValidName host" and e: "port_text e port"
    and vs: "vhosts = map (vhost_of p) (sort (map fst (Hosts p))) @ [deny_vhost]"
    and lookup: "\<And>k. k \<in> fst ` set (Hosts p) \<longleftrightarrow> direct_ips inp k \<noteq> {}"
      "\<And>k. k \<in> fst ` set (Hosts p) \<Longrightarrow> set (get_or [] (Hosts p) k) = allowed_ips inp k"
  obtains (none) "pick vhosts (host @ e) = Some deny_vhost" "\<And>k. candidate host port k \<Longrightarrow> direct_ips inp k = {}"
    | (key) w where "w \<in> fst ` set (Hosts p)" "candidate host port w" "pick vhosts (host @ e) = Some (vhost_of p w)"
        "set (get_or [] (Hosts p) w) = {ip. \<exists>k. candidate host port k \<and> ip \<in> direct_ips inp k}"
proof (cases "\<exists>k \<in> set (sort (map fst (Hosts p))). candidate host port k")
  case False
  then have "pick vhosts (host @ e) = Some deny_vhost" unfolding vs by (intro pick_deny [OF ks h e]) auto
  moreover have "direct_ips inp k = {}" if "candidate host port k" for k
    using False that lookup(1) [of k] by auto
  ultimately show ?thesis by (rule none)
next
  case True
  let ?ks = "sort (map fst (Hosts p))"
  let ?C = "{k \<in> set ?ks. candidate host port k}" and ?f = "\<lambda>k. rank (host @ e) (hk_Host k @ e)"
  have fin: "finite (?f ` ?C)" "?f ` ?C \<noteq> {}" using True by auto
  then obtain w where w: "w \<in> ?C" "?f w = Max (?f ` ?C)" using Max_in [OF fin] by (metis (no_types, lifting) imageE)
  have max: "?f k \<le> ?f w" if "k \<in> set ?ks" "candidate host port k" for k
    unfolding w(2) using fin(1) that by (intro Max_ge) auto
  have valid: "ValidName (hk_Host k)" if "direct_ips inp k \<noteq> {}" for k using direct_ips_valid [OF that] by simp
  have wv: "ValidName (hk_Host w)" using w(1) ks by (auto simp: keys_ok_def)
  have "ip \<in> allowed_ips inp w \<longleftrightarrow> (\<exists>k. candidate host port k \<and> ip \<in> direct_ips inp k)" for ip
  proof
    assume "ip \<in> allowed_ips inp w"
    then consider "ip \<in> direct_ips inp w" | k where "covers k w" "ip \<in> direct_ips inp k" by (auto simp: allowed_ips_def)
    then show "\<exists>k. candidate host port k \<and> ip \<in> direct_ips inp k"
    proof cases
      case 2
      have "covers k (HostKey host port)"
        using w(1) 2 covers_trans [OF valid 2(1) wv] by (auto simp: candidate_def)
      then show ?thesis using 2(2) by (auto simp: candidate_def)
    qed (use w(1) in auto)
  next
    assume "\<exists>k. candidate host port k \<and> ip \<in> direct_ips inp k"
    then obtain k where k: "candidate host port k" "ip \<in> direct_ips inp k" by blast
    then have "k \<in> set ?ks" using lookup(1) [of k] by auto
    from max [OF this k(1)] have "k = w \<or> covers k w"
      using w(1) k valid wv by (intro candidate_rank [OF k(1) _ h(1), where e = e]) auto
    then show "ip \<in> allowed_ips inp w" using k(2) by (auto simp: allowed_ips_def)
  qed
  moreover have "pick vhosts (host @ e) = Some (vhost_of p w)"
    unfolding vs by (rule pick_key [OF ks h e]) (use w(1) max in auto)
  ultimately show ?thesis using w(1) lookup(2) [of w] by (intro key) auto
qed

end

section \<open>Answers\<close>

context envoy_proxy
begin

lemma host_rules_pass:
  assumes "\<forall>ip \<in> set ips. ipv4 ip" "ipv4 (q_ip q)"
  shows "ev_rbac V (host_rules ips) q \<longleftrightarrow> q_ip q \<in> set ips"
proof -
  have "ev_rbac V (host_rules ips) q \<longleftrightarrow> (\<exists>pol \<in> set (rbac_policies (host_rules ips)). hits V pol q)"
    by (rule rbac_allow) (simp add: host_rules_def)
  also have "\<dots> \<longleftrightarrow> (\<exists>ip \<in> set ips. ev_principal V (ip_principal ip) q)"
    by (simp add: host_rules_def rbac_policies_def hits_def permission_any)
  also have "\<dots> \<longleftrightarrow> q_ip q \<in> set ips" using assms principal_ip by (auto simp: ip_principal_def)
  finally show ?thesis .
qed

lemma deny_rules_pass: "\<not> ev_rbac V (JObj [(''action'', JStr ''ALLOW'')]) q"
  by (subst rbac_allow) (simp_all add: rbac_policies_def)

lemma respond_host:
  assumes "ev_pick V vs (q_authority q) = Some (vhost_of p k)"
    and "if hk_Port k = 443 then q_connect q else \<not> q_connect q \<and> HasPrefix (q_path q) ''/''"
    and "\<forall>ip \<in> set (get_or [] (Hosts p) k). ipv4 ip" "ipv4 (q_ip q)"
  shows "ev_respond V (hcm url) vs q = (if q_ip q \<in> set (get_or [] (Hosts p) k) then Forward (cluster_for p k) else LocalReply 403)"
proof -
  obtain dfp rt where f: "http_filters (hcm url) = [rbac_filter, dfp] @ [rt]" "is_dfp dfp" "is_router rt" by (rule hcm_filters)
  then have all: "list_all (\<lambda>f. is_rbac f \<or> is_dfp f) [rbac_filter, dfp]" by (simp add: rbac_filter_rbac)
  obtain r where r: "first_route (vhost_of p k) q = Some r" "jpath [''route'', ''cluster''] r = Some (JStr (cluster_for p k))"
    "q_connect q \<Longrightarrow> tunnels (hcm url) r" using vhost_route [OF assms(2)] by blast
  note rules = vhost_rules(1) [of p k] and pass = host_rules_pass [OF assms(3,4)]
  show ?thesis
  proof (cases "q_ip q \<in> set (get_or [] (Hosts p) k)")
    case True
    have "ev_respond V (hcm url) vs q = Forward (cluster_for p k)"
      by (rule filters_pass [OF f(1,3) all assms(1) r(1) _ r(2,3)]) (use True rules pass dfp_not_rbac [OF f(2)] in auto)
    then show ?thesis using True by simp
  next
    case False
    have "ev_respond V (hcm url) vs q = LocalReply 403"
      by (rule filter_refuses [OF f(1,3) all assms(1) _ _ rbac_filter_rbac(1) rules]) (use False pass r(1) in auto)
    then show ?thesis using False by simp
  qed
qed

lemma respond_deny:
  assumes "ev_pick V vs (q_authority q) = Some deny_vhost" "q_connect q \<or> HasPrefix (q_path q) ''/''"
  shows "ev_respond V (hcm url) vs q = LocalReply 403"
proof -
  obtain dfp rt where f: "http_filters (hcm url) = [rbac_filter, dfp] @ [rt]" "is_dfp dfp" "is_router rt" by (rule hcm_filters)
  then have all: "list_all (\<lambda>f. is_rbac f \<or> is_dfp f) [rbac_filter, dfp]" by (simp add: rbac_filter_rbac)
  show ?thesis
    by (rule filter_refuses [OF f(1,3) all assms(1) deny_route [OF assms(2)] _ rbac_filter_rbac(1) vhost_rules(2) deny_rules_pass]) simp
qed

end

lemma hcm_of_proxy: "hcm_of (proxyListener url) = Some (hcm url)"
  by (simp add: hcm_of_def proxyListener_def obj_name_def)

lemma cluster_for_built:
  assumes "objects p = (ls, cs, vhosts)" "k \<in> fst ` set (Hosts p)"
  shows "cluster_for p k \<in> obj_name ` set cs"
proof -
  have n: "obj_name (sni_cluster n) = n" "obj_name (dfpCluster n) = n" for n
    by (simp_all add: sni_cluster_def dfpCluster_def obj_name_def)
  have "cs = [dfpCluster ''dfp_http'', dfpCluster ''dfp_sni''] @
      map (\<lambda>k. sni_cluster (sni_name p k)) (filter (\<lambda>k. hk_Port k = 443) (sort (map fst (Hosts p))))"
    using assms(1) by (simp add: objects_form)
  then have "obj_name ` set cs = {''dfp_http'', ''dfp_sni''} \<union> sni_name p ` {k \<in> fst ` set (Hosts p). hk_Port k = 443}"
    by (simp only: set_append set_map set_filter set_sort list.set image_Un image_image image_insert image_empty n)
  then show ?thesis using assms(2) by (simp add: cluster_for_def)
qed

definition rule_for :: "string \<Rightarrow> int \<Rightarrow> Rule \<Rightarrow> bool" where
  \<comment> \<open>a rule for the host itself or for a wildcard above it, on this port\<close>
  "rule_for host port r \<longleftrightarrow> Port r = port \<and> (Value r = host \<or> (\<exists>s. Value r = CHR ''*'' # s \<and> HasSuffix host s))"

lemma egress_answer:
  assumes "envoy_proxy V" "\<And>ks. set (ord ks) = set ks" "\<And>wk ks. set (ord' wk ks) = set ks"
    "ValidName host" "CHR ''*'' \<notin> set host" "port = 443 \<or> port = 80" "asks host port q"
    "Hosts p = HostIPs ord ord' inp" "objects p = (ls, cs, vhosts)"
    "\<forall>pod \<in> set (Pods inp). IP pod = [] \<or> ipv4 (IP pod)" "ipv4 (q_ip q)"
  shows "\<exists>h. hcm_of (hd ls) = Some h \<and>
    (if \<exists>pod \<in> set (Pods inp). IP pod = q_ip q \<and> (\<exists>r \<in> set (Effective inp (ID pod) ''host''). rule_for host port r)
     then \<exists>c \<in> obj_name ` set cs. ev_respond V h vhosts q = Forward c
     else ev_respond V h vhosts q = LocalReply 403)"
proof -
  have port: "if port = 443 then q_connect q else \<not> q_connect q \<and> HasPrefix (q_path q) ''/''" using assms(7) by (simp add: asks_def)
  obtain e where e: "port_text e port" "q_authority q = host @ e"
    using assms(6,7) doms_iff [of "HostKey host port" "q_authority q"] by (auto simp: authorities_def asks_def)
  have fq: "fqdn host" using assms(4,5) by (auto elim: ValidName_cases)
  note lookup = HostIPs_lookup [where ord = ord and ord' = ord', OF assms(2,3)]
    and keys = HostIPs_keys [where ord = ord and ord' = ord' and inp = inp, OF assms(3)]
  have ks: "keys_ok (sort (map fst (Hosts p)))"
    using keys direct_ips_valid by (auto simp: keys_ok_def assms(8))
  have look: "set (get_or [] (Hosts p) k) = allowed_ips inp k" if "k \<in> fst ` set (Hosts p)" for k
    using that keys(2) [where k = k] lookup [where inp = inp and k = k] by (simp add: assms(8) get_or_def finite_allowed_ips)
  have mem: "k \<in> fst ` set (Hosts p) \<longleftrightarrow> direct_ips inp k \<noteq> {}" for k using keys(2) [where k = k] by (simp add: assms(8))
  have cand: "candidate host port (HostKey (Value r) (Port r)) \<longleftrightarrow> rule_for host port r" for r
    using assms(5) by (auto simp: candidate_def covers_def rule_for_def)
  have nonempty: "q_ip q \<noteq> []" using assms(11) by (auto simp: ipv4_def)
  have ok: "(\<exists>k. candidate host port k \<and> q_ip q \<in> direct_ips inp k) \<longleftrightarrow>
      (\<exists>pod \<in> set (Pods inp). IP pod = q_ip q \<and> (\<exists>r \<in> set (Effective inp (ID pod) ''host''). rule_for host port r))"
    (is "?l \<longleftrightarrow> ?r")
  proof
    show "?l \<Longrightarrow> ?r" by (auto simp: direct_ips_def cand [symmetric])
    assume ?r
    then obtain pod r where r: "pod \<in> set (Pods inp)" "IP pod = q_ip q" "r \<in> set (Effective inp (ID pod) ''host'')" "rule_for host port r" by blast
    then have "q_ip q \<in> direct_ips inp (HostKey (Value r) (Port r))" using nonempty by (auto simp: direct_ips_def intro!: exI [of _ pod])
    then show ?l using r(4) cand by blast
  qed
  have h: "hcm_of (hd ls) = Some (hcm (RequestURL p))" and vs: "vhosts = map (vhost_of p) (sort (map fst (Hosts p))) @ [deny_vhost]"
    using assms(9) by (auto simp: objects_form hcm_of_proxy)
  from envoy_proxy.axioms(1) [OF assms(1)] have vc: "vhost_choice (ev_pick V)" .
  have cases: "thesis" if "ev_pick V vhosts (host @ e) = Some deny_vhost \<Longrightarrow> (\<And>k. candidate host port k \<Longrightarrow> direct_ips inp k = {}) \<Longrightarrow> thesis"
    "\<And>w. w \<in> fst ` set (Hosts p) \<Longrightarrow> candidate host port w \<Longrightarrow> ev_pick V vhosts (host @ e) = Some (vhost_of p w) \<Longrightarrow>
       set (get_or [] (Hosts p) w) = {ip. \<exists>k. candidate host port k \<and> ip \<in> direct_ips inp k} \<Longrightarrow> thesis" for thesis
    by (rule vhost_choice.best_key [OF vc ks fq assms(4) e(1) vs, of inp]) (use mem look that in blast)+
  show ?thesis
  proof (rule cases, goal_cases)
    case 1
    then have "ev_respond V (hcm (RequestURL p)) vhosts q = LocalReply 403"
      by (intro envoy_proxy.respond_deny [OF assms(1)]) (use port e(2) in \<open>auto split: if_splits\<close>)
    moreover have "\<not> (\<exists>k. candidate host port k \<and> q_ip q \<in> direct_ips inp k)" using 1(2) by auto
    ultimately show ?thesis using h ok by auto
  next
    case (2 w)
    have "hk_Port w = port" using 2(2) by (auto simp: candidate_def covers_def)
    moreover have "ipv4 ip" if "ip \<in> set (get_or [] (Hosts p) w)" for ip
      using that assms(10) unfolding 2(4) by (auto simp: direct_ips_def)
    ultimately have "ev_respond V (hcm (RequestURL p)) vhosts q = (if q_ip q \<in> set (get_or [] (Hosts p) w) then Forward (cluster_for p w) else LocalReply 403)"
      using 2(3) e(2) port assms(11) by (intro envoy_proxy.respond_host [OF assms(1)]) auto
    moreover have "q_ip q \<in> set (get_or [] (Hosts p) w) \<longleftrightarrow>
      (\<exists>pod \<in> set (Pods inp). IP pod = q_ip q \<and> (\<exists>r \<in> set (Effective inp (ID pod) ''host''). rule_for host port r))"
      unfolding 2(4) using ok by simp
    ultimately show ?thesis using h cluster_for_built [OF assms(9) 2(1)] by auto
  qed
qed

section \<open>Properties\<close>

text \<open>C2. End to end: with the hosts that HostIPs computes, the connection manager of the first listener and the virtual hosts that Build
  makes, a proxy with the documented behaviour of Envoy forwards a CONNECT to port 443, or a plain request on port 80, of a valid
  host name exactly when the IPv4 address of the client is that of a pod whose workspace has an effective host rule on
  that port for the host itself or for a wildcard above it, and then to a cluster that was built; else it answers 403. This holds
  whatever the map iteration orders, and for every way to write the authority (the port may be left out for plain HTTP).\<close>

theorem egress_admitted:
  assumes "envoy_proxy V" "\<And>ks. set (ord ks) = set ks" "\<And>wk ks. set (ord' wk ks) = set ks"
    "ValidName host" "CHR ''*'' \<notin> set host" "port = 443 \<or> port = 80" "asks host port q"
    "Hosts p = HostIPs ord ord' inp" "objects p = (ls, cs, vhosts)"
    "\<forall>pod \<in> set (Pods inp). IP pod = [] \<or> ipv4 (IP pod)" "ipv4 (q_ip q)"
  shows "\<exists>h. hcm_of (hd ls) = Some h \<and>
    (if \<exists>pod \<in> set (Pods inp). IP pod = q_ip q \<and> (\<exists>r \<in> set (Effective inp (ID pod) ''host''). rule_for host port r)
     then \<exists>c \<in> obj_name ` set cs. ev_respond V h vhosts q = Forward c
     else ev_respond V h vhosts q = LocalReply 403)"
  by (rule egress_answer [OF assms])

definition route_clusters :: "json \<Rightarrow> string list" where
  \<comment> \<open>the clusters that the routes of a virtual host name\<close>
  "route_clusters v = strs (concat (map (\<lambda>r. case jpath [''route'', ''cluster''] r of None \<Rightarrow> [] | Some c \<Rightarrow> [c]) (jarr (jfield ''routes'' v))))"

definition endpoint_listeners :: "json \<Rightarrow> string list" where
  \<comment> \<open>the internal listeners that the endpoints of a cluster name\<close>
  "endpoint_listeners c = strs (concat (map (\<lambda>ep. concat (map (\<lambda>lb.
      case jpath [''endpoint'', ''address'', ''envoy_internal_address'', ''server_listener_name''] lb of None \<Rightarrow> [] | Some l \<Rightarrow> [l])
      (jarr (jfield ''lb_endpoints'' ep)))) (jarr (jpath [''load_assignment'', ''endpoints''] c))))"

definition server_names :: "json \<Rightarrow> string list" where
  "server_names l = strs (concat (map (\<lambda>f. jarr (jpath [''filter_chain_match'', ''server_names''] f)) (jarr (jfield ''filter_chains'' l))))"

text \<open>C24. A built configuration is closed and stable: the proxy listener comes first and depends on the request URL
  only, so that pushes never drain it; no domain occurs twice; every cluster a route names is built; every
  internal listener an endpoint names is built; and a tunnel for a host ends in a listener that
  accepts only this host as TLS server name.\<close>

theorem objects_closed:
  assumes "keys_ok (map fst (Hosts p))" "objects p = (ls, cs, vhosts)"
  shows "hd ls = proxyListener (RequestURL p) \<and> distinct (concat (map domains_of vhosts)) \<and>
    (\<forall>v \<in> set vhosts. set (route_clusters v) \<subseteq> obj_name ` set cs) \<and>
    (\<forall>c \<in> set cs. set (endpoint_listeners c) \<subseteq> obj_name ` set ls) \<and>
    (\<forall>k \<in> fst ` set (Hosts p). hk_Port k = 443 \<longrightarrow> (\<exists>v \<in> set vhosts. \<exists>c \<in> set cs. \<exists>l \<in> set ls.
       domains_of v = [hk_Host k @ '':443''] \<and> route_clusters v = [obj_name c] \<and> endpoint_listeners c = [obj_name l] \<and> server_names l = [hk_Host k]))"
proof -
  let ?ks = "sort (map fst (Hosts p))"
  have ks: "keys_ok ?ks" using assms(1) by (auto simp: keys_ok_def)
  have o: "ls = proxyListener (RequestURL p) # map (\<lambda>k. sniListener (sni_name p k) (hk_Host k)) (filter (\<lambda>k. hk_Port k = 443) ?ks)"
    "cs = [dfpCluster ''dfp_http'', dfpCluster ''dfp_sni''] @ map (\<lambda>k. sni_cluster (sni_name p k)) (filter (\<lambda>k. hk_Port k = 443) ?ks)"
    "vhosts = map (vhost_of p) ?ks @ [deny_vhost]"
    using assms(2) by (simp_all add: objects_form)
  have rv: "route_clusters (vhost_of p k) = (if hk_Port k = 443 then [sni_name p k] else [''dfp_http''])" for k
    by (simp add: route_clusters_def vhost_of_def tls_vhost_def http_vhost_def Let_def jpath_def strs_def sni_name_def)
  have rd: "route_clusters deny_vhost = []" by (simp add: route_clusters_def deny_vhost_def jpath_def strs_def)
  have es: "endpoint_listeners (sni_cluster n) = [n]" "obj_name (sni_cluster n) = n" for n
    by (simp_all add: endpoint_listeners_def sni_cluster_def jpath_def strs_def obj_name_def)
  have ed: "endpoint_listeners (dfpCluster n) = []" "obj_name (dfpCluster n) = n" for n
    by (simp_all add: endpoint_listeners_def dfpCluster_def jpath_def strs_def obj_name_def)
  have sl: "obj_name (sniListener n h) = n" "server_names (sniListener n h) = [h]" for n h
    by (simp_all add: sniListener_def server_names_def jpath_def strs_def obj_name_def)
  show ?thesis
  proof (intro conjI ballI impI)
    show "hd ls = proxyListener (RequestURL p)" by (simp add: o(1))
    show "distinct (concat (map domains_of vhosts))" unfolding o(3) by (rule domains_distinct [OF ks])
    show "set (route_clusters v) \<subseteq> obj_name ` set cs" if "v \<in> set vhosts" for v
    proof -
      have names: "obj_name ` set cs = {''dfp_http'', ''dfp_sni''} \<union> sni_name p ` {k \<in> set ?ks. hk_Port k = 443}"
        by (auto simp: o(2) es ed image_image)
      consider "v = deny_vhost" | k where "k \<in> set ?ks" "v = vhost_of p k" using \<open>v \<in> set vhosts\<close> by (auto simp: o(3))
      then show ?thesis by cases (auto simp: names rd rv)
    qed
    show "set (endpoint_listeners c) \<subseteq> obj_name ` set ls" if "c \<in> set cs" for c
    proof -
      have names: "sni_name p ` {k \<in> set ?ks. hk_Port k = 443} \<subseteq> obj_name ` set ls" by (auto simp: o(1) sl image_image)
      consider n where "c = dfpCluster n" | k where "k \<in> set ?ks" "hk_Port k = 443" "c = sni_cluster (sni_name p k)"
        using \<open>c \<in> set cs\<close> by (auto simp: o(2))
      then show ?thesis using names by cases (auto simp: es ed)
    qed
    fix k assume k: "k \<in> fst ` set (Hosts p)" "hk_Port k = 443"
    then show "\<exists>v \<in> set vhosts. \<exists>c \<in> set cs. \<exists>l \<in> set ls.
       domains_of v = [hk_Host k @ '':443''] \<and> route_clusters v = [obj_name c] \<and> endpoint_listeners c = [obj_name l] \<and> server_names l = [hk_Host k]"
      by (intro bexI [of _ "vhost_of p k"] bexI [of _ "sni_cluster (sni_name p k)"] bexI [of _ "sniListener (sni_name p k) (hk_Host k)"])
        (auto simp: o vhost_parts doms_def rv es sl)
  qed
qed

definition demo_params :: Params where
  "demo_params = \<lparr>Hosts = HostIPs id (\<lambda>_. id) demo_input, RequestURL = ''http://10.0.0.9/r'', TunnelMax = 3600000000000\<rparr>"

definition connect_to :: "string \<Rightarrow> string \<Rightarrow> ereq" where
  "connect_to authority ip = \<lparr>q_connect = True, q_authority = authority, q_path = [], q_ip = ip\<rparr>"

theorem egress_admitted_witness:
  "let (ls, cs, vhosts) = objects demo_params in \<exists>h. hcm_of (hd ls) = Some h \<and>
     (\<exists>c. envoy_respond h vhosts (connect_to ''api.github.com:443'' ''10.0.0.1'') = Forward c) \<and>
     envoy_respond h vhosts (connect_to ''api.github.com:443'' ''10.0.0.3'') = LocalReply 403 \<and>
     envoy_respond h vhosts (connect_to ''pypi.org:443'' ''10.0.0.1'') = LocalReply 403"
proof -
  obtain ls cs vhosts where run: "objects demo_params = (ls, cs, vhosts)" by (cases "objects demo_params")
  have valid: "ValidName ''api.github.com''" "ValidName ''pypi.org''" by code_simp+
  have ip: "ipv4 ''10.0.0.1''" "ipv4 ''10.0.0.2''" "ipv4 ''10.0.0.3''" by code_simp+
  have ords: "\<And>ks :: HostKey list. set (id ks) = set ks" "\<And>(wk :: HostKey) ks :: HostKey list. set (id ks) = set ks" by simp_all
  have hosts: "Hosts demo_params = HostIPs id (\<lambda>_. id) demo_input" by (simp add: demo_params_def)
  have pods: "set (Pods demo_input) = {\<lparr>ID = ''w1'', Name = ''a'', OwnerID = ''u1'', IP = ''10.0.0.1''\<rparr>, \<lparr>ID = ''w2'', Name = ''b'', OwnerID = ''u2'', IP = ''10.0.0.2''\<rparr>}"
    by (simp add: demo_input_def)
  then have ips: "\<forall>pod \<in> set (Pods demo_input). IP pod = [] \<or> ipv4 (IP pod)" using ip by simp
  note E = egress_admitted [where ord = id and ord' = "\<lambda>_. id" and V = envoy_spec, OF proxy.envoy_proxy_axioms ords _ _ _ _ hosts run ips]
  have spec: "ev_respond envoy_spec = envoy_respond" by (simp add: envoy_spec_def)
  have asks: "asks ''api.github.com'' 443 (connect_to ''api.github.com:443'' a)" "asks ''pypi.org'' 443 (connect_to ''pypi.org:443'' a)" for a
    by (simp_all add: asks_def connect_to_def authorities_def doms_def)
  have eff: "set (Effective demo_input ''w1'' ''host'') = {\<lparr>Kind = ''host'', Value = ''*.github.com'', Port = 443\<rparr>}" by code_simp
  have q: "q_ip (connect_to d a) = a" for d a by (simp add: connect_to_def)
  have rf: "rule_for ''api.github.com'' 443 \<lparr>Kind = ''host'', Value = ''*.github.com'', Port = 443\<rparr>"
    "\<not> rule_for ''pypi.org'' 443 \<lparr>Kind = ''host'', Value = ''*.github.com'', Port = 443\<rparr>" by (simp_all add: rule_for_def HasSuffix_def)
  have w1: "\<exists>pod \<in> set (Pods demo_input). IP pod = ''10.0.0.1'' \<and> (\<exists>r \<in> set (Effective demo_input (ID pod) ''host''). rule_for ''api.github.com'' 443 r)"
    using rf(1) by (simp add: pods eff)
  have none: "\<not> (\<exists>pod \<in> set (Pods demo_input). IP pod = ''10.0.0.3'' \<and> (\<exists>r \<in> set (Effective demo_input (ID pod) ''host''). rule_for ''api.github.com'' 443 r))"
    "\<not> (\<exists>pod \<in> set (Pods demo_input). IP pod = ''10.0.0.1'' \<and> (\<exists>r \<in> set (Effective demo_input (ID pod) ''host''). rule_for ''pypi.org'' 443 r))"
    using rf(2) by (simp_all add: pods eff)
  have star: "CHR ''*'' \<notin> set ''api.github.com''" "CHR ''*'' \<notin> set ''pypi.org''" "(443 :: int) = 443 \<or> (443 :: int) = 80" by simp_all
  obtain h where h: "hcm_of (hd ls) = Some h" "\<exists>c. envoy_respond h vhosts (connect_to ''api.github.com:443'' ''10.0.0.1'') = Forward c"
    using E [OF valid(1) star(1,3) asks(1) [of "''10.0.0.1''"]] w1 unfolding q spec using ip(1) by (simp only: if_True simp_thms) blast
  moreover have "envoy_respond h vhosts (connect_to ''api.github.com:443'' ''10.0.0.3'') = LocalReply 403"
    using E [OF valid(1) star(1,3) asks(1) [of "''10.0.0.3''"]] none(1) h(1) unfolding q spec using ip(3) by (simp only: if_False simp_thms) auto
  moreover have "envoy_respond h vhosts (connect_to ''pypi.org:443'' ''10.0.0.1'') = LocalReply 403"
    using E [OF valid(2) star(2,3) asks(2) [of "''10.0.0.1''"]] none(2) h(1) unfolding q spec using ip(1) by (simp only: if_False simp_thms) auto
  ultimately show ?thesis unfolding run by auto
qed

theorem objects_closed_witness:
  "let (ls, cs, vhosts) = objects demo_params in hd ls = proxyListener ''http://10.0.0.9/r'' \<and> distinct (concat (map domains_of vhosts))"
proof -
  obtain ls cs vhosts where run: "objects demo_params = (ls, cs, vhosts)" by (cases "objects demo_params")
  have "map fst (Hosts demo_params) = [HostKey ''*.github.com'' 443, HostKey ''api.github.com'' 443]"
    and "ValidName ''*.github.com''" "ValidName ''api.github.com''" by code_simp+
  then have "keys_ok (map fst (Hosts demo_params))" by (simp add: keys_ok_def)
  from objects_closed [OF this run] run show ?thesis by (simp add: demo_params_def)
qed

end
