(* ===== verification/Web.thy ===== *)
theory Web
  imports Auth Watch StoreSystem Egress
begin

text \<open>
  Package web (src/admin/internal/web/web.go and handlers.go): the routes, the handlers and how a
  store error becomes a status.

  The state a handler works on is the database and whatever \<open>Changed\<close> signals, a state of the
  caller's choice. A handler runs alone: its queries see one state of the database. The record \<open>WEnv\<close> holds what
  one request draws from outside: the environment of package auth, of the store (fresh ids, clock,
  printing of durations), the lower-case mapping of Unicode, the templates (\<open>we_execute\<close>: None on an
  error) and the text of an error.
\<close>

section \<open>State and environment\<close>

record 'c web_state =
  wb_db :: db
  wb_ch :: 'c

record 'c WebServer =
  ws_auth :: Authn
  ws_pods :: PodCache
  Changed :: "'c \<Rightarrow> 'c"

type_synonym names = "(string, string) gomap"

record wsRow =
  wr_Workspace :: Workspace
  wr_Zone :: string
  wr_Grants :: "RuleRow list"

datatype Page =
    PRequest User Workspace string int
  | PMine User "Workspace list" "Denial list" "Request list" names string
  | PQueue User "Request list" "Denial list" names
  | PZones User "Zone list" names
  | PWorkspaces User "wsRow list" "Zone list" names
  | PAudit User "audit_row list"

record WEnv =
  we_auth :: Env
  we_pg :: pg
  we_gen :: "nat \<Rightarrow> string"
  we_now :: time
  we_ttl :: "duration \<Rightarrow> string"
  we_uni :: "string \<Rightarrow> string"
  we_execute :: "Page \<Rightarrow> string option"
  we_text :: "err \<Rightarrow> string"

section \<open>Helpers of web.go\<close>

definition render :: "WEnv \<Rightarrow> Page \<Rightarrow> Resp" where
  "render E p = (case we_execute E p of
      None \<Rightarrow> http_Error ''render error'' 500
    | Some body \<Rightarrow> \<lparr>re_Cookies = [], re_Header = [(''Content-Type'', ''text/html; charset=utf-8'')], re_Status = 200,
        re_Location = None, re_Body = body\<rparr>)"

definition web_done :: "WEnv \<Rightarrow> 'c WebServer \<Rightarrow> Req \<Rightarrow> err option \<Rightarrow> string \<Rightarrow> 'c web_state \<Rightarrow> Resp \<times> 'c web_state" where
  \<comment> \<open>method done\<close>
  "web_done E s r e to st = (case e of
      None \<Rightarrow> (http_Redirect (e_parse (we_auth E)) r to 303, st\<lparr>wb_ch := Changed s (wb_ch st)\<rparr>)
    | Some ErrInvalid \<Rightarrow> (http_Error (''invalid input: '' @ we_text E ErrInvalid) 400, st)
    | Some ErrConflict \<Rightarrow> (http_Error (''conflict: '' @ we_text E ErrConflict) 409, st)
    | Some ErrNotFound \<Rightarrow> (http_Error ''not found'' 404, st)
    | Some _ \<Rightarrow> (http_Error ''internal error'' 500, st))"

definition form :: "Req \<Rightarrow> string \<Rightarrow> string" where
  \<comment> \<open>\<^verbatim>\<open>r.FormValue\<close>\<close>
  "form r k = get_or [] (hr_Form r) k"

definition pathval :: "Req \<Rightarrow> string \<Rightarrow> string" where
  \<comment> \<open>\<^verbatim>\<open>r.PathValue\<close>\<close>
  "pathval r k = get_or [] (hr_Path r) k"

definition query :: "Req \<Rightarrow> string \<Rightarrow> string" where
  \<comment> \<open>\<^verbatim>\<open>r.URL.Query().Get\<close>\<close>
  "query r k = get_or [] (hr_Query r) k"

abbreviation hour :: duration where
  "hour \<equiv> 3600 * 1000000000"

definition ttls :: "(string, duration) gomap" where
  "ttls = [(''1h'', hour), (''24h'', 24 * hour), (''168h'', 168 * hour), (''720h'', 720 * hour)]"

definition ttlFor :: "Req \<Rightarrow> User \<Rightarrow> err + duration" where
  "ttlFor r u =
     (let v = (if form r ''ttl'' = [] then ''168h'' else form r ''ttl'') in
      case map_of ttls v of
        Some d \<Rightarrow> Inr d
      | None \<Rightarrow> if v = ''60s'' \<and> u_Bearer u then Inr (60 * 1000000000) else Inl ErrInvalid)"

definition ruleFrom :: "WEnv \<Rightarrow> Req \<Rightarrow> Rule" where
  "ruleFrom E r =
     (let rule = \<lparr>Kind = form r ''kind'', Value = ToLower (we_uni E) (TrimSpace (form r ''value'')), Port = 0\<rparr>
      in if Kind rule = ''host'' then rule\<lparr>Port := fst (Atoi (form r ''port''))\<rparr> else rule)"

definition hostPort :: "WEnv \<Rightarrow> string \<Rightarrow> string \<times> int" where
  "hostPort E authority =
     (let a = ToLower (we_uni E) (TrimSpace authority) in
      case SplitHostPort a of
        Some (h, p) \<Rightarrow> (h, fst (Atoi p))
      | None \<Rightarrow> (a, 80))"

definition own :: "User \<Rightarrow> Workspace \<Rightarrow> bool" where
  "own u ws \<longleftrightarrow> u_Admin u \<or> OwnerID ws = u_ID u"

definition ws_names :: "Workspace list \<Rightarrow> names" where
  \<comment> \<open>method names, of the running pods\<close>
  "ws_names pods = fold (\<lambda>w m. AList.update (ID w) (Name w) m) pods []"

definition back_to :: "Req \<Rightarrow> string" where
  \<comment> \<open>function back\<close>
  "back_to r = (if form r ''back'' = ''/workspaces'' then form r ''back'' else ''/zones'')"

definition err_of :: "err + 'a \<Rightarrow> err option" where
  "err_of x = (case x of Inl e \<Rightarrow> Some e | Inr _ \<Rightarrow> None)"

definition store_op_done :: "WEnv \<Rightarrow> 'c WebServer \<Rightarrow> Req \<Rightarrow> (db \<Rightarrow> (err + 'a) \<times> db) \<Rightarrow> string \<Rightarrow> 'c web_state \<Rightarrow> Resp \<times> 'c web_state" where
  \<comment> \<open>\<^verbatim>\<open>s.done(w, r, s.Store.Op(...), to)\<close>\<close>
  "store_op_done E s r op to st =
     (case op (wb_db st) of (res, d) \<Rightarrow> web_done E s r (err_of res) to (st\<lparr>wb_db := d\<rparr>))"

definition page_done :: "WEnv \<Rightarrow> 'c WebServer \<Rightarrow> Req \<Rightarrow> err + Page \<Rightarrow> 'c web_state \<Rightarrow> Resp \<times> 'c web_state" where
  \<comment> \<open>the end of a handler that reads: an error of a query, or the page\<close>
  "page_done E s r p st = (case p of Inl e \<Rightarrow> web_done E s r (Some e) [] st | Inr page \<Rightarrow> (render E page, st))"

section \<open>Handlers\<close>

definition home :: "WEnv \<Rightarrow> Req \<Rightarrow> User \<Rightarrow> Resp" where
  "home E r u = http_Redirect (e_parse (we_auth E)) r (if u_Admin u then ''/queue'' else ''/mine'') 302"

definition requestForm :: "WEnv \<Rightarrow> 'c WebServer \<Rightarrow> Req \<Rightarrow> User \<Rightarrow> Resp" where
  "requestForm E s r u =
     (let ws = (if map_of (hr_Query r) ''src'' = None then ByID (ws_pods s) (query r ''ws'') else ByIP (ws_pods s) (query r ''src'')) in
      case ws of
        None \<Rightarrow> http_Error ''no running workspace matches this link; it may have restarted. Use My workspaces.'' 404
      | Some w \<Rightarrow>
          if \<not> own u w then http_Error ''not your workspace'' 403
          else (case hostPort E (query r ''host'') of (host, port) \<Rightarrow>
            if \<not> ValidRule \<lparr>Kind = ''host'', Value = host, Port = port\<rparr>
            then http_Error ''only host names on port 80 or 443 can be requested'' 400
            else render E (PRequest u w host port)))"

definition fileRequest :: "WEnv \<Rightarrow> 'c WebServer \<Rightarrow> Req \<Rightarrow> User \<Rightarrow> 'c web_state \<Rightarrow> Resp \<times> 'c web_state" where
  "fileRequest E s r u st = (case ByID (ws_pods s) (form r ''ws'') of
      None \<Rightarrow> (http_Error ''workspace not running'' 404, st)
    | Some ws \<Rightarrow>
        if \<not> own u ws then (http_Error ''not your workspace'' 403, st)
        else (case FileRequest (we_pg E) (we_gen E) (we_now E) (u_Name u) (ID ws) (ToLower (we_uni E) (TrimSpace (form r ''host'')))
                     (fst (Atoi (form r ''port''))) (TrimSpace (form r ''justification'')) (wb_db st) of
               (res, d) \<Rightarrow> web_done E s r (err_of res) (''/mine?filed='' @ QueryEscape (case res of Inl _ \<Rightarrow> [] | Inr i \<Rightarrow> i)) (st\<lparr>wb_db := d\<rparr>)))"

definition mine_page :: "WEnv \<Rightarrow> 'c WebServer \<Rightarrow> Req \<Rightarrow> User \<Rightarrow> db \<Rightarrow> err + Page" where
  "mine_page E s r u d =
     (let mine = filter (\<lambda>ws. OwnerID ws = u_ID u) (Running (ws_pods s)); ids = map ID mine; names = ws_names mine in
      case Denials (we_pg E) (Some ids) d of Inl e \<Rightarrow> Inl e | Inr ds \<Rightarrow>
     (case Requests (we_pg E) [] (Some ids) d of Inl e \<Rightarrow> Inl e | Inr reqs \<Rightarrow>
        Inr (PMine u mine ds reqs names (query r ''filed''))))"

definition queue_page :: "WEnv \<Rightarrow> 'c WebServer \<Rightarrow> User \<Rightarrow> db \<Rightarrow> err + Page" where
  "queue_page E s u d =
     (case Requests (we_pg E) ''pending'' None d of Inl e \<Rightarrow> Inl e | Inr reqs \<Rightarrow>
     (case Denials (we_pg E) None d of Inl e \<Rightarrow> Inl e | Inr ds \<Rightarrow>
        Inr (PQueue u reqs ds (ws_names (Running (ws_pods s))))))"

definition zones_page :: "WEnv \<Rightarrow> 'c WebServer \<Rightarrow> User \<Rightarrow> db \<Rightarrow> Page" where
  "zones_page E s u d = PZones u (Zones (we_pg E) d d) (ws_names (Running (ws_pods s)))"

definition workspaces_page :: "WEnv \<Rightarrow> 'c WebServer \<Rightarrow> User \<Rightarrow> db \<Rightarrow> Page" where
  "workspaces_page E s u d =
     (let inp = PolicyInput (we_pg E) (we_now E) d d d; zs = Zones (we_pg E) d d; grants = GrantsList (we_pg E) (we_now E) d;
          zoneNames = fold (\<lambda>z m. AList.update (zn_ID z) (zn_Name z) m) zs [];
          rows = map (\<lambda>ws. \<lparr>wr_Workspace = ws, wr_Zone = ZoneOf inp (ID ws),
                       wr_Grants = filter (\<lambda>g. rr_WorkspaceID g = ID ws) grants\<rparr>) (Running (ws_pods s))
      in PWorkspaces u rows zs zoneNames)"

definition approve :: "WEnv \<Rightarrow> 'c WebServer \<Rightarrow> Req \<Rightarrow> User \<Rightarrow> 'c web_state \<Rightarrow> Resp \<times> 'c web_state" where
  "approve E s r u st = (case ttlFor r u of
      Inl e \<Rightarrow> web_done E s r (Some e) ''/queue'' st
    | Inr ttl \<Rightarrow> store_op_done E s r (Decide (we_pg E) (we_gen E) (we_now E) (we_ttl E) (u_Name u) (pathval r ''id'') True ttl) ''/queue'' st)"

definition deny :: "WEnv \<Rightarrow> 'c WebServer \<Rightarrow> Req \<Rightarrow> User \<Rightarrow> 'c web_state \<Rightarrow> Resp \<times> 'c web_state" where
  "deny E s r u = store_op_done E s r (Decide (we_pg E) (we_gen E) (we_now E) (we_ttl E) (u_Name u) (pathval r ''id'') False 0) ''/queue''"

definition createZone :: "WEnv \<Rightarrow> 'c WebServer \<Rightarrow> Req \<Rightarrow> User \<Rightarrow> 'c web_state \<Rightarrow> Resp \<times> 'c web_state" where
  "createZone E s r u = store_op_done E s r (CreateZone (we_gen E) (we_now E) (u_Name u) (TrimSpace (form r ''name''))) ''/zones''"

definition cloneZone :: "WEnv \<Rightarrow> 'c WebServer \<Rightarrow> Req \<Rightarrow> User \<Rightarrow> 'c web_state \<Rightarrow> Resp \<times> 'c web_state" where
  "cloneZone E s r u =
     store_op_done E s r (CloneZone (we_pg E) (we_gen E) (we_now E) (u_Name u) (pathval r ''id'') (TrimSpace (form r ''name''))) ''/zones''"

definition renameZone :: "WEnv \<Rightarrow> 'c WebServer \<Rightarrow> Req \<Rightarrow> User \<Rightarrow> 'c web_state \<Rightarrow> Resp \<times> 'c web_state" where
  "renameZone E s r u =
     store_op_done E s r (RenameZone (we_pg E) (we_now E) (u_Name u) (pathval r ''id'') (TrimSpace (form r ''name''))) ''/zones''"

definition deleteZone :: "WEnv \<Rightarrow> 'c WebServer \<Rightarrow> Req \<Rightarrow> User \<Rightarrow> 'c web_state \<Rightarrow> Resp \<times> 'c web_state" where
  "deleteZone E s r u = store_op_done E s r (DeleteZone (we_pg E) (we_now E) (u_Name u) (pathval r ''id'')) ''/zones''"

definition defaultZone :: "WEnv \<Rightarrow> 'c WebServer \<Rightarrow> Req \<Rightarrow> User \<Rightarrow> 'c web_state \<Rightarrow> Resp \<times> 'c web_state" where
  "defaultZone E s r u = store_op_done E s r (SetDefaultZone (we_pg E) (we_now E) (u_Name u) (pathval r ''id'')) ''/zones''"

definition addZoneRule :: "WEnv \<Rightarrow> 'c WebServer \<Rightarrow> Req \<Rightarrow> User \<Rightarrow> 'c web_state \<Rightarrow> Resp \<times> 'c web_state" where
  "addZoneRule E s r u =
     store_op_done E s r (AddZoneRule (we_pg E) (we_gen E) (we_now E) (u_Name u) (pathval r ''id'') (ruleFrom E r)) ''/zones''"

definition deleteRule :: "WEnv \<Rightarrow> 'c WebServer \<Rightarrow> Req \<Rightarrow> User \<Rightarrow> 'c web_state \<Rightarrow> Resp \<times> 'c web_state" where
  "deleteRule E s r u = store_op_done E s r (DeleteRule (we_pg E) (we_now E) (u_Name u) (pathval r ''id'')) (back_to r)"

definition assign :: "WEnv \<Rightarrow> 'c WebServer \<Rightarrow> Req \<Rightarrow> User \<Rightarrow> 'c web_state \<Rightarrow> Resp \<times> 'c web_state" where
  "assign E s r u =
     store_op_done E s r (AssignZone (we_pg E) (we_now E) (u_Name u) (pathval r ''id'') (form r ''zone'')) ''/workspaces''"

definition grant :: "WEnv \<Rightarrow> 'c WebServer \<Rightarrow> Req \<Rightarrow> User \<Rightarrow> 'c web_state \<Rightarrow> Resp \<times> 'c web_state" where
  "grant E s r u st = (case ttlFor r u of
      Inl e \<Rightarrow> web_done E s r (Some e) ''/workspaces'' st
    | Inr ttl \<Rightarrow> store_op_done E s r (Grant (we_pg E) (we_gen E) (we_now E) (we_ttl E) (u_Name u) (pathval r ''id'') (ruleFrom E r) ttl)
                   ''/workspaces'' st)"

definition audit_page :: "User \<Rightarrow> db \<Rightarrow> Page" where
  "audit_page u d = PAudit u (Audit 200 d)"

section \<open>Routes\<close>

datatype action =
    ALogout | AHome | ARequestForm | AFileRequest | AMine
  | AQueue | AApprove | ADeny | AZones | ACreateZone | ACloneZone | ARenameZone | ADeleteZone | ADefaultZone
  | AAddZoneRule | ADeleteRule | AWorkspaces | AAssign | AGrant | AAudit

datatype endpoint = EHealthz | ELogin | ECallback | EUser action | EAdmin action

fun act :: "WEnv \<Rightarrow> 'c WebServer \<Rightarrow> action \<Rightarrow> Req \<Rightarrow> User \<Rightarrow> 'c web_state \<Rightarrow> Resp \<times> 'c web_state" where
  "act E s ALogout r u st = (Logout (we_auth E) (ws_auth s) r u, st)"
| "act E s AHome r u st = (home E r u, st)"
| "act E s ARequestForm r u st = (requestForm E s r u, st)"
| "act E s AFileRequest r u st = fileRequest E s r u st"
| "act E s AMine r u st = page_done E s r (mine_page E s r u (wb_db st)) st"
| "act E s AQueue r u st = page_done E s r (queue_page E s u (wb_db st)) st"
| "act E s AApprove r u st = approve E s r u st"
| "act E s ADeny r u st = deny E s r u st"
| "act E s AZones r u st = page_done E s r (Inr (zones_page E s u (wb_db st))) st"
| "act E s ACreateZone r u st = createZone E s r u st"
| "act E s ACloneZone r u st = cloneZone E s r u st"
| "act E s ARenameZone r u st = renameZone E s r u st"
| "act E s ADeleteZone r u st = deleteZone E s r u st"
| "act E s ADefaultZone r u st = defaultZone E s r u st"
| "act E s AAddZoneRule r u st = addZoneRule E s r u st"
| "act E s ADeleteRule r u st = deleteRule E s r u st"
| "act E s AWorkspaces r u st = page_done E s r (Inr (workspaces_page E s u (wb_db st))) st"
| "act E s AAssign r u st = assign E s r u st"
| "act E s AGrant r u st = grant E s r u st"
| "act E s AAudit r u st = page_done E s r (Inr (audit_page u (wb_db st))) st"

definition routes :: "endpoint pattern list" where
  "routes = [
     (''GET'', [Lit ''healthz''], EHealthz),
     (''GET'', [Lit ''login''], ELogin),
     (''GET'', [Lit ''callback''], ECallback),
     (''POST'', [Lit ''logout''], EUser ALogout),
     (''GET'', [Lit ''/''], EUser AHome),
     (''GET'', [Lit ''r''], EUser ARequestForm),
     (''POST'', [Lit ''requests''], EUser AFileRequest),
     (''GET'', [Lit ''mine''], EUser AMine),
     (''GET'', [Lit ''queue''], EAdmin AQueue),
     (''POST'', [Lit ''requests'', Wild ''id'', Lit ''approve''], EAdmin AApprove),
     (''POST'', [Lit ''requests'', Wild ''id'', Lit ''deny''], EAdmin ADeny),
     (''GET'', [Lit ''zones''], EAdmin AZones),
     (''POST'', [Lit ''zones''], EAdmin ACreateZone),
     (''POST'', [Lit ''zones'', Wild ''id'', Lit ''clone''], EAdmin ACloneZone),
     (''POST'', [Lit ''zones'', Wild ''id'', Lit ''rename''], EAdmin ARenameZone),
     (''POST'', [Lit ''zones'', Wild ''id'', Lit ''delete''], EAdmin ADeleteZone),
     (''POST'', [Lit ''zones'', Wild ''id'', Lit ''default''], EAdmin ADefaultZone),
     (''POST'', [Lit ''zones'', Wild ''id'', Lit ''rules''], EAdmin AAddZoneRule),
     (''POST'', [Lit ''rules'', Wild ''id'', Lit ''delete''], EAdmin ADeleteRule),
     (''GET'', [Lit ''workspaces''], EAdmin AWorkspaces),
     (''POST'', [Lit ''workspaces'', Wild ''id'', Lit ''zone''], EAdmin AAssign),
     (''POST'', [Lit ''workspaces'', Wild ''id'', Lit ''grants''], EAdmin AGrant),
     (''GET'', [Lit ''audit''], EAdmin AAudit)]"

definition quoted :: "string \<Rightarrow> string" where
  "quoted s = [CHR 0x27] @ s @ [CHR 0x27]"

definition secure :: "Resp \<Rightarrow> Resp" where
  \<comment> \<open>the headers are set before the handler runs, which may set them again\<close>
  "secure resp = resp\<lparr>re_Header := AList.updates (map fst (re_Header resp)) (map snd (re_Header resp))
     [(''Content-Security-Policy'', ''default-src '' @ quoted ''none'' @ ''; style-src '' @ quoted ''unsafe-inline'' @ ''; form-action '' @ quoted ''self'' @
        ''; frame-ancestors '' @ quoted ''none''),
      (''X-Content-Type-Options'', ''nosniff''), (''Referrer-Policy'', ''no-referrer'')]\<rparr>"

fun endpoint_handler :: "WEnv \<Rightarrow> 'c WebServer \<Rightarrow> endpoint \<Rightarrow> Req \<Rightarrow> 'c web_state \<Rightarrow> Resp \<times> 'c web_state" where
  "endpoint_handler E s EHealthz r st = (\<lparr>re_Cookies = [], re_Header = [], re_Status = 200, re_Location = None, re_Body = ''ok'' @ [CHR 0x0A]\<rparr>, st)"
| "endpoint_handler E s ELogin r st = (Login (we_auth E) (ws_auth s) r, st)"
| "endpoint_handler E s ECallback r st = (Callback (we_auth E) (ws_auth s) r, st)"
| "endpoint_handler E s (EUser a) r st = Require (we_auth E) (ws_auth s) False (act E s a) r st"
| "endpoint_handler E s (EAdmin a) r st = Require (we_auth E) (ws_auth s) True (act E s a) r st"

definition Routes :: "WEnv \<Rightarrow> 'c WebServer \<Rightarrow> Req \<Rightarrow> 'c web_state \<Rightarrow> Resp \<times> 'c web_state" where
  "Routes E s r st = apfst secure (case findHandler (e_parse (we_auth E)) routes r of
      Reply resp \<Rightarrow> (resp, st)
    | Handler h vals \<Rightarrow> endpoint_handler E s h (r\<lparr>hr_Path := vals\<rparr>) st)"

end
