(* ===== verification/XdsServer.thy ===== *)
theory XdsServer
  imports Egress
begin

text \<open>
  Package xds, the server (src/admin/internal/xds/server.go): snapshot versions and pushes, and the
  stream of access logs from which denials are taken.

  The snapshot cache of go-control-plane is an argument: \<open>new\<close> builds a snapshot from a version and
  resources, \<open>consistent\<close> checks it, \<open>set\<close> stores it for a node. An access log entry is reduced to the three
  fields that are read, each the zero value when the message lacks it. What a stream delivers is the
  list of results of its Recv calls so far.
\<close>

section \<open>Definitions\<close>

record XDenial =
  SrcIP :: string
  xd_Host :: string
  xd_Port :: int

record 'c Server =
  srv_cache :: 'c
  srv_version :: "64 word"

definition NewServer :: "'c \<Rightarrow> 'c Server" where
  "NewServer c0 = \<lparr>srv_cache = c0, srv_version = 0\<rparr>"

definition Push :: "(string \<Rightarrow> 'r \<Rightarrow> string + 's) \<Rightarrow> ('s \<Rightarrow> string option) \<Rightarrow> (string \<Rightarrow> 's \<Rightarrow> 'c \<Rightarrow> string option \<times> 'c) \<Rightarrow>
    'r \<Rightarrow> 'c Server \<Rightarrow> string option \<times> 'c Server" where
  \<comment> \<open>None is a nil error; the counter moves even when the push fails\<close>
  "Push new consistent setsnap res s =
     (let v = srv_version s + 1; s = s\<lparr>srv_version := v\<rparr> in
      case new (utoa (uint v)) res of
        Inl e \<Rightarrow> (Some e, s)
      | Inr snap \<Rightarrow>
          (case consistent snap of
             Some e \<Rightarrow> (Some e, s)
           | None \<Rightarrow> (case setsnap NodeID snap (srv_cache s) of (e, c) \<Rightarrow> (e, s\<lparr>srv_cache := c\<rparr>))))"

record LogEntry =
  le_code :: int
  le_ip :: string
  le_authority :: string

definition denial :: "(string \<Rightarrow> string) \<Rightarrow> LogEntry \<Rightarrow> XDenial option" where
  "denial uni e =
     (if le_code e \<noteq> 403 then None
      else let ip = le_ip e; host0 = ToLower uni (le_authority e);
               (host, port) = (case SplitHostPort host0 of
                   None \<Rightarrow> (host0, 80)
                 | Some (h, q) \<Rightarrow> (case Atoi q of (n, None) \<Rightarrow> (h, n) | (_, Some _) \<Rightarrow> (host0, 80)))
           in if ip = [] \<or> \<not> ValidName host then None
              else Some \<lparr>SrcIP = ip, xd_Host = host, xd_Port = port\<rparr>)"

datatype recv = Recv "LogEntry list" | RecvEOF | RecvErr string

fun StreamAccessLogs :: "(string \<Rightarrow> string) \<Rightarrow> (XDenial \<Rightarrow> 's \<Rightarrow> 's) option \<Rightarrow> recv list \<Rightarrow> 's \<Rightarrow> string option option \<times> 's" where
  \<comment> \<open>None: the stream is still open; Some e: the handler has returned e\<close>
  "StreamAccessLogs uni onDenial [] s = (None, s)"
| "StreamAccessLogs uni onDenial (RecvEOF # rs) s = (Some None, s)"
| "StreamAccessLogs uni onDenial (RecvErr e # rs) s = (Some (Some e), s)"
| "StreamAccessLogs uni onDenial (Recv es # rs) s =
     StreamAccessLogs uni onDenial rs (fold (\<lambda>e s. case (denial uni e, onDenial) of (Some d, Some f) \<Rightarrow> f d s | _ \<Rightarrow> s) es s)"

section \<open>Printed numbers\<close>

definition digits_value :: "string \<Rightarrow> int" where
  "digits_value s = fold (\<lambda>c n. 10 * n + (of_char c - 48)) s 0"

lemma digit_char: "0 \<le> m \<Longrightarrow> m < 10 \<Longrightarrow> of_char (char_of (48 + m) :: char) = (48 + m :: int)"
  by simp

lemma utoa_value: "0 \<le> n \<Longrightarrow> digits_value (utoa n) = n"
proof (induction n rule: utoa.induct)
  case (1 n)
  have d: "of_char (char_of (48 + n mod 10) :: char) = 48 + n mod 10" by (rule digit_char) simp_all
  show ?case
  proof (cases "n < 10")
    case True
    then have "utoa n = [char_of (48 + n mod 10)]" by (subst utoa.simps) simp
    then show ?thesis using d True 1 by (simp add: digits_value_def)
  next
    case False
    then have u: "utoa n = utoa (n div 10) @ [char_of (48 + n mod 10)]" by (subst utoa.simps) simp
    have "digits_value (utoa (n div 10)) = n div 10" using 1 False by simp
    then show ?thesis unfolding u digits_value_def fold_append using d by (simp add: digits_value_def)
  qed
qed

lemma utoa_inj: "0 \<le> m \<Longrightarrow> 0 \<le> n \<Longrightarrow> utoa m = utoa n \<Longrightarrow> m = n"
  by (metis utoa_value)

section \<open>Splitting an authority\<close>

lemma index_byte_first: "c \<notin> set p \<Longrightarrow> index_byte (p @ c # r) c = Some (length p)"
  by (induction p) auto

lemma index_byte_None: "c \<notin> set p \<Longrightarrow> index_byte p c = None"
  by (induction p) auto

lemma last_index_last: "c \<notin> set p \<Longrightarrow> last_index_byte (h @ c # p) c = Some (length h)"
  using index_byte_first [of c "rev p" "rev h"] by (simp add: last_index_byte_def)

lemma split_plain:
  assumes "CHR '':'' \<notin> set h" "CHR ''['' \<notin> set h" "CHR '']'' \<notin> set h" "h \<noteq> []"
    and "CHR '':'' \<notin> set q" "CHR ''['' \<notin> set q" "CHR '']'' \<notin> set q"
  shows "SplitHostPort (h @ CHR '':'' # q) = Some (h, q)" "SplitHostPort h = None"
proof -
  have "hd (h @ CHR '':'' # q) \<noteq> CHR ''[''" using assms(2,4) by (metis hd_append2 list.set_sel(1))
  then show "SplitHostPort (h @ CHR '':'' # q) = Some (h, q)"
    unfolding SplitHostPort_def last_index_last [OF assms(5)] using assms by simp
  have "last_index_byte h (CHR '':'') = None" using assms(1) by (simp add: last_index_byte_def index_byte_None)
  then show "SplitHostPort h = None" by (simp add: SplitHostPort_def)
qed

lemma split_authority:
  assumes "ValidName h" "CHR '':'' \<notin> set q" "CHR ''['' \<notin> set q" "CHR '']'' \<notin> set q"
  shows "SplitHostPort (h @ CHR '':'' # q) = Some (h, q)" "SplitHostPort h = None"
proof -
  have "CHR '':'' \<notin> set h" "CHR ''['' \<notin> set h" "CHR '']'' \<notin> set h" "h \<noteq> []"
    using ValidName_chars [OF assms(1), of "CHR ''[''"] ValidName_chars [OF assms(1), of "CHR '']''"] valid_host_end [OF assms(1)]
    by (auto simp: alnum_def)
  from split_plain [OF this assms(2-4)] show "SplitHostPort (h @ CHR '':'' # q) = Some (h, q)" "SplitHostPort h = None" .
qed

section \<open>Addresses as destinations\<close>

definition addr_char :: "char \<Rightarrow> bool" where
  "addr_char c \<longleftrightarrow> is_digit c \<or> c = CHR ''.''"

definition names_address :: "string \<Rightarrow> bool" where
  \<comment> \<open>an authority that is an IPv4 address, with or without a port\<close>
  "names_address a \<longleftrightarrow> ipv4 a \<or> (\<exists>h p. ipv4 h \<and> list_all is_digit p \<and> a = h @ CHR '':'' # p)"

lemma dots_chars: "list_all (list_all is_digit) (dots cur s) \<Longrightarrow> list_all is_digit cur \<and> list_all addr_char s"
  by (induction cur s rule: dots.induct) (auto simp: addr_char_def split: if_splits)

lemma ipv4_chars: "ipv4 a \<Longrightarrow> a \<noteq> [] \<and> list_all addr_char a"
proof -
  assume "ipv4 a"
  then have "list_all (list_all is_digit) (dots [] a)" "a \<noteq> []" by (auto simp: ipv4_def octet_def list_all_iff)
  then show ?thesis using dots_chars by blast
qed

lemma ipv4_not_name: "ipv4 a \<Longrightarrow> \<not> ValidName a"
proof
  assume "ipv4 a" "ValidName a"
  then have "addr_char (last a)" "CHR ''a'' \<le> last a" using ipv4_chars [of a] valid_host_end [of a] by (auto simp: list_all_iff)
  then show False by (auto simp: addr_char_def is_digit_def less_eq_char_def)
qed

lemma address_split:
  assumes "names_address a"
  shows "map ascii_lower a = a" "isASCII a" "SplitHostPort a = None \<or> (\<exists>h p. SplitHostPort a = Some (h, p) \<and> \<not> ValidName h)" "\<not> ValidName a"
    "a \<noteq> []" "\<forall>c \<in> set a. addr_char c \<or> c = CHR '':''"
proof -
  obtain h q where h: "ipv4 h" "list_all is_digit q" "a = h \<or> a = h @ CHR '':'' # q" using assms by (auto simp: names_address_def intro: that [of _ "[]"])
  note chars = ipv4_chars [OF h(1)]
  show set: "\<forall>c \<in> set a. addr_char c \<or> c = CHR '':''" using chars h(2,3) by (auto simp: list_all_iff addr_char_def)
  then have low: "c \<in> set a \<Longrightarrow> ascii_lower c = c \<and> code c < 0x80" for c by (fastforce simp: ascii_lower_def addr_char_def is_digit_def)
  then show "map ascii_lower a = a" "isASCII a" by (simp_all add: map_idI isASCII_def list_all_iff)
  show "a \<noteq> []" using h(3) chars by auto
  have "CHR '':'' \<notin> set h" "CHR ''['' \<notin> set h" "CHR '']'' \<notin> set h" "h \<noteq> []" "CHR '':'' \<notin> set q" "CHR ''['' \<notin> set q" "CHR '']'' \<notin> set q"
    using chars h(2) by (auto simp: list_all_iff addr_char_def is_digit_def)
  note split = split_plain [OF this]
  show "SplitHostPort a = None \<or> (\<exists>h p. SplitHostPort a = Some (h, p) \<and> \<not> ValidName h)" using h(3) split ipv4_not_name [OF h(1)] by auto
  show "\<not> ValidName a" using h(3) ipv4_not_name [OF h(1)] valid_host_end(2) [of a] by auto
qed

section \<open>Versions\<close>

fun versions :: "nat \<Rightarrow> 64 word \<Rightarrow> string list" where
  \<comment> \<open>the versions that the next pushes use\<close>
  "versions 0 v = []"
| "versions (Suc n) v = utoa (uint (v + 1)) # versions n (v + 1)"

lemma versions_nth: "i < n \<Longrightarrow> versions n v ! i = utoa (uint (v + of_nat (Suc i)))"
  by (induction n arbitrary: v i) (auto simp: nth_Cons algebra_simps split: nat.splits)

lemma length_versions [simp]: "length (versions n v) = n"
  by (induction n arbitrary: v) auto

lemma versions_fresh:
  assumes "n < 2 ^ 64"
  shows "utoa (uint v) \<notin> set (versions n v)"
proof
  assume "utoa (uint v) \<in> set (versions n v)"
  then obtain i where i: "i < n" "utoa (uint v) = utoa (uint (v + of_nat (Suc i)))"
    by (auto simp: in_set_conv_nth versions_nth simp del: of_nat_Suc)
  then have "v = v + of_nat (Suc i)"
    using utoa_inj [of "uint v" "uint (v + of_nat (Suc i))"] by (simp add: word_uint_eq_iff [symmetric] del: of_nat_Suc)
  then have "(of_nat (Suc i) :: 64 word) = 0" by (metis add_cancel_left_right)
  then show False using i(1) assms by (simp add: word_of_nat_eq_0_iff del: of_nat_Suc) (use nat_dvd_not_less in fastforce)
qed

lemma denial_named:
  assumes "ValidName host" "port = 443 \<or> port = 80" "map ascii_lower (le_authority e) \<in> authorities (HostKey host port)"
    "isASCII (le_authority e)" "le_code e = 403" "le_ip e \<noteq> []"
  shows "denial uni e = Some \<lparr>SrcIP = le_ip e, xd_Host = host, xd_Port = port\<rparr>"
proof -
  have low: "ToLower uni (le_authority e) = map ascii_lower (le_authority e)" using assms(4) by (simp add: ToLower_def)
  have a443: "Atoi ''443'' = (443, None)" and a80: "Atoi ''80'' = (80, None)" by code_simp+
  note split = split_authority [OF assms(1)]
  consider "port = 443" "map ascii_lower (le_authority e) = host @ CHR '':'' # ''443''"
    | "port = 80" "map ascii_lower (le_authority e) = host" | "port = 80" "map ascii_lower (le_authority e) = host @ CHR '':'' # ''80''"
    using assms(2,3) by (auto simp: authorities_def doms_def split: if_splits)
  then show ?thesis
  proof cases
    case 1
    then show ?thesis using assms(1,5,6) split(1) [of "''443''"] a443 by (simp add: denial_def low)
  next
    case 2
    then show ?thesis using assms(1,5,6) split(2) [of "[]"] by (simp add: denial_def low)
  next
    case 3
    then show ?thesis using assms(1,5,6) split(1) [of "''80''"] a80 by (simp add: denial_def low)
  qed
qed

section \<open>Properties\<close>

text \<open>C28. Refused requests are attributed to their destination: for each way to write the authority of a valid host name and port 80 or
  443, with letters in either case, a 403 entry with a source address gives the denial of exactly this address, host and
  port. A request for an IPv4 address, on any port, is not reported.\<close>

theorem denial_of_authority:
  assumes "le_code e = 403" "le_ip e \<noteq> []"
  shows "(\<forall>host port. ValidName host \<longrightarrow> port = 443 \<or> port = 80 \<longrightarrow> map ascii_lower (le_authority e) \<in> authorities (HostKey host port) \<longrightarrow>
      isASCII (le_authority e) \<longrightarrow> denial uni e = Some \<lparr>SrcIP = le_ip e, xd_Host = host, xd_Port = port\<rparr>) \<and>
    (names_address (le_authority e) \<longrightarrow> denial uni e = None)"
proof (intro conjI allI impI)
  fix host port
  assume "ValidName host" "port = 443 \<or> port = 80" "map ascii_lower (le_authority e) \<in> authorities (HostKey host port)" "isASCII (le_authority e)"
  then show "denial uni e = Some \<lparr>SrcIP = le_ip e, xd_Host = host, xd_Port = port\<rparr>" using assms by (intro denial_named)
next
  assume a: "names_address (le_authority e)"
  have "ToLower uni (le_authority e) = le_authority e" using address_split(1,2) [OF a] by (simp add: ToLower_def)
  then show "denial uni e = None" using address_split(3,4) [OF a]
    by (auto simp: denial_def Let_def split: prod.splits option.splits)
qed

text \<open>Only refused requests become denials: an entry that gives one had status 403 and a source address, and
  the host that is passed on is a valid lower-case name.\<close>

theorem denial_sound:
  assumes "denial uni e = Some d"
  shows "le_code e = 403 \<and> SrcIP d = le_ip e \<and> SrcIP d \<noteq> [] \<and> ValidName (xd_Host d) \<and> - (2 ^ 63) \<le> xd_Port d \<and> xd_Port d < 2 ^ 63"
proof -
  have "- (2 ^ 63) \<le> n \<and> n < 2 ^ 63" if "Atoi q = (n, None)" for q n using Atoi_bounds [of q] that by simp
  then show ?thesis using assms
    by (auto simp: denial_def Let_def split: if_splits prod.splits option.splits)
qed

text \<open>C27. The stream handler reports every denial of the entries it received, in order and nothing else, and returns
  nil exactly on the end of the stream.\<close>

theorem StreamAccessLogs_reports:
  "StreamAccessLogs uni (Some (\<lambda>d ds. ds @ [d])) (map Recv batches @ rs) ds =
     StreamAccessLogs uni (Some (\<lambda>d ds. ds @ [d])) rs (ds @ List.map_filter (denial uni) (concat batches)) \<and>
   StreamAccessLogs uni f [RecvEOF] s = (Some None, s) \<and> StreamAccessLogs uni f [RecvErr x] s = (Some (Some x), s)"
proof -
  have one: "fold (\<lambda>e s. case denial uni e of None \<Rightarrow> s | Some d \<Rightarrow> case Some (\<lambda>d ds. ds @ [d]) of None \<Rightarrow> s | Some f \<Rightarrow> f d s) es ds =
      ds @ List.map_filter (denial uni) es" for es and ds :: "XDenial list"
    by (induction es arbitrary: ds) (auto simp: List.map_filter_def split: option.splits)
  have app: "List.map_filter f (xs @ ys) = List.map_filter f xs @ List.map_filter f ys" for f :: "LogEntry \<Rightarrow> XDenial option" and xs ys
    by (simp add: List.map_filter_def)
  show ?thesis by (induction batches arbitrary: ds) (simp_all add: one app del: option.case)
qed

section \<open>The properties on concrete entries\<close>

theorem denial_of_authority_witness:
  "denial id \<lparr>le_code = 403, le_ip = ''10.0.0.1'', le_authority = ''Evil.Example:443''\<rparr> =
     Some \<lparr>SrcIP = ''10.0.0.1'', xd_Host = ''evil.example'', xd_Port = 443\<rparr> \<and>
   denial id \<lparr>le_code = 403, le_ip = ''10.0.0.1'', le_authority = ''10.0.0.9:443''\<rparr> = None"
proof -
  let ?e = "\<lparr>le_code = 403, le_ip = ''10.0.0.1'', le_authority = ''Evil.Example:443''\<rparr> :: LogEntry"
  let ?f = "\<lparr>le_code = 403, le_ip = ''10.0.0.1'', le_authority = ''10.0.0.9:443''\<rparr> :: LogEntry"
  have "ValidName ''evil.example''" "map ascii_lower (le_authority ?e) = ''evil.example:443''" "isASCII (le_authority ?e)" by code_simp+
  then have "denial id ?e = Some \<lparr>SrcIP = ''10.0.0.1'', xd_Host = ''evil.example'', xd_Port = 443\<rparr>"
    using denial_of_authority [of ?e id] by (simp add: authorities_def doms_def)
  moreover have "ipv4 ''10.0.0.9''" "list_all is_digit ''443''" by code_simp+
  then have "names_address ''10.0.0.9:443''" unfolding names_address_def by (intro disjI2 exI [of _ "''10.0.0.9''"] exI [of _ "''443''"]) simp
  then have "denial id ?f = None" using denial_of_authority [of ?f id] by simp
  ultimately show ?thesis by simp
qed

theorem denial_sound_witness: "ValidName ''evil.example''"
proof -
  let ?e = "\<lparr>le_code = 403, le_ip = ''10.0.0.1'', le_authority = ''evil.example:8080''\<rparr> :: LogEntry"
  have "denial id ?e = Some \<lparr>SrcIP = ''10.0.0.1'', xd_Host = ''evil.example'', xd_Port = 8080\<rparr>" by code_simp
  from denial_sound [OF this] show ?thesis by simp
qed

end
