(* ===== verification/WebSafety.thy ===== *)
theory WebSafety
  imports Web XdsServer
begin

text \<open>
  What the web interface guarantees. \<open>call_of\<close> names the store call behind each action, \<open>act_effect\<close> shows that an
  action changes the database by this call and nothing else, and \<open>Routes_cases\<close> that no action runs without passing the
  gate of package auth. The properties on authorization, signalling, what a user is shown and the link in
  Envoy's refusals follow.
\<close>

section \<open>What an action does to the database\<close>

text \<open>The store call behind each action.\<close>

fun call_of :: "WEnv \<Rightarrow> 'c WebServer \<Rightarrow> action \<Rightarrow> Req \<Rightarrow> User \<Rightarrow> call option" where
  "call_of E s AFileRequest r u = (case ByID (ws_pods s) (form r ''ws'') of
      None \<Rightarrow> None
    | Some ws \<Rightarrow> if own u ws then Some (CFileRequest (we_gen E) (we_now E) (u_Name u) (ID ws)
        (ToLower (we_uni E) (TrimSpace (form r ''host''))) (fst (Atoi (form r ''port''))) (TrimSpace (form r ''justification''))) else None)"
| "call_of E s AApprove r u = (case ttlFor r u of Inl _ \<Rightarrow> None
    | Inr ttl \<Rightarrow> Some (CDecide (we_gen E) (we_now E) (we_ttl E) (u_Name u) (pathval r ''id'') True ttl))"
| "call_of E s ADeny r u = Some (CDecide (we_gen E) (we_now E) (we_ttl E) (u_Name u) (pathval r ''id'') False 0)"
| "call_of E s ACreateZone r u = Some (CCreateZone (we_gen E) (we_now E) (u_Name u) (TrimSpace (form r ''name'')))"
| "call_of E s ACloneZone r u = Some (CCloneZone (we_gen E) (we_now E) (u_Name u) (pathval r ''id'') (TrimSpace (form r ''name'')))"
| "call_of E s ARenameZone r u = Some (CRenameZone (we_now E) (u_Name u) (pathval r ''id'') (TrimSpace (form r ''name'')))"
| "call_of E s ADeleteZone r u = Some (CDeleteZone (we_now E) (u_Name u) (pathval r ''id''))"
| "call_of E s ADefaultZone r u = Some (CSetDefaultZone (we_now E) (u_Name u) (pathval r ''id''))"
| "call_of E s AAddZoneRule r u = Some (CAddZoneRule (we_gen E) (we_now E) (u_Name u) (pathval r ''id'') (ruleFrom E r))"
| "call_of E s ADeleteRule r u = Some (CDeleteRule (we_now E) (u_Name u) (pathval r ''id''))"
| "call_of E s AAssign r u = Some (CAssign (we_now E) (u_Name u) (pathval r ''id'') (form r ''zone''))"
| "call_of E s AGrant r u = (case ttlFor r u of Inl _ \<Rightarrow> None
    | Inr ttl \<Rightarrow> Some (CGrant (we_gen E) (we_now E) (we_ttl E) (u_Name u) (pathval r ''id'') (ruleFrom E r) ttl))"
| "call_of E s _ r u = None"

definition signalled :: "'c WebServer \<Rightarrow> Resp \<Rightarrow> 'c web_state \<Rightarrow> 'c web_state \<Rightarrow> bool" where
  \<comment> \<open>\<open>Changed\<close> was called once for a 303, and the state is untouched otherwise\<close>
  "signalled s resp st st' \<longleftrightarrow>
     (if re_Status resp = 303 then wb_ch st' = Changed s (wb_ch st) else st' = st)"

lemma status_simps [simp]:
  "re_Status (http_Error msg n) = n" "re_Status (http_Redirect parse r url n) = n" "re_Status (with_cookie c resp) = re_Status resp"
  "re_Status (secure resp) = re_Status resp"
  by (simp_all add: http_Error_def http_Redirect_def with_cookie_def secure_def)

lemma render_status [simp]: "re_Status (render E p) \<noteq> 303"
  by (simp add: render_def split: option.split)

lemma web_done_cases:
  obtains "e = None" "web_done E s r e to st = (http_Redirect (e_parse (we_auth E)) r to 303, st\<lparr>wb_ch := Changed s (wb_ch st)\<rparr>)"
  | resp where "e \<noteq> None" "web_done E s r e to st = (resp, st)" "re_Status resp \<in> {400, 409, 404, 500}"
proof (cases e)
  case None
  then show ?thesis using that(1) by (simp add: web_done_def)
next
  case (Some x)
  then show ?thesis using that(2) by (cases x) (simp_all add: web_done_def)
qed

lemma err_of_Inr [simp]: "err_of x = None \<longleftrightarrow> (\<exists>a. x = Inr a)"
  by (simp add: err_of_def split: sum.split)

lemma op_effect:
  assumes "\<And>e. fst (op (wb_db st)) = Inl e \<Longrightarrow> snd (op (wb_db st)) = wb_db st"
    and "x = (case op (wb_db st) of (res, d) \<Rightarrow> web_done E s r (err_of res) (to res) (st\<lparr>wb_db := d\<rparr>))"
  shows "wb_db (snd x) = snd (op (wb_db st)) \<and> signalled s (fst x) st (snd x)"
proof -
  obtain res d where od: "op (wb_db st) = (res, d)" by fastforce
  show ?thesis
  proof (rule web_done_cases [of "err_of res" E s r "to res" "st\<lparr>wb_db := d\<rparr>"], goal_cases)
    case 1
    then show ?case using assms(2) by (simp add: od signalled_def)
  next
    case (2 resp)
    then obtain e where "res = Inl e" by (auto simp: err_of_def split: sum.splits)
    with assms(1) [of e] od have "d = wb_db st" by simp
    with 2 assms(2) show ?case by (auto simp: od signalled_def)
  qed
qed

lemma store_op_done_effect:
  assumes "\<And>d e. fst (op d) = Inl e \<Longrightarrow> snd (op d) = d"
  shows "wb_db (snd (store_op_done E s r op to st)) = snd (op (wb_db st)) \<and>
    signalled s (fst (store_op_done E s r op to st)) st (snd (store_op_done E s r op to st))"
  unfolding store_op_done_def by (rule op_effect [where to = "\<lambda>_. to"]) (auto intro: assms)

lemma page_done_effect: "snd (page_done E s r p st) = st \<and> re_Status (fst (page_done E s r p st)) \<noteq> 303"
proof (cases p)
  case (Inl e)
  then show ?thesis by (cases e) (simp_all add: page_done_def web_done_def)
next
  case (Inr page)
  then show ?thesis by (simp add: page_done_def)
qed

lemmas ops_failed = create_zone.failed_unchanged clone_zone.failed_unchanged rename_zone.failed_unchanged
  delete_zone.failed_unchanged set_default_zone.failed_unchanged add_zone_rule.failed_unchanged delete_rule_op.failed_unchanged
  assign_zone.failed_unchanged grant.failed_unchanged decide.failed_unchanged

lemma requestForm_status: "re_Status (requestForm E s r u) \<noteq> 303"
  by (simp add: requestForm_def Let_def split: option.split prod.split)

lemma read_effect: "p = (resp, st) \<Longrightarrow> re_Status resp \<noteq> 303 \<Longrightarrow> wb_db (snd p) = wb_db st \<and> signalled s (fst p) st (snd p)"
  by (simp add: signalled_def)

lemma page_effect: "wb_db (snd (page_done E s r p st)) = wb_db st \<and> signalled s (fst (page_done E s r p st)) st (snd (page_done E s r p st))"
  using page_done_effect [of E s r p st] by (simp add: signalled_def)

lemma fileRequest_effect:
  "wb_db (snd (fileRequest E s r u st)) = (case call_of E s AFileRequest r u of None \<Rightarrow> wb_db st | Some c \<Rightarrow> exec (we_pg E) c (wb_db st)) \<and>
     signalled s (fst (fileRequest E s r u st)) st (snd (fileRequest E s r u st))"
proof (cases "ByID (ws_pods s) (form r ''ws'')")
  case (Some ws)
  show ?thesis
  proof (cases "own u ws")
    case True
    let ?op = "FileRequest (we_pg E) (we_gen E) (we_now E) (u_Name u) (ID ws) (ToLower (we_uni E) (TrimSpace (form r ''host'')))
       (fst (Atoi (form r ''port''))) (TrimSpace (form r ''justification''))"
    have "fileRequest E s r u st = (case ?op (wb_db st) of (res, d) \<Rightarrow>
        web_done E s r (err_of res) (''/mine?filed='' @ QueryEscape (case res of Inl _ \<Rightarrow> [] | Inr i \<Rightarrow> i)) (st\<lparr>wb_db := d\<rparr>))"
      using Some True by (simp add: fileRequest_def)
    from op_effect [where op = ?op and to = "\<lambda>res. ''/mine?filed='' @ QueryEscape (case res of Inl _ \<Rightarrow> [] | Inr i \<Rightarrow> i)", OF _ this] show ?thesis using Some True file_request.failed_unchanged by simp
  qed (simp add: fileRequest_def Some signalled_def)
qed (simp add: fileRequest_def signalled_def)

lemma act_effect:
  "wb_db (snd (act E s a r u st)) = (case call_of E s a r u of None \<Rightarrow> wb_db st | Some c \<Rightarrow> exec (we_pg E) c (wb_db st)) \<and>
     signalled s (fst (act E s a r u st)) st (snd (act E s a r u st))"
proof -
  have invalid: "wb_db (snd (web_done E s r (Some e) to st)) = wb_db st \<and>
      signalled s (fst (web_done E s r (Some e) to st)) st (snd (web_done E s r (Some e) to st))" for e to
    by (cases e) (simp_all add: web_done_def signalled_def)
  show ?thesis
  proof (cases a)
    case AFileRequest
    then show ?thesis using fileRequest_effect by simp
  next
    case AApprove
    then show ?thesis using invalid
      by (cases "ttlFor r u") (simp_all add: approve_def store_op_done_effect ops_failed)
  next
    case AGrant
    then show ?thesis using invalid
      by (cases "ttlFor r u") (simp_all add: grant_def store_op_done_effect ops_failed)
  next
    case ARequestForm
    then show ?thesis using requestForm_status [of E s r u] by (simp add: signalled_def)
  qed (simp_all add: page_effect store_op_done_effect ops_failed deny_def createZone_def cloneZone_def renameZone_def deleteZone_def
      defaultZone_def addZoneRule_def deleteRule_def assign_def Logout_def home_def signalled_def [of s "http_Redirect _ _ _ _"]
      signalled_def [of s "with_cookie _ _"])
qed

section \<open>Routing and the gate\<close>

lemma findHandler_Handler:
  assumes "findHandler parse pats r = Handler h vals"
  shows "\<exists>m ps. (m, ps, h) \<in> set pats \<and> method_match m (hr_Method r) \<and> seg_match ps (path_segments (hr_EscapedPath r)) = Some vals"
proof -
  define segs where "segs = path_segments (hr_EscapedPath r)"
  obtain m ps where f: "find (\<lambda>(m, ps, _). method_match m (hr_Method r) \<and> seg_match ps segs \<noteq> None) pats = Some (m, ps, h)"
    and "vals = (case seg_match ps segs of None \<Rightarrow> [] | Some vs \<Rightarrow> vs)"
    using assms by (auto simp: findHandler_def Let_def segs_def split: if_splits option.splits list.splits)
  then have "(m, ps, h) \<in> set pats" "method_match m (hr_Method r)" "seg_match ps segs = Some vals"
    using find_Some_mem [OF f] by auto
  then show ?thesis unfolding segs_def by blast
qed

lemma findHandler_Reply: "findHandler parse pats r = Reply resp \<Longrightarrow> re_Status resp \<in> {301, 404, 405}"
  by (auto simp: findHandler_def Let_def http_Error_def split: if_splits option.splits list.splits)

lemma caller_path [simp]: "caller E a (r\<lparr>hr_Path := vals\<rparr>) = caller E a r"
  by (simp add: caller_def getSigned_def Let_def)

lemma form_path [simp]: "form (r\<lparr>hr_Path := vals\<rparr>) k = form r k"
  by (simp add: form_def)

lemma Require_cases:
  obtains resp where "Require E a admin h r s = (resp, s)" "re_Status resp \<noteq> 303"
  | u where "caller E a r = Some u" "admin \<longrightarrow> u_Admin u"
    "hr_Method r = ''GET'' \<or> hr_Method r = ''HEAD'' \<or> u_Bearer u \<or> get_or [] (hr_Form r) ''csrf'' = u_CSRF u"
    "Require E a admin h r s = h r u s"
proof (cases "caller E a r")
  case None
  then show ?thesis using that(1) by (simp add: Require_def split: if_splits)
next
  case (Some u)
  let ?forged = "hr_Method r \<noteq> ''GET'' \<and> hr_Method r \<noteq> ''HEAD'' \<and> \<not> u_Bearer u \<and> get_or [] (hr_Form r) ''csrf'' \<noteq> u_CSRF u"
  consider "admin \<and> \<not> u_Admin u" | "\<not> (admin \<and> \<not> u_Admin u)" ?forged | "\<not> (admin \<and> \<not> u_Admin u)" "\<not> ?forged" by blast
  then show ?thesis
  proof cases
    case 1
    then show ?thesis using Some by (intro that(1) [of "http_Error ''admin only'' 403"]) (auto simp: Require_def)
  next
    case 2
    then show ?thesis using Some by (intro that(1) [of "http_Error ''invalid CSRF token; reload the page'' 403"]) (auto simp: Require_def)
  next
    case 3
    then show ?thesis using Some by (intro that(2) [of u]) (auto simp: Require_def)
  qed
qed

lemma route_actions:
  "(m, ps, EUser a) \<in> set routes \<Longrightarrow> a \<in> {ALogout, AHome, ARequestForm, AFileRequest, AMine}"
  "(m, ps, EUser a) \<in> set routes \<Longrightarrow> call_of E s a r u \<noteq> None \<Longrightarrow> m = ''POST''"
  "(m, ps, EAdmin a) \<in> set routes \<Longrightarrow> call_of E s a r u \<noteq> None \<Longrightarrow> m = ''POST''"
  by (auto simp: routes_def)

lemma Routes_cases:
  obtains resp where "Routes E s r st = (resp, st)" "re_Status resp \<noteq> 303"
  | a u vals where "Routes E s r st = apfst secure (act E s a (r\<lparr>hr_Path := vals\<rparr>) u st)"
    "caller (we_auth E) (ws_auth s) r = Some u" "u_Admin u \<or> a \<in> {ALogout, AHome, ARequestForm, AFileRequest, AMine}"
    "hr_Method r = ''GET'' \<or> hr_Method r = ''HEAD'' \<or> u_Bearer u \<or> form r ''csrf'' = u_CSRF u"
    "call_of E s a (r\<lparr>hr_Path := vals\<rparr>) u \<noteq> None \<longrightarrow> hr_Method r = ''POST''"
proof (cases "findHandler (e_parse (we_auth E)) routes r")
  case (Reply resp)
  then show ?thesis using that(1) [of "secure resp"] findHandler_Reply [OF Reply] by (auto simp: Routes_def)
next
  case (Handler h vals)
  note thesis = that
  obtain m ps where m: "(m, ps, h) \<in> set routes" "method_match m (hr_Method r)" using findHandler_Handler [OF Handler] by blast
  let ?r = "r\<lparr>hr_Path := vals\<rparr>"
  have R: "Routes E s r st = apfst secure (endpoint_handler E s h ?r st)" by (simp add: Routes_def Handler)
  have post: "m = ''POST'' \<Longrightarrow> hr_Method r = ''POST''" using m(2) by (simp add: method_match_def)
  have gate: ?thesis if h: "endpoint_handler E s h ?r st = Require (we_auth E) (ws_auth s) admin (act E s a) ?r st"
    and a: "admin \<or> a \<in> {ALogout, AHome, ARequestForm, AFileRequest, AMine}" and c: "\<And>u. call_of E s a ?r u \<noteq> None \<Longrightarrow> hr_Method r = ''POST''" for admin a
  proof (rule Require_cases [of "we_auth E" "ws_auth s" admin "act E s a" ?r st])
    fix resp assume "Require (we_auth E) (ws_auth s) admin (act E s a) ?r st = (resp, st)" "re_Status resp \<noteq> 303"
    then show ?thesis using thesis(1) [of "secure resp"] by (simp add: R h)
  next
    fix u assume u: "caller (we_auth E) (ws_auth s) ?r = Some u" "admin \<longrightarrow> u_Admin u"
      "hr_Method ?r = ''GET'' \<or> hr_Method ?r = ''HEAD'' \<or> u_Bearer u \<or> get_or [] (hr_Form ?r) ''csrf'' = u_CSRF u"
      "Require (we_auth E) (ws_auth s) admin (act E s a) ?r st = act E s a ?r u st"
    show ?thesis by (rule thesis(2) [of a vals u]) (use u a c in \<open>auto simp: R h form_def\<close>)
  qed
  show ?thesis
  proof (cases h)
    case EHealthz
    then show ?thesis using that(1) by (simp add: R)
  next
    case ELogin
    then show ?thesis using that(1) by (simp add: R Login_def Let_def)
  next
    case ECallback
    have "re_Status (Callback (we_auth E) (ws_auth s) ?r) \<noteq> 303"
      by (simp add: Callback_def Let_def split: option.split)
    then show ?thesis using that(1) ECallback by (simp add: R)
  next
    case (EUser a)
    then show ?thesis using gate [of False a] m post route_actions(1,2) by (metis endpoint_handler.simps(4))
  next
    case (EAdmin a)
    then show ?thesis using gate [of True a] m post route_actions(3) by (metis endpoint_handler.simps(5))
  qed
qed

lemma read_only: "call_of E s a r u = None \<Longrightarrow> snd (act E s a r u st) = st"
proof (cases a)
  case AFileRequest
  then show "call_of E s a r u = None \<Longrightarrow> ?thesis" by (auto simp: fileRequest_def split: option.splits if_splits)
next
  case AApprove
  then show "call_of E s a r u = None \<Longrightarrow> ?thesis" by (auto simp: approve_def ttlFor_def web_done_def Let_def split: sum.splits option.splits if_splits)
next
  case AGrant
  then show "call_of E s a r u = None \<Longrightarrow> ?thesis" by (auto simp: grant_def ttlFor_def web_done_def Let_def split: sum.splits option.splits if_splits)
qed (simp_all add: page_done_effect)

lemma call_actor: "call_of E s a r u = Some c \<Longrightarrow> actor_of c = Some (u_Name u)"
  by (cases a) (auto split: option.splits sum.splits if_splits)

lemma member_call:
  assumes "call_of E s a r u = Some c" "a \<in> {ALogout, AHome, ARequestForm, AFileRequest, AMine}"
  shows "\<exists>ws \<in> set (Running (ws_pods s)). own u ws \<and> (\<exists>gen now host port j. c = CFileRequest gen now (u_Name u) (ID ws) host port j)"
proof -
  have a: "a = AFileRequest" using assms by auto
  then obtain ws where w: "ByID (ws_pods s) (form r ''ws'') = Some ws" "own u ws"
    "c = CFileRequest (we_gen E) (we_now E) (u_Name u) (ID ws) (ToLower (we_uni E) (TrimSpace (form r ''host'')))
       (fst (Atoi (form r ''port''))) (TrimSpace (form r ''justification''))"
    using assms(1) by (auto split: option.splits if_splits)
  have "ws \<in> set (Running (ws_pods s))" using pods.by_id_Some [OF w(1)] ..
  with w(2,3) show ?thesis by blast
qed

lemma Routes_result:
  assumes "Routes E s r st = apfst secure p"
  shows "snd (Routes E s r st) = snd p \<and> re_Status (fst (Routes E s r st)) = re_Status (fst p)"
  unfolding assms by simp

lemma Routes_signalled:
  assumes "Routes E s r st = (resp, st')"
  shows "signalled s resp st st' \<and> (hr_Method r \<noteq> ''POST'' \<longrightarrow> st' = st)"
proof (rule Routes_cases [of E s r st])
  fix resp0 assume "Routes E s r st = (resp0, st)" "re_Status resp0 \<noteq> 303"
  with assms show ?thesis by (simp add: signalled_def)
next
  fix a u vals
  let ?r = "r\<lparr>hr_Path := vals\<rparr>"
  assume R: "Routes E s r st = apfst secure (act E s a ?r u st)" and post: "call_of E s a ?r u \<noteq> None \<longrightarrow> hr_Method r = ''POST''"
  have "st' = snd (act E s a ?r u st)" "re_Status resp = re_Status (fst (act E s a ?r u st))"
    using Routes_result [OF R] assms(1) by simp_all
  then show ?thesis using act_effect [of E s a ?r u st] read_only [of E s a ?r u st] post by (auto simp: signalled_def)
qed

section \<open>Properties\<close>

text \<open>C3. Authorization of the whole web interface: when a request changes the database, its sender is signed in
  (with a session or the test bearer), the method is POST, the CSRF token is that of the session or the bearer
  was used, and the sender is an admin or files a request for a running workspace of his own. The change is
  written to the audit table in the sender's name, answered with 303, and signalled.\<close>

theorem Routes_authorized:
  assumes "Routes E s r st = (resp, st')" "wb_db st' \<noteq> wb_db st"
  shows "\<exists>u. caller (we_auth E) (ws_auth s) r = Some u \<and> hr_Method r = ''POST'' \<and>
    (u_Bearer u \<or> form r ''csrf'' = u_CSRF u) \<and>
    (u_Admin u \<or> (\<exists>ws \<in> set (Running (ws_pods s)). OwnerID ws = u_ID u \<and>
       (\<exists>gen now host port j. wb_db st' = snd (FileRequest (we_pg E) gen now (u_Name u) (ID ws) host port j (wb_db st))))) \<and>
    (\<exists>new. new \<noteq> [] \<and> audits (wb_db st') = audits (wb_db st) @ new \<and> list_all (\<lambda>row. au_actor row = u_Name u) new) \<and>
    re_Status resp = 303 \<and> wb_ch st' = Changed s (wb_ch st)"
proof (rule Routes_cases [of E s r st])
  fix resp0 assume "Routes E s r st = (resp0, st)"
  with assms show ?thesis by simp
next
  fix a u vals
  let ?r = "r\<lparr>hr_Path := vals\<rparr>"
  assume R: "Routes E s r st = apfst secure (act E s a ?r u st)" and u: "caller (we_auth E) (ws_auth s) r = Some u"
    and a: "u_Admin u \<or> a \<in> {ALogout, AHome, ARequestForm, AFileRequest, AMine}"
    and csrf: "hr_Method r = ''GET'' \<or> hr_Method r = ''HEAD'' \<or> u_Bearer u \<or> form r ''csrf'' = u_CSRF u"
    and post: "call_of E s a ?r u \<noteq> None \<longrightarrow> hr_Method r = ''POST''"
  have st': "st' = snd (act E s a ?r u st)" and resp: "re_Status resp = re_Status (fst (act E s a ?r u st))"
    using Routes_result [OF R] assms(1) by simp_all
  obtain c where c: "call_of E s a ?r u = Some c" using read_only [of E s a ?r u st] assms(2) st' by (cases "call_of E s a ?r u") auto
  have d: "wb_db st' = exec (we_pg E) c (wb_db st)" and sig: "signalled s (fst (act E s a ?r u st)) st st'"
    using act_effect [of E s a ?r u st] c st' by simp_all
  have ch: "re_Status resp = 303" "wb_ch st' = Changed s (wb_ch st)"
    using sig assms(2) resp by (auto simp: signalled_def split: if_splits)
  have aud: "\<exists>new. new \<noteq> [] \<and> audits (wb_db st') = audits (wb_db st) @ new \<and> list_all (\<lambda>row. au_actor row = u_Name u) new"
    using exec_audited [OF call_actor [OF c]] assms(2) d by metis
  have "u_Admin u \<or> (\<exists>ws \<in> set (Running (ws_pods s)). OwnerID ws = u_ID u \<and>
       (\<exists>gen now host port j. wb_db st' = snd (FileRequest (we_pg E) gen now (u_Name u) (ID ws) host port j (wb_db st))))"
    using a member_call [OF c] d unfolding own_def by (metis exec.simps(13))
  then show ?thesis using u post c csrf ch aud by (intro exI [of _ u]) auto
qed

text \<open>Every response tells what happened: \<open>Changed\<close> is called exactly when the status is 303, and with any other
  status the database is as before; and a request whose method is not POST changes nothing at all.\<close>

theorem Routes_signals:
  assumes "Routes E s r st = (resp, st')"
  shows "(if re_Status resp = 303 then wb_ch st' = Changed s (wb_ch st) else st' = st) \<and> (hr_Method r \<noteq> ''POST'' \<longrightarrow> st' = st)"
  using Routes_signalled [OF assms] by (simp add: signalled_def)

text \<open>C23. The page My workspaces shows a user nothing of others: the workspaces are his own running ones, and each denial
  and each request on it belongs to one of them.\<close>

theorem mine_own:
  assumes "mine_page E s r u d = Inr (PMine u' ws ds rs names filed)"
  shows "u' = u \<and> set ws = {w \<in> set (Running (ws_pods s)). OwnerID w = u_ID u} \<and>
    (\<forall>x \<in> set ds. \<exists>w \<in> set ws. uuid_in (we_pg E) (ID w) = Some (den_WorkspaceID x)) \<and>
    (\<forall>x \<in> set rs. \<exists>w \<in> set ws. uuid_in (we_pg E) (ID w) = Some (req_WorkspaceID x)) \<and>
    set (map fst names) = ID ` set ws"
proof -
  let ?mine = "filter (\<lambda>ws. OwnerID ws = u_ID u) (Running (ws_pods s))"
  have eq: "u' = u" "ws = ?mine" "Denials (we_pg E) (Some (map ID ?mine)) d = Inr ds" "Requests (we_pg E) [] (Some (map ID ?mine)) d = Inr rs"
    "names = ws_names ?mine"
    using assms by (auto simp: mine_page_def Let_def split: sum.splits)
  have casts: "casts (we_pg E) (Some (map ID ?mine)) = Inr ids \<Longrightarrow> of_workspaces ids x \<Longrightarrow>
      \<exists>w \<in> set ?mine. uuid_in (we_pg E) (ID w) = Some x" for ids x
    by (fastforce simp: casts_def of_workspaces_def split: if_splits option.splits)
  have ds: "\<exists>w \<in> set ?mine. uuid_in (we_pg E) (ID w) = Some (den_WorkspaceID x)" if "x \<in> set ds" for x
    using eq(3) that casts by (auto simp: Denials_def dest!: in_set_takeD split: sum.splits)
  have rs: "\<exists>w \<in> set ?mine. uuid_in (we_pg E) (ID w) = Some (req_WorkspaceID x)" if "x \<in> set rs" for x
    using eq(4) that casts by (auto simp: Requests_def scan_request_def dest!: in_set_takeD split: sum.splits)
  have nm: "set (map fst (fold (\<lambda>w m. AList.update (ID w) (Name w) m) xs m)) = set (map fst m) \<union> ID ` set xs" for xs and m :: names
    by (induction xs arbitrary: m) (auto simp: dom_update)
  show ?thesis using ds rs nm [of ?mine "[]"] unfolding eq(1,2,5) ws_names_def by auto
qed













text \<open>The time to live a form can choose: never zero or negative, never more than 30 days, and below an hour only
  for the test bearer.\<close>

theorem ttlFor_bounds:
  assumes "ttlFor r u = Inr ttl"
  shows "0 < ttl \<and> ttl \<le> 30 * 24 * hour \<and> (ttl < hour \<longrightarrow> u_Bearer u)"
  using assms by (auto simp: ttlFor_def Let_def ttls_def split: if_splits)

section \<open>The properties on concrete requests\<close>

definition demo_wenv :: WEnv where
  "demo_wenv = \<lparr>we_auth = demo_env, we_pg = demo_pg, we_gen = demo_gen ''w'', we_now = 5, we_ttl = (\<lambda>_. ''1h''), we_uni = id,
     we_execute = (\<lambda>_. Some ''page''), we_text = (\<lambda>_. ''e'')\<rparr>"

definition demo_web :: "nat WebServer" where
  "demo_web = \<lparr>ws_auth = demo_authn, ws_pods = demo_pods, Changed = Suc\<rparr>"

definition demo_state :: "nat web_state" where
  "demo_state = \<lparr>wb_db = demo_db, wb_ch = 0\<rparr>"

definition demo_post :: Req where
  "demo_post = demo_req\<lparr>hr_Method := ''POST'', hr_EscapedPath := ''/zones'', hr_Form := [(''name'', '' lab '')], hr_Authorization := ''Bearer hook''\<rparr>"

lemma demo_post_run:
  "re_Status (fst (Routes demo_wenv demo_web demo_post demo_state)) = 303"
  "map z_name (zones (wb_db (snd (Routes demo_wenv demo_web demo_post demo_state)))) = [''default'', ''lab'']"
  "map z_name (zones (wb_db demo_state)) = [''default'']"
  by code_simp+

theorem Routes_authorized_witness:
  "\<exists>u. caller (we_auth demo_wenv) (ws_auth demo_web) demo_post = Some u \<and>
    re_Status (fst (Routes demo_wenv demo_web demo_post demo_state)) = 303"
proof -
  have "wb_db (snd (Routes demo_wenv demo_web demo_post demo_state)) \<noteq> wb_db demo_state"
    using demo_post_run(2,3) by auto
  from Routes_authorized [OF prod.collapse [symmetric] this] show ?thesis by blast
qed

theorem Routes_signals_witness: "wb_ch (snd (Routes demo_wenv demo_web demo_post demo_state)) = 1"
  using Routes_signals [of demo_wenv demo_web demo_post demo_state, OF prod.collapse [symmetric]] demo_post_run(1)
  by (simp add: demo_web_def demo_state_def)

definition demo_user :: User where
  "demo_user = \<lparr>u_ID = ''u1'', u_Name = ''ann'', u_Admin = False, u_CSRF = ''t'', u_Exp = 2000, u_Bearer = False\<rparr>"

lemma demo_running: "Running demo_pods = [\<lparr>ID = ''w1'', Name = ''dev'', OwnerID = ''u1'', IP = ''10.0.0.1''\<rparr>]"
  by code_simp

theorem mine_own_witness:
  "\<exists>ws ds rs names. mine_page demo_wenv demo_web demo_req demo_user demo_db = Inr (PMine demo_user ws ds rs names []) \<and>
     set ws = set (Running demo_pods)"
proof -
  obtain ws ds rs names where m: "mine_page demo_wenv demo_web demo_req demo_user demo_db = Inr (PMine demo_user ws ds rs names [])"
    by (simp add: mine_page_def demo_wenv_def demo_web_def demo_req_def Denials_def Requests_def casts_def demo_running demo_user_def demo_pg_def query_def Let_def)
  have "{w \<in> set (Running (ws_pods demo_web)). OwnerID w = u_ID demo_user} = set (Running demo_pods)"
    by (auto simp: demo_web_def demo_running demo_user_def)
  with mine_own [OF m] m show ?thesis by auto
qed



theorem ttlFor_bounds_witness: "ttlFor (demo_req\<lparr>hr_Form := [(''ttl'', ''24h'')]\<rparr>) demo_user = Inr (24 * hour) \<and> 24 * hour \<le> 30 * 24 * hour"
proof -
  have t: "ttlFor (demo_req\<lparr>hr_Form := [(''ttl'', ''24h'')]\<rparr>) demo_user = Inr (24 * hour)" by code_simp
  with ttlFor_bounds [OF t] show ?thesis by blast
qed

end
