(* ===== verification/Cilium.thy ===== *)
theory Cilium
  imports Policy
begin

text \<open>
  Package cilium (src/admin/internal/cilium/cilium.go): the DNS allow policies rendered from the
  policy input, and their reconciliation against the Kubernetes API.

  An unstructured object is a \<^typ>\<open>json\<close> tree. The Kubernetes API is an argument: \<open>kapi\<close> is the
  record of the five calls that \<open>Apply\<close> makes on it, over any type of cluster states. The locale
  \<open>kube_api\<close> states what the code relies on, for an API that may refuse every write and read of
  some objects (\<open>bad\<close>); it is interpreted on a store of objects. What a label selector means is
  the locale \<open>label_selector\<close>, interpreted on the operators of the Kubernetes documentation.
\<close>

section \<open>Rendering\<close>

definition cil_Namespace :: string where
  "cil_Namespace = ''sandcastle-workspaces''"

definition cil_wsLabel :: string where
  "cil_wsLabel = ''com.coder.workspace.id''"

definition ownerLabel :: string where
  "ownerLabel = ''app.kubernetes.io/managed-by''"

definition ownerValue :: string where
  "ownerValue = ''sandcastle-admin''"

definition match :: "string \<Rightarrow> string list option \<Rightarrow> json" where
  "match op values = JObj ([(''key'', JStr cil_wsLabel), (''operator'', JStr op)] @
     (case values of None \<Rightarrow> [] | Some vs \<Rightarrow> [(''values'', JArr (map JStr vs))]))"

definition dnsRule :: "Rule \<Rightarrow> json" where
  "dnsRule r = (if HasPrefix (Value r) ''*.'' then JObj [(''matchPattern'', JStr (Value r))]
                else JObj [(''matchName'', JStr (Value r))])"

definition dnsRules :: "Rule list \<Rightarrow> json list" where
  "dnsRules rs = map dnsRule (filter (\<lambda>r. \<not> (Kind r \<noteq> ''dns'' \<or> \<not> ValidRule r)) rs)"

definition cnp :: "string \<Rightarrow> json list \<Rightarrow> json list \<Rightarrow> json" where
  "cnp name expr dns = JObj [
     (''apiVersion'', JStr ''cilium.io/v2''),
     (''kind'', JStr ''CiliumNetworkPolicy''),
     (''metadata'', JObj [
        (''name'', JStr name), (''namespace'', JStr cil_Namespace),
        (''labels'', JObj [(ownerLabel, JStr ownerValue)])]),
     (''spec'', JObj [
        (''endpointSelector'', JObj [(''matchExpressions'', JArr expr)]),
        (''egress'', JArr [JObj [
           (''toEndpoints'', JArr [JObj [(''matchLabels'', JObj [
              (''k8s:io.kubernetes.pod.namespace'', JStr ''kube-system''), (''k8s:k8s-app'', JStr ''kube-dns'')])]]),
           (''toPorts'', JArr [JObj [
              (''ports'', JArr [
                 JObj [(''port'', JStr ''53''), (''protocol'', JStr ''UDP'')],
                 JObj [(''port'', JStr ''53''), (''protocol'', JStr ''TCP'')]]),
              (''rules'', JObj [(''dns'', JArr dns)])]])]])])]"

definition GetName :: "json \<Rightarrow> string" where
  "GetName obj = (case jfield ''metadata'' obj of None \<Rightarrow> [] | Some m \<Rightarrow>
     (case jfield ''name'' m of Some (JStr n) \<Rightarrow> n | _ \<Rightarrow> []))"

definition members_step :: "string \<Rightarrow> string \<times> string \<Rightarrow> (string, string list) gomap \<times> string list \<Rightarrow>
    (string, string list) gomap \<times> string list" where
  "members_step def = (\<lambda>(ws, z) (members, elsewhere).
     if z \<noteq> def then (AList.update z (get_or [] members z @ [ws]) members, elsewhere @ [ws])
     else (members, elsewhere))"

definition zone_policy :: "string \<Rightarrow> (string, string list) gomap \<Rightarrow> string list \<Rightarrow> string \<times> Rule list \<Rightarrow> json list" where
  \<comment> \<open>one round of the loop over the zones\<close>
  "zone_policy def members elsewhere = (\<lambda>(z, rs).
     let dns = dnsRules rs in
     if dns = [] then []
     else if z = def then
       [cnp (''ws-dns-zone-'' @ z) ([match ''Exists'' None] @ (if elsewhere \<noteq> [] then [match ''NotIn'' (Some elsewhere)] else [])) dns]
     else if get_or [] members z = [] then []
     else [cnp (''ws-dns-zone-'' @ z) [match ''In'' (Some (sort (get_or [] members z)))] dns])"

definition grant_policy :: "string \<times> Rule list \<Rightarrow> json list" where
  "grant_policy = (\<lambda>(ws, rs). let dns = dnsRules rs in
     if dns \<noteq> [] then [cnp (''ws-dns-grant-'' @ ws) [match ''In'' (Some [ws])] dns] else [])"

definition Render :: "Input \<Rightarrow> json list" where
  "Render inp =
     (let (members, elsewhere) = fold (members_step (DefaultZone inp)) (Assign inp) ([], []);
          elsewhere = sort elsewhere
      in sort_key GetName
           (concat (map (zone_policy (DefaultZone inp) members elsewhere) (ZoneRules inp)) @
            concat (map grant_policy (Grants inp))))"

section \<open>Reading a policy back\<close>

text \<open>The parts of a rendered policy that Cilium acts on: the expressions that select pods and the
  DNS rules for the selected ones.\<close>

definition exprs_of :: "json \<Rightarrow> json list" where
  "exprs_of p = jarr (jpath [''spec'', ''endpointSelector'', ''matchExpressions''] p)"

definition dns_of :: "json \<Rightarrow> json list" where
  "dns_of p = concat (map (\<lambda>e. concat (map (\<lambda>t. jarr (jpath [''rules'', ''dns''] t)) (jarr (jfield ''toPorts'' e))))
     (jarr (jpath [''spec'', ''egress''] p)))"

text \<open>Label selectors as Kubernetes documents them, over the value of the workspace label of a pod:
  all expressions must hold.\<close>

locale label_selector =
  fixes sel :: "json list \<Rightarrow> string option \<Rightarrow> bool"
  assumes sel_all: "sel (e # es) l \<longleftrightarrow> sel [e] l \<and> sel es l"
    and sel_none: "sel [] l"
    and sel_In: "sel [match ''In'' (Some vs)] l \<longleftrightarrow> (\<exists>v \<in> set vs. l = Some v)"
    and sel_NotIn: "sel [match ''NotIn'' (Some vs)] l \<longleftrightarrow> (\<forall>v \<in> set vs. l \<noteq> Some v)"
    and sel_Exists: "sel [match ''Exists'' None] l \<longleftrightarrow> l \<noteq> None"

definition k8s_expr :: "string option \<Rightarrow> json \<Rightarrow> bool" where
  "k8s_expr l e =
     (let vs = jarr (jfield ''values'' e); here = (case l of None \<Rightarrow> False | Some v \<Rightarrow> JStr v \<in> set vs) in
      case jfield ''operator'' e of
        Some (JStr op) \<Rightarrow>
          if op = ''In'' then here else if op = ''NotIn'' then \<not> here
          else if op = ''Exists'' then l \<noteq> None else if op = ''DoesNotExist'' then l = None else False
      | _ \<Rightarrow> False)"

definition k8s_sel :: "json list \<Rightarrow> string option \<Rightarrow> bool" where
  "k8s_sel es l = list_all (k8s_expr l) es"

interpretation k8s: label_selector k8s_sel
  by unfold_locales (auto simp: k8s_sel_def k8s_expr_def match_def split: option.splits)

lemma cnp_parts [simp]:
  "GetName (cnp name expr dns) = name" "exprs_of (cnp name expr dns) = expr" "dns_of (cnp name expr dns) = dns"
  by (simp_all add: GetName_def exprs_of_def dns_of_def jpath_def cnp_def)

section \<open>The parts of Render\<close>

lemma members_fold:
  "get_or [] (fst (fold (members_step def) as (m, e))) z = get_or [] m z @ (if z \<noteq> def then map fst (filter (\<lambda>(w, y). y = z) as) else [])"
  "snd (fold (members_step def) as (m, e)) = e @ map fst (filter (\<lambda>(w, y). y \<noteq> def) as)"
  by (induction as arbitrary: m e) (auto simp: members_step_def split: prod.splits)

lemma dnsRules_set: "set (dnsRules rs) = dnsRule ` {r \<in> set rs. Kind r = ''dns'' \<and> ValidRule r}"
  by (auto simp: dnsRules_def)

definition renders_zone :: "Input \<Rightarrow> string \<times> Rule list \<Rightarrow> json list" where
  "renders_zone inp = zone_policy (DefaultZone inp) (fst (fold (members_step (DefaultZone inp)) (Assign inp) ([], [])))
     (sort (snd (fold (members_step (DefaultZone inp)) (Assign inp) ([], []))))"

lemma Render_parts:
  "Render inp = sort_key GetName (concat (map (renders_zone inp) (ZoneRules inp)) @ concat (map grant_policy (Grants inp)))"
  by (simp add: Render_def renders_zone_def case_prod_unfold Let_def)

lemma sort_mset: "mset xs = mset ys \<Longrightarrow> sort xs = sort ys"
  by (metis mset_sort properties_for_sort sorted_sort)

lemma map_fst_filter_mem: "w \<in> set (map fst (filter P as)) \<longleftrightarrow> (\<exists>y. (w, y) \<in> set as \<and> P (w, y))"
  by force

lemma assigned_iff: "gomap_ok m \<Longrightarrow> (ws, y) \<in> set m \<longleftrightarrow> map_of m ws = Some y"
  by simp

lemma renders_zone_form:
  assumes "p \<in> set (renders_zone inp (z, rs))"
  obtains es where "p = cnp (''ws-dns-zone-'' @ z) es (dnsRules rs)" "dnsRules rs \<noteq> []"
    "z = DefaultZone inp \<Longrightarrow> \<exists>vs. set vs = {ws. \<exists>y. (ws, y) \<in> set (Assign inp) \<and> y \<noteq> DefaultZone inp} \<and>
       es = [match ''Exists'' None] @ (if vs \<noteq> [] then [match ''NotIn'' (Some vs)] else [])"
    "z \<noteq> DefaultZone inp \<Longrightarrow> \<exists>vs. set vs = {ws. (ws, z) \<in> set (Assign inp)} \<and> vs \<noteq> [] \<and> es = [match ''In'' (Some vs)]"
proof (cases "z = DefaultZone inp")
  case True
  let ?else = "sort (snd (fold (members_step (DefaultZone inp)) (Assign inp) ([], [])))"
  have se: "set ?else = {ws. \<exists>y. (ws, y) \<in> set (Assign inp) \<and> y \<noteq> DefaultZone inp}"
    by (auto simp: members_fold map_fst_filter_mem simp del: set_map)
  have p: "p = cnp (''ws-dns-zone-'' @ z) ([match ''Exists'' None] @ (if ?else \<noteq> [] then [match ''NotIn'' (Some ?else)] else [])) (dnsRules rs)"
    and ne: "dnsRules rs \<noteq> []"
    using assms True by (auto simp: renders_zone_def zone_policy_def Let_def split: if_splits)
  show ?thesis
    by (rule that [OF p ne]) (use True se in blast)+
next
  case False
  let ?vs = "sort (get_or [] (fst (fold (members_step (DefaultZone inp)) (Assign inp) ([], []))) z)"
  have p: "p = cnp (''ws-dns-zone-'' @ z) [match ''In'' (Some ?vs)] (dnsRules rs)"
    and ne: "dnsRules rs \<noteq> []" "get_or [] (fst (fold (members_step (DefaultZone inp)) (Assign inp) ([], []))) z \<noteq> []"
    using assms False by (auto simp: renders_zone_def zone_policy_def Let_def split: if_splits)
  have se: "set ?vs = {ws. (ws, z) \<in> set (Assign inp)}"
    using False by (auto simp: members_fold map_fst_filter_mem simp del: set_map)
  have "?vs \<noteq> []" using ne(2) by (metis length_0_conv length_sort)
  then show ?thesis
    by (intro that [OF p ne(1)]) (use False se in blast)+
qed

lemma renders_zone_exists:
  assumes "dnsRules rs \<noteq> []" "z = DefaultZone inp \<or> (\<exists>ws. (ws, z) \<in> set (Assign inp))"
  shows "\<exists>p. p \<in> set (renders_zone inp (z, rs))"
proof (cases "z = DefaultZone inp")
  case True
  then show ?thesis using assms(1) by (simp add: renders_zone_def zone_policy_def Let_def)
next
  case False
  then have "get_or [] (fst (fold (members_step (DefaultZone inp)) (Assign inp) ([], []))) z \<noteq> []"
    using assms(2) by (auto simp: members_fold filter_empty_conv)
  then show ?thesis using assms(1) False by (simp add: renders_zone_def zone_policy_def Let_def)
qed

lemma grant_policy_form: "p \<in> set (grant_policy (ws, rs)) \<longleftrightarrow> dnsRules rs \<noteq> [] \<and>
    p = cnp (''ws-dns-grant-'' @ ws) [match ''In'' (Some [ws])] (dnsRules rs)"
  by (auto simp: grant_policy_def Let_def)

lemma Render_set: "p \<in> set (Render inp) \<longleftrightarrow>
    (\<exists>z rs. (z, rs) \<in> set (ZoneRules inp) \<and> p \<in> set (renders_zone inp (z, rs))) \<or>
    (\<exists>ws rs. (ws, rs) \<in> set (Grants inp) \<and> p \<in> set (grant_policy (ws, rs)))"
  unfolding Render_parts by auto

section \<open>Whom the policies select\<close>

context label_selector
begin

lemma sel_zone:
  assumes "p \<in> set (renders_zone inp (z, rs))" "gomap_ok (Assign inp)"
  shows "sel (exprs_of p) (Some ws) \<longleftrightarrow> ZoneOf inp ws = z" and "\<not> sel (exprs_of p) None"
proof -
  obtain es where p: "p = cnp (''ws-dns-zone-'' @ z) es (dnsRules rs)"
    and def: "z = DefaultZone inp \<Longrightarrow> \<exists>vs. set vs = {ws. \<exists>y. (ws, y) \<in> set (Assign inp) \<and> y \<noteq> DefaultZone inp} \<and>
       es = [match ''Exists'' None] @ (if vs \<noteq> [] then [match ''NotIn'' (Some vs)] else [])"
    and oth: "z \<noteq> DefaultZone inp \<Longrightarrow> \<exists>vs. set vs = {ws. (ws, z) \<in> set (Assign inp)} \<and> vs \<noteq> [] \<and> es = [match ''In'' (Some vs)]"
    by (rule renders_zone_form [OF assms(1)]) blast
  have mo: "(w, y) \<in> set (Assign inp) \<longleftrightarrow> map_of (Assign inp) w = Some y" for w y using assms(2) by simp
  have both: "(sel es (Some ws) \<longleftrightarrow> ZoneOf inp ws = z) \<and> \<not> sel es None"
  proof (cases "z = DefaultZone inp")
    case True
    then obtain vs where vs: "set vs = {ws. \<exists>y. map_of (Assign inp) ws = Some y \<and> y \<noteq> DefaultZone inp}"
      "es = [match ''Exists'' None] @ (if vs \<noteq> [] then [match ''NotIn'' (Some vs)] else [])" using def mo by auto
    have "sel es l \<longleftrightarrow> l \<noteq> None \<and> (\<forall>v \<in> set vs. l \<noteq> Some v)" for l
      unfolding vs(2) by (cases "vs = []") (simp_all add: sel_Exists sel_all [of _ "[_]"] sel_NotIn)
    then show ?thesis unfolding True by (auto simp: vs(1) ZoneOf_def split: option.splits)
  next
    case False
    then obtain vs where vs: "set vs = {ws. map_of (Assign inp) ws = Some z}" "es = [match ''In'' (Some vs)]" using oth mo by auto
    then show ?thesis using False by (auto simp: sel_In ZoneOf_def split: option.splits)
  qed
  then show "sel (exprs_of p) (Some ws) \<longleftrightarrow> ZoneOf inp ws = z" "\<not> sel (exprs_of p) None" by (simp_all add: p)
qed

lemma sel_grant:
  assumes "p \<in> set (grant_policy (w, rs))"
  shows "sel (exprs_of p) (Some ws) \<longleftrightarrow> ws = w" and "\<not> sel (exprs_of p) None"
  using assms by (auto simp: grant_policy_form sel_In)

lemma render_effective:
  assumes "gomap_ok (Assign inp)" "gomap_ok (ZoneRules inp)" "gomap_ok (Grants inp)"
  shows "(\<Union>p \<in> {p \<in> set (Render inp). sel (exprs_of p) (Some ws)}. set (dns_of p)) = dnsRule ` set (Effective inp ws ''dns'')"
    (is "?L = ?R")
proof -
  have eff: "x \<in> ?R \<longleftrightarrow> x \<in> set (dnsRules (get_or [] (ZoneRules inp) (ZoneOf inp ws))) \<or> x \<in> set (dnsRules (get_or [] (Grants inp) ws))" for x
    by (auto simp: dnsRules_set Effective_def)
  have zone: "(\<exists>z rs p. (z, rs) \<in> set (ZoneRules inp) \<and> p \<in> set (renders_zone inp (z, rs)) \<and> sel (exprs_of p) (Some ws) \<and> x \<in> set (dns_of p))
      \<longleftrightarrow> x \<in> set (dnsRules (get_or [] (ZoneRules inp) (ZoneOf inp ws)))" (is "?l \<longleftrightarrow> ?r") for x
  proof
    assume ?l
    then obtain z rs p where p: "(z, rs) \<in> set (ZoneRules inp)" "p \<in> set (renders_zone inp (z, rs))" "sel (exprs_of p) (Some ws)" "x \<in> set (dns_of p)"
      by blast
    moreover have "dns_of p = dnsRules rs" by (rule renders_zone_form [OF p(2)]) simp
    ultimately show ?r using sel_zone(1) [OF p(2) assms(1)] assms(2) by (auto simp: get_or_mem)
  next
    assume r: ?r
    let ?z = "ZoneOf inp ws"
    obtain rs where rs: "map_of (ZoneRules inp) ?z = Some rs" "x \<in> set (dnsRules rs)"
      using r by (cases "map_of (ZoneRules inp) ?z") (auto simp: get_or_def dnsRules_def)
    then have "\<exists>p. p \<in> set (renders_zone inp (?z, rs))"
      by (intro renders_zone_exists) (auto simp: ZoneOf_def dest!: map_of_SomeD split: option.splits)
    then obtain p where p: "p \<in> set (renders_zone inp (?z, rs))" by blast
    moreover have "dns_of p = dnsRules rs" by (rule renders_zone_form [OF p]) simp
    ultimately show ?l using sel_zone(1) [OF p assms(1)] rs map_of_SomeD [OF rs(1)]
      by (intro exI [of _ ?z] exI [of _ rs] exI [of _ p]) simp
  qed
  have grant: "(\<exists>w rs p. (w, rs) \<in> set (Grants inp) \<and> p \<in> set (grant_policy (w, rs)) \<and> sel (exprs_of p) (Some ws) \<and> x \<in> set (dns_of p))
      \<longleftrightarrow> x \<in> set (dnsRules (get_or [] (Grants inp) ws))" for x
  proof -
    have "(\<exists>w rs p. (w, rs) \<in> set (Grants inp) \<and> p \<in> set (grant_policy (w, rs)) \<and> sel (exprs_of p) (Some ws) \<and> x \<in> set (dns_of p))
        \<longleftrightarrow> (\<exists>rs. (ws, rs) \<in> set (Grants inp) \<and> x \<in> set (dnsRules rs))" (is "_ \<longleftrightarrow> ?in")
      by (auto simp: grant_policy_form sel_In)
    also have "?in \<longleftrightarrow> (\<exists>rs. map_of (Grants inp) ws = Some rs \<and> x \<in> set (dnsRules rs))" using assms(3) by simp
    also have "\<dots> \<longleftrightarrow> x \<in> set (dnsRules (get_or [] (Grants inp) ws))"
      by (cases "map_of (Grants inp) ws") (simp_all add: get_or_def dnsRules_def)
    finally show ?thesis .
  qed
  show ?thesis unfolding set_eq_iff eff unfolding zone [symmetric] grant [symmetric] by (simp add: Render_set) blast
qed

lemma render_unlabelled:
  assumes "gomap_ok (Assign inp)" "p \<in> set (Render inp)"
  shows "\<not> sel (exprs_of p) None"
  using assms sel_zone(2) sel_grant(2) unfolding Render_set by blast

end

section \<open>Independence of the iteration order\<close>

lemma renders_zone_names: "p \<in> set (renders_zone inp (z, rs)) \<Longrightarrow> GetName p = ''ws-dns-zone-'' @ z"
  by (erule renders_zone_form) simp

lemma renders_zone_short: "length (renders_zone inp zr) \<le> 1"
  by (auto simp: renders_zone_def zone_policy_def Let_def split: prod.splits)

lemma distinct_concat_names:
  assumes "gomap_ok m" "\<And>k v p. p \<in> set (f (k, v)) \<Longrightarrow> GetName p = pre @ k" "\<And>x. length (f x) \<le> 1"
  shows "distinct (map GetName (concat (map f m)))"
  using assms(1)
proof (induction m)
  case (Cons x m)
  obtain k v where x: "x = (k, v)" by (cases x)
  have "GetName q \<noteq> pre @ k" if "q \<in> set (concat (map f m))" for q
    using that assms(2) Cons.prems x by (force simp: image_iff)
  moreover have "f x = [] \<or> (\<exists>p. f x = [p])" using assms(3) [of x] by (cases "f x") auto
  ultimately show ?case using Cons assms(2) [of _ k v] x by fastforce
qed simp

lemma Render_names_distinct:
  assumes "gomap_ok (ZoneRules inp)" "gomap_ok (Grants inp)"
  shows "distinct (map GetName (concat (map (renders_zone inp) (ZoneRules inp)) @ concat (map grant_policy (Grants inp))))"
proof -
  have g: "p \<in> set (grant_policy (ws, rs)) \<Longrightarrow> GetName p = ''ws-dns-grant-'' @ ws" for p ws rs by (simp add: grant_policy_form)
  have "distinct (map GetName (concat (map (renders_zone inp) (ZoneRules inp))))"
    by (rule distinct_concat_names [OF assms(1) renders_zone_names renders_zone_short])
  moreover have "distinct (map GetName (concat (map grant_policy (Grants inp))))"
    by (rule distinct_concat_names [OF assms(2) g]) (auto simp: grant_policy_def Let_def split: prod.splits)
  moreover have "GetName p \<noteq> GetName q" if "p \<in> set (renders_zone inp zr)" "q \<in> set (grant_policy wr)" for p q zr wr
    using that renders_zone_names g by (cases zr; cases wr) fastforce
  ultimately show ?thesis by auto
qed

lemma renders_zone_cong:
  assumes "DefaultZone inp = DefaultZone inp'" "same_map (Assign inp) (Assign inp')"
  shows "renders_zone inp = renders_zone inp'"
proof -
  have as: "mset (Assign inp) = mset (Assign inp')" by (rule same_map_mset [OF assms(2)])
  then have "mset (map fst (filter P (Assign inp))) = mset (map fst (filter P (Assign inp')))" for P by simp
  then have s: "sort (map fst (filter P (Assign inp))) = sort (map fst (filter P (Assign inp')))" for P by (rule sort_mset)
  then have e: "map fst (filter P (Assign inp)) = [] \<longleftrightarrow> map fst (filter P (Assign inp')) = []" for P
    by (metis length_0_conv length_sort)
  show ?thesis
    unfolding renders_zone_def zone_policy_def Let_def members_fold assms(1)
    using s e by (auto simp: fun_eq_iff members_fold)
qed

lemma Render_sorted: "sorted (map GetName (Render inp))"
  by (simp add: Render_parts)

lemma Render_order:
  assumes "DefaultZone inp = DefaultZone inp'" "same_map (Assign inp) (Assign inp')"
    "same_map (ZoneRules inp) (ZoneRules inp')" "same_map (Grants inp) (Grants inp')"
  shows "Render inp = Render inp'"
proof -
  have "mset (concat (map f xs)) = mset (concat (map f ys))" if "mset xs = mset ys" for f :: "string \<times> Rule list \<Rightarrow> json list" and xs ys
  proof -
    have "mset (concat (map f xs)) = \<Sum>\<^sub># (image_mset (\<lambda>x. mset (f x)) (mset xs))" for xs by (induction xs) simp_all
    then show ?thesis using that by simp
  qed
  then have "mset (concat (map (renders_zone inp) (ZoneRules inp)) @ concat (map grant_policy (Grants inp))) =
      mset (concat (map (renders_zone inp') (ZoneRules inp')) @ concat (map grant_policy (Grants inp')))"
    using same_map_mset [OF assms(3)] same_map_mset [OF assms(4)] unfolding renders_zone_cong [OF assms(1,2)] by (metis mset_append)
  then show ?thesis
    unfolding Render_parts using assms(3,4) by (intro sort_key_perm_eq Render_names_distinct) (simp_all add: same_map_def)
qed

end
