(* ===== verification/CiliumApply.thy ===== *)
theory CiliumApply
  imports Cilium
begin

text \<open>
  Package cilium, function Apply: the reconciliation of the rendered policies against the
  Kubernetes API (src/admin/internal/cilium/cilium.go, lines 131 to 171).
\<close>

section \<open>Definitions\<close>

datatype kerr = NotFound | KErr string

record 'c kapi =
  k_get :: "string \<Rightarrow> 'c \<Rightarrow> (kerr + json) \<times> 'c"
  k_create :: "json \<Rightarrow> 'c \<Rightarrow> (kerr + json) \<times> 'c"
  k_update :: "json \<Rightarrow> 'c \<Rightarrow> (kerr + json) \<times> 'c"
  k_list :: "string \<Rightarrow> string \<Rightarrow> 'c \<Rightarrow> (kerr + json list) \<times> 'c"
  k_delete :: "string \<Rightarrow> 'c \<Rightarrow> kerr option \<times> 'c"

datatype apply_err =
    ECreate string kerr
  | EGet string kerr
  | ENotManaged string
  | EUpdate string kerr
  | EList kerr
  | EDelete string kerr

definition GetLabel :: "json \<Rightarrow> string \<Rightarrow> string" where
  \<comment> \<open>\<^verbatim>\<open>GetLabels()[key]\<close>\<close>
  "GetLabel obj key = (case jpath [''metadata'', ''labels'', key] obj of Some (JStr v) \<Rightarrow> v | _ \<Rightarrow> [])"

definition GetResourceVersion :: "json \<Rightarrow> string" where
  "GetResourceVersion obj = (case jpath [''metadata'', ''resourceVersion''] obj of Some (JStr v) \<Rightarrow> v | _ \<Rightarrow> [])"

fun jput :: "string \<Rightarrow> json option \<Rightarrow> json \<Rightarrow> json" where
  "jput k (Some v) (JObj fs) = JObj (AList.update k v fs)"
| "jput k None (JObj fs) = JObj (AList.delete k fs)"
| "jput k _ j = j"

definition SetResourceVersion :: "string \<Rightarrow> json \<Rightarrow> json" where
  \<comment> \<open>an empty version removes the field\<close>
  "SetResourceVersion v obj = (case jfield ''metadata'' obj of
      None \<Rightarrow> if v = [] then obj else jput ''metadata'' (Some (JObj [(''resourceVersion'', JStr v)])) obj
    | Some m \<Rightarrow> jput ''metadata'' (Some (jput ''resourceVersion'' (if v = [] then None else Some (JStr v)) m)) obj)"

definition spec_equal :: "json \<Rightarrow> json \<Rightarrow> bool" where
  \<comment> \<open>\<^verbatim>\<open>reflect.DeepEqual(cur.Object["spec"], d.Object["spec"])\<close>\<close>
  "spec_equal cur d = (case (jfield ''spec'' cur, jfield ''spec'' d) of
      (Some a, Some b) \<Rightarrow> DeepEqual a b | (None, None) \<Rightarrow> True | _ \<Rightarrow> False)"

definition managed :: "json \<Rightarrow> bool" where
  "managed obj \<longleftrightarrow> GetLabel obj ownerLabel = ownerValue"

definition apply_one :: "'c kapi \<Rightarrow> json \<Rightarrow> apply_err list \<times> 'c \<Rightarrow> apply_err list \<times> 'c" where
  "apply_one api d = (\<lambda>(errs, c). let n = GetName d in
     case k_get api n c of
       (Inl NotFound, c) \<Rightarrow> (case k_create api d c of (Inl e, c) \<Rightarrow> (errs @ [ECreate n e], c) | (Inr _, c) \<Rightarrow> (errs, c))
     | (Inl e, c) \<Rightarrow> (errs @ [EGet n e], c)
     | (Inr cur, c) \<Rightarrow>
         if \<not> managed cur then (errs @ [ENotManaged n], c)
         else if \<not> spec_equal cur d then
           (case k_update api (SetResourceVersion (GetResourceVersion cur) d) c of
              (Inl e, c) \<Rightarrow> (errs @ [EUpdate n e], c) | (Inr _, c) \<Rightarrow> (errs, c))
         else (errs, c))"

definition prune :: "'c kapi \<Rightarrow> string list \<Rightarrow> json \<Rightarrow> apply_err list \<times> 'c \<Rightarrow> apply_err list \<times> 'c" where
  "prune api want item = (\<lambda>(errs, c). let n = GetName item in
     if n \<in> set want then (errs, c)
     else (case k_delete api n c of
             (None, c) \<Rightarrow> (errs, c)
           | (Some NotFound, c) \<Rightarrow> (errs, c)
           | (Some e, c) \<Rightarrow> (errs @ [EDelete n e], c)))"

definition Apply :: "'c kapi \<Rightarrow> json list \<Rightarrow> 'c \<Rightarrow> apply_err list \<times> 'c" where
  \<comment> \<open>the list of joined errors; nil when it is empty\<close>
  "Apply api desired c =
     (let want = map GetName desired;
          (errs, c) = fold (apply_one api) desired ([], c)
      in case k_list api ownerLabel ownerValue c of
           (Inl e, c) \<Rightarrow> (errs @ [EList e], c)
         | (Inr items, c) \<Rightarrow> fold (prune api want) items (errs, c))"

definition free_for :: "('c \<Rightarrow> string \<Rightarrow> json option) \<Rightarrow> 'c \<Rightarrow> string \<Rightarrow> bool" where
  \<comment> \<open>no foreign object has the name\<close>
  "free_for objs c n \<longleftrightarrow> (case objs c n of None \<Rightarrow> True | Some obj \<Rightarrow> managed obj)"

section \<open>The Kubernetes API\<close>

text \<open>\<open>objs\<close> is what the API serves. Every call on a \<open>bad\<close> name fails with an error of its own and
  changes nothing; on the other names the calls do what the API conventions say: a create or update
  stores the object as sent up to fields the server adds, an update needs the current resource
  version, a list returns the labelled objects.\<close>

locale kube_api =
  fixes api :: "'c kapi" and objs :: "'c \<Rightarrow> string \<Rightarrow> json option" and bad :: "string \<Rightarrow> bool"
  assumes get_keeps: "objs (snd (k_get api n c)) = objs c"
    and get_bad: "bad n \<Longrightarrow> \<exists>e. fst (k_get api n c) = Inl (KErr e)"
    and get_good: "\<not> bad n \<Longrightarrow> fst (k_get api n c) = (case objs c n of None \<Rightarrow> Inl NotFound | Some obj \<Rightarrow> Inr obj)"
    and create_fails: "bad (GetName d) \<or> objs c (GetName d) \<noteq> None \<Longrightarrow>
      (\<exists>e. fst (k_create api d c) = Inl e) \<and> objs (snd (k_create api d c)) = objs c"
    and create_stores: "\<not> bad (GetName d) \<Longrightarrow> objs c (GetName d) = None \<Longrightarrow> spec_equal d d \<Longrightarrow>
      \<exists>obj. fst (k_create api d c) = Inr obj \<and> objs (snd (k_create api d c)) = (objs c)(GetName d \<mapsto> obj) \<and>
        spec_equal obj d \<and> (managed obj \<longleftrightarrow> managed d)"
    and update_stores: "\<not> bad (GetName d) \<Longrightarrow> objs c (GetName d) = Some cur \<Longrightarrow> GetResourceVersion d = GetResourceVersion cur \<Longrightarrow> spec_equal d d \<Longrightarrow>
      \<exists>obj. fst (k_update api d c) = Inr obj \<and> objs (snd (k_update api d c)) = (objs c)(GetName d \<mapsto> obj) \<and>
        spec_equal obj d \<and> (managed obj \<longleftrightarrow> managed d)"
    and list_keeps: "objs (snd (k_list api k v c)) = objs c"
    and list_all: "\<exists>items. fst (k_list api k v c) = Inr items \<and> (\<forall>obj. obj \<in> set items \<longleftrightarrow> (\<exists>n. objs c n = Some obj) \<and> GetLabel obj k = v)"
    and named: "objs c n = Some obj \<Longrightarrow> GetName obj = n"
    and delete_bad: "bad n \<Longrightarrow> (\<exists>e. fst (k_delete api n c) = Some (KErr e)) \<and> objs (snd (k_delete api n c)) = objs c"
    and delete_good: "\<not> bad n \<Longrightarrow> fst (k_delete api n c) = (if objs c n = None then Some NotFound else None) \<and>
      objs (snd (k_delete api n c)) = (objs c)(n := None)"

section \<open>Facts on objects\<close>

lemma jfield_jput: "jfield k (jput k' v (JObj fs)) = (if k = k' then v else jfield k (JObj fs))"
  by (cases v) (auto simp: update_conv' delete_conv')

lemma cnp_object:
  "jfield ''spec'' (SetResourceVersion v (cnp n es ds)) = jfield ''spec'' (cnp n es ds)"
  "GetName (SetResourceVersion v (cnp n es ds)) = n" "GetResourceVersion (SetResourceVersion v (cnp n es ds)) = v"
  "managed (SetResourceVersion v (cnp n es ds))" "managed (cnp n es ds)"
  by (auto simp: SetResourceVersion_def cnp_def GetName_def GetResourceVersion_def managed_def GetLabel_def jpath_def ownerLabel_def)

lemma spec_equal_cong: "jfield ''spec'' d = jfield ''spec'' d' \<Longrightarrow> spec_equal x d = spec_equal x d'"
  "jfield ''spec'' d = jfield ''spec'' d' \<Longrightarrow> spec_equal d x = spec_equal d' x"
  by (simp_all add: spec_equal_def)

lemma match_refl: "DeepEqual (match op vs) (match op vs)"
  by (auto simp: match_def list_all2_same split: option.splits)

lemma dnsRule_refl: "DeepEqual (dnsRule r) (dnsRule r)"
  by (simp add: dnsRule_def)

lemma Render_spec_refl:
  assumes "p \<in> set (Render inp)"
  shows "spec_equal p p" "\<exists>n es ds. p = cnp n es ds"
proof -
  have cnp: "spec_equal (cnp n es ds) (cnp n es ds)"
    if "list_all (\<lambda>j. DeepEqual j j) es" "list_all (\<lambda>j. DeepEqual j j) ds" for n es ds
    using that by (auto simp: spec_equal_def cnp_def list_all_iff list_all2_same)
  have dns: "list_all (\<lambda>j. DeepEqual j j) (dnsRules rs)" for rs by (auto simp: dnsRules_def list_all_iff dnsRule_refl)
  show "spec_equal p p"
    using assms unfolding Render_set
  proof (elim disjE exE conjE)
    fix z rs
    assume "p \<in> set (renders_zone inp (z, rs))"
    then show ?thesis
      by (cases rule: renders_zone_form; cases "z = DefaultZone inp") (auto intro!: cnp dns simp: match_refl)
  qed (auto simp: grant_policy_form intro!: cnp dns match_refl)
  show "\<exists>n es ds. p = cnp n es ds"
    using assms unfolding Render_set
  proof (elim disjE exE conjE)
    fix z rs
    assume "p \<in> set (renders_zone inp (z, rs))"
    then show ?thesis by (rule renders_zone_form) blast
  next
    fix ws rs
    assume "p \<in> set (grant_policy (ws, rs))"
    then show ?thesis unfolding grant_policy_form by blast
  qed
qed

section \<open>Reconciliation\<close>

context kube_api
begin

lemma apply_one_effect:
  assumes "apply_one api (cnp n es ds) (errs, c) = (errs', c')" "spec_equal (cnp n es ds) (cnp n es ds)"
  shows "if bad n \<or> \<not> free_for objs c n then objs c' = objs c \<and> (\<exists>e. errs' = errs @ [e])
    else errs' = errs \<and> (\<exists>obj. objs c' = (objs c)(n \<mapsto> obj) \<and> spec_equal obj (cnp n es ds) \<and> managed obj)"
proof -
  let ?d = "cnp n es ds"
  obtain r c1 where g: "k_get api n c = (r, c1)" by (cases "k_get api n c")
  have o1: "objs c1 = objs c" using get_keeps [of n c] g by simp
  show ?thesis
  proof (cases "bad n")
    case True
    then obtain e where "r = Inl (KErr e)" using get_bad [of n c] g by auto
    then show ?thesis using assms(1) g o1 True by (auto simp: apply_one_def)
  next
    case good: False
    show ?thesis
    proof (cases "objs c n")
      case None
      then have "r = Inl NotFound" using get_good [OF good, of c] g by simp
      moreover obtain obj where "fst (k_create api ?d c1) = Inr obj" "objs (snd (k_create api ?d c1)) = (objs c1)(n \<mapsto> obj)"
          "spec_equal obj ?d" "managed obj"
        using create_stores [of ?d c1] good None o1 assms(2) cnp_object(5) [of n es ds] by auto
      ultimately show ?thesis using assms(1) g o1 good None
        by (cases "k_create api ?d c1") (auto simp: apply_one_def free_for_def)
    next
      case (Some cur)
      then have r: "r = Inr cur" using get_good [OF good, of c] g by simp
      show ?thesis
      proof (cases "managed cur \<and> \<not> spec_equal cur ?d")
        case False
        then show ?thesis using assms(1) g r o1 good Some
          by (auto simp: apply_one_def free_for_def split: if_splits intro!: exI [of _ cur])
      next
        case True
        let ?u = "SetResourceVersion (GetResourceVersion cur) ?d"
        have "spec_equal ?u ?u" using assms(2) cnp_object(1) by (simp add: spec_equal_def)
        then obtain obj where "fst (k_update api ?u c1) = Inr obj" "objs (snd (k_update api ?u c1)) = (objs c1)(n \<mapsto> obj)"
            "spec_equal obj ?u" "managed obj"
          using update_stores [of ?u c1 cur] good Some o1 by (auto simp: cnp_object)
        moreover from this have "spec_equal obj ?d" using spec_equal_cong(1) [OF cnp_object(1)] by blast
        ultimately show ?thesis using assms(1) g r o1 good Some True
          by (cases "k_update api ?u c1") (auto simp: apply_one_def free_for_def)
      qed
    qed
  qed
qed

lemma apply_fold_effect:
  assumes "\<forall>d \<in> set ds. spec_equal d d \<and> (\<exists>n es rs. d = cnp n es rs)" "distinct (map GetName ds)"
    "fold (apply_one api) ds (errs, c) = (errs', c')"
  shows "(\<forall>n. n \<notin> GetName ` set ds \<longrightarrow> objs c' n = objs c n) \<and>
    (\<forall>d \<in> set ds. if bad (GetName d) \<or> \<not> free_for objs c (GetName d) then objs c' (GetName d) = objs c (GetName d)
      else (\<exists>obj. objs c' (GetName d) = Some obj \<and> spec_equal obj d \<and> managed obj)) \<and>
    length errs' = length errs + length (filter (\<lambda>d. bad (GetName d) \<or> \<not> free_for objs c (GetName d)) ds)"
  using assms
proof (induction ds arbitrary: errs c)
  case (Cons x ds)
  obtain m es rs where x: "x = cnp m es rs" "spec_equal x x" using Cons.prems(1) by auto
  obtain e1 c1 where one: "apply_one api x (errs, c) = (e1, c1)" by (cases "apply_one api x (errs, c)")
  note eff = apply_one_effect [OF one [unfolded x(1)] x(2) [unfolded x(1)]]
  have rest: "fold (apply_one api) ds (e1, c1) = (errs', c')" using Cons.prems(3) one by simp
  have IH: "(\<forall>n. n \<notin> GetName ` set ds \<longrightarrow> objs c' n = objs c1 n) \<and>
    (\<forall>d \<in> set ds. if bad (GetName d) \<or> \<not> free_for objs c1 (GetName d) then objs c' (GetName d) = objs c1 (GetName d)
      else (\<exists>obj. objs c' (GetName d) = Some obj \<and> spec_equal obj d \<and> managed obj)) \<and>
    length errs' = length e1 + length (filter (\<lambda>d. bad (GetName d) \<or> \<not> free_for objs c1 (GetName d)) ds)"
    using Cons.prems(1,2) by (intro Cons.IH [OF _ _ rest]) auto
  have m: "m \<notin> GetName ` set ds" using Cons.prems(2) x(1) by simp
  have other: "k \<noteq> m \<Longrightarrow> objs c1 k = objs c k" for k using eff by (auto split: if_splits)
  then have free: "k \<noteq> m \<Longrightarrow> free_for objs c1 k = free_for objs c k" for k by (simp add: free_for_def)
  have neq: "GetName d \<noteq> m" if "d \<in> set ds" for d using that m by auto
  have flt: "filter (\<lambda>d. bad (GetName d) \<or> \<not> free_for objs c1 (GetName d)) ds = filter (\<lambda>d. bad (GetName d) \<or> \<not> free_for objs c (GetName d)) ds"
    by (rule filter_cong) (use neq free in auto)
  show ?case
  proof (intro conjI)
    show "\<forall>n. n \<notin> GetName ` set (x # ds) \<longrightarrow> objs c' n = objs c n" using IH other x(1) by simp
    show "\<forall>d \<in> set (x # ds). if bad (GetName d) \<or> \<not> free_for objs c (GetName d) then objs c' (GetName d) = objs c (GetName d)
      else (\<exists>obj. objs c' (GetName d) = Some obj \<and> spec_equal obj d \<and> managed obj)"
    proof
      fix d
      assume "d \<in> set (x # ds)"
      then consider "d = x" | "d \<in> set ds" by auto
      then show "if bad (GetName d) \<or> \<not> free_for objs c (GetName d) then objs c' (GetName d) = objs c (GetName d)
        else (\<exists>obj. objs c' (GetName d) = Some obj \<and> spec_equal obj d \<and> managed obj)"
      proof cases
        case 1
        have "objs c' m = objs c1 m" using IH m by blast
        then show ?thesis using 1 eff x(1) by (auto split: if_splits)
      next
        case 2
        then show ?thesis using IH neq [OF 2] other free by metis
      qed
    qed
    show "length errs' = length errs + length (filter (\<lambda>d. bad (GetName d) \<or> \<not> free_for objs c (GetName d)) (x # ds))"
      using IH eff x(1) unfolding flt by (auto split: if_splits)
  qed
qed simp

lemma prune_effect:
  assumes "prune api want item (errs, c) = (errs', c')" "n = GetName item"
  shows "objs c' = (if n \<in> set want \<or> bad n then objs c else (objs c)(n := None))"
    and "length errs' = length errs + (if n \<notin> set want \<and> bad n then 1 else 0)"
proof -
  obtain r c1 where del: "k_delete api n c = (r, c1)" by (cases "k_delete api n c")
  have "objs c' = (if n \<in> set want \<or> bad n then objs c else (objs c)(n := None)) \<and>
      length errs' = length errs + (if n \<notin> set want \<and> bad n then 1 else 0)"
  proof (cases "bad n")
    case True
    then obtain e where "r = Some (KErr e)" "objs c1 = objs c" using delete_bad [of n c] del by auto
    then show ?thesis using assms del True by (auto simp: prune_def split: if_splits)
  next
    case False
    then have "r = (if objs c n = None then Some NotFound else None)" "objs c1 = (objs c)(n := None)"
      using delete_good [of n c] del by auto
    then show ?thesis using assms del False by (auto simp: prune_def split: if_splits)
  qed
  then show "objs c' = (if n \<in> set want \<or> bad n then objs c else (objs c)(n := None))"
    "length errs' = length errs + (if n \<notin> set want \<and> bad n then 1 else 0)" by blast+
qed

lemma prune_fold_effect:
  assumes "fold (prune api want) items (errs, c) = (errs', c')"
  shows "(\<forall>n. objs c' n = (if n \<in> GetName ` set items \<and> n \<notin> set want \<and> \<not> bad n then None else objs c n)) \<and>
    length errs' = length errs + length (filter (\<lambda>i. GetName i \<notin> set want \<and> bad (GetName i)) items)"
  using assms
proof (induction items arbitrary: errs c)
  case (Cons x items)
  obtain e1 c1 where one: "prune api want x (errs, c) = (e1, c1)" by (cases "prune api want x (errs, c)")
  have rest: "fold (prune api want) items (e1, c1) = (errs', c')" using Cons.prems one by simp
  show ?case using Cons.IH [OF rest] prune_effect [OF one refl] by auto
qed simp

lemma apply_effect:
  assumes "\<forall>d \<in> set ds. spec_equal d d \<and> (\<exists>n es rs. d = cnp n es rs)" "distinct (map GetName ds)"
    "Apply api ds c = (errs, c')"
  shows "(\<forall>d \<in> set ds. \<not> bad (GetName d) \<longrightarrow> free_for objs c (GetName d) \<longrightarrow>
      (\<exists>obj. objs c' (GetName d) = Some obj \<and> spec_equal obj d \<and> managed obj)) \<and>
    (\<forall>n. n \<notin> GetName ` set ds \<longrightarrow> \<not> bad n \<longrightarrow> free_for objs c n \<longrightarrow> objs c' n = None) \<and>
    (\<forall>n. bad n \<or> \<not> free_for objs c n \<longrightarrow> objs c' n = objs c n) \<and>
    (errs = [] \<longleftrightarrow> (\<forall>d \<in> set ds. \<not> bad (GetName d) \<and> free_for objs c (GetName d)) \<and>
       (\<forall>n obj. objs c n = Some obj \<longrightarrow> managed obj \<longrightarrow> bad n \<longrightarrow> n \<in> GetName ` set ds))"
proof -
  obtain e1 c1 where f: "fold (apply_one api) ds ([], c) = (e1, c1)" by (cases "fold (apply_one api) ds ([], c)")
  note A = apply_fold_effect [OF assms(1,2) f]
  obtain r c2 where l: "k_list api ownerLabel ownerValue c1 = (r, c2)" by (cases "k_list api ownerLabel ownerValue c1")
  obtain items where r: "r = Inr items" and items: "\<And>obj. obj \<in> set items \<longleftrightarrow> (\<exists>n. objs c1 n = Some obj) \<and> managed obj"
    using list_all [of ownerLabel ownerValue c1] l by (auto simp: managed_def)
  have o2: "objs c2 = objs c1" using list_keeps [of ownerLabel ownerValue c1] l by simp
  have "fold (prune api (map GetName ds)) items (e1, c2) = (errs, c')"
    using assms(3) f l r by (simp add: Apply_def)
  note B = prune_fold_effect [OF this, unfolded o2 set_map]
  have mem: "n \<in> GetName ` set items \<longleftrightarrow> (\<exists>obj. objs c1 n = Some obj \<and> managed obj)" for n
    unfolding image_iff Bex_def items by (metis named)
  have c1_out: "objs c1 n = objs c n" if "n \<notin> GetName ` set ds" for n using A that by blast
  have in_ds: "objs c' n = objs c1 n" if "n \<in> GetName ` set ds" for n using B that by simp
  show ?thesis
  proof (intro conjI ballI allI impI)
    fix d assume "d \<in> set ds" "\<not> bad (GetName d)" "free_for objs c (GetName d)"
    then show "\<exists>obj. objs c' (GetName d) = Some obj \<and> spec_equal obj d \<and> managed obj"
      using A in_ds [of "GetName d"] by auto
  next
    fix n assume n: "n \<notin> GetName ` set ds" "\<not> bad n" "free_for objs c n"
    then show "objs c' n = None" using B mem [of n] c1_out [OF n(1)] by (cases "objs c n") (auto simp: free_for_def)
  next
    fix n assume n: "bad n \<or> \<not> free_for objs c n"
    have "objs c1 n = objs c n" using A n by (cases "n \<in> GetName ` set ds") auto
    moreover have "objs c' n = objs c1 n" using B n mem [of n] calculation by (auto simp: free_for_def split: option.splits)
    ultimately show "objs c' n = objs c n" by simp
  next
    have "length errs = length (filter (\<lambda>d. bad (GetName d) \<or> \<not> free_for objs c (GetName d)) ds) +
        length (filter (\<lambda>i. GetName i \<notin> GetName ` set ds \<and> bad (GetName i)) items)"
      using A B by simp
    then have "errs = [] \<longleftrightarrow> filter (\<lambda>d. bad (GetName d) \<or> \<not> free_for objs c (GetName d)) ds = [] \<and>
        filter (\<lambda>i. GetName i \<notin> GetName ` set ds \<and> bad (GetName i)) items = []"
      unfolding length_0_conv [symmetric] by simp
    also have "filter (\<lambda>i. GetName i \<notin> GetName ` set ds \<and> bad (GetName i)) items = [] \<longleftrightarrow>
        (\<forall>n obj. objs c n = Some obj \<longrightarrow> managed obj \<longrightarrow> bad n \<longrightarrow> n \<in> GetName ` set ds)"
      unfolding filter_empty_conv Ball_def items using c1_out named by metis
    finally show "errs = [] \<longleftrightarrow> (\<forall>d \<in> set ds. \<not> bad (GetName d) \<and> free_for objs c (GetName d)) \<and>
       (\<forall>n obj. objs c n = Some obj \<longrightarrow> managed obj \<longrightarrow> bad n \<longrightarrow> n \<in> GetName ` set ds)"
      by (auto simp: filter_empty_conv)
  qed
qed

end

section \<open>An API on a list of objects\<close>

definition mem_objs :: "json list \<Rightarrow> string \<Rightarrow> json option" where
  "mem_objs c n = find (\<lambda>obj. GetName obj = n) c"

definition mem_api :: "(string \<Rightarrow> bool) \<Rightarrow> json list kapi" where
  "mem_api bad = \<lparr>
     k_get = (\<lambda>n c. if bad n then (Inl (KErr ''refused''), c)
        else (case mem_objs c n of None \<Rightarrow> Inl NotFound | Some obj \<Rightarrow> Inr obj, c)),
     k_create = (\<lambda>d c. if bad (GetName d) then (Inl (KErr ''refused''), c)
        else if mem_objs c (GetName d) \<noteq> None then (Inl (KErr ''already exists''), c) else (Inr d, d # c)),
     k_update = (\<lambda>d c. if bad (GetName d) then (Inl (KErr ''refused''), c)
        else case mem_objs c (GetName d) of None \<Rightarrow> (Inl NotFound, c)
          | Some cur \<Rightarrow> if GetResourceVersion d \<noteq> GetResourceVersion cur then (Inl (KErr ''conflict''), c) else (Inr d, d # c)),
     k_list = (\<lambda>k v c. (Inr (filter (\<lambda>obj. mem_objs c (GetName obj) = Some obj \<and> GetLabel obj k = v) c), c)),
     k_delete = (\<lambda>n c. if bad n then (Some (KErr ''refused''), c)
        else if mem_objs c n = None then (Some NotFound, c) else (None, filter (\<lambda>obj. GetName obj \<noteq> n) c))\<rparr>"

lemma mem_objs_simps:
  "mem_objs (d # c) = (mem_objs c)(GetName d \<mapsto> d)"
  "mem_objs (filter (\<lambda>obj. GetName obj \<noteq> n) c) = (mem_objs c)(n := None)"
proof -
  show "mem_objs (d # c) = (mem_objs c)(GetName d \<mapsto> d)" by (auto simp: mem_objs_def fun_eq_iff)
  have "find (\<lambda>obj. GetName obj = m) (filter (\<lambda>obj. GetName obj \<noteq> n) c) = (if m = n then None else find (\<lambda>obj. GetName obj = m) c)" for m
    by (induction c) auto
  then show "mem_objs (filter (\<lambda>obj. GetName obj \<noteq> n) c) = (mem_objs c)(n := None)" by (auto simp: mem_objs_def fun_eq_iff)
qed

interpretation mem: kube_api "mem_api bad" mem_objs bad for bad
proof unfold_locales
  fix k v c
  show "\<exists>items. fst (k_list (mem_api bad) k v c) = Inr items \<and> (\<forall>obj. obj \<in> set items \<longleftrightarrow> (\<exists>n. mem_objs c n = Some obj) \<and> GetLabel obj k = v)"
    by (auto simp: mem_api_def mem_objs_def dest: find_Some_mem)
  show "\<And>n obj. mem_objs c n = Some obj \<Longrightarrow> GetName obj = n"
    by (auto simp: mem_objs_def dest: find_Some_mem)
qed (auto simp: mem_api_def mem_objs_simps split: option.splits)

section \<open>Properties\<close>

text \<open>C6. The rendered DNS policies mean the policy: with label selectors as Kubernetes documents them,
  the DNS rules of the policies that select a pod are exactly those of the effective \<open>dns\<close>
  rules of its workspace, and a pod without the workspace label is selected by none.\<close>

theorem Render_effective:
  assumes "label_selector sel" "gomap_ok (Assign inp)" "gomap_ok (ZoneRules inp)" "gomap_ok (Grants inp)"
  shows "(\<Union>p \<in> {p \<in> set (Render inp). sel (exprs_of p) (Some ws)}. set (dns_of p)) = dnsRule ` set (Effective inp ws ''dns'') \<and>
    (\<forall>p \<in> set (Render inp). \<not> sel (exprs_of p) None)"
  using label_selector.render_effective [OF assms] label_selector.render_unlabelled [OF assms(1,2)] by blast

text \<open>C31. The output of Render is a function of the maps and not of their iteration order; its names
  are sorted and all different, and no policy is emitted with an empty DNS rule list (which
  would allow every name) or an empty \<open>In\<close> list.\<close>

theorem Render_canonical:
  assumes "DefaultZone inp = DefaultZone inp'" "same_map (Assign inp) (Assign inp')"
    "same_map (ZoneRules inp) (ZoneRules inp')" "same_map (Grants inp) (Grants inp')"
  shows "Render inp = Render inp' \<and> sorted (map GetName (Render inp)) \<and> distinct (map GetName (Render inp)) \<and>
    (\<forall>p \<in> set (Render inp). dns_of p \<noteq> [] \<and> match ''In'' (Some []) \<notin> set (exprs_of p))"
proof (intro conjI ballI)
  show "Render inp = Render inp'" by (rule Render_order [OF assms])
  show "sorted (map GetName (Render inp))" by (rule Render_sorted)
  have "gomap_ok (ZoneRules inp)" "gomap_ok (Grants inp)" using assms by (simp_all add: same_map_def)
  from Render_names_distinct [OF this] show "distinct (map GetName (Render inp))"
    unfolding Render_parts by (metis distinct_map distinct_sort set_sort)
next
  fix p assume p: "p \<in> set (Render inp)"
  have "match ''In'' vs \<noteq> match ''Exists'' w" "match ''In'' vs \<noteq> match ''NotIn'' w" for vs w by (auto simp: match_def)
  moreover have "match op (Some vs) = match op (Some ws) \<longleftrightarrow> vs = ws" for op vs ws by (auto simp: match_def inj_map_eq_map inj_def)
  ultimately show "dns_of p \<noteq> []" "match ''In'' (Some []) \<notin> set (exprs_of p)"
    using p unfolding Render_set by (auto simp: grant_policy_form elim!: renders_zone_form split: if_splits)
qed

text \<open>C8. Apply makes the cluster hold what was rendered, and one bad object never blocks the rest: against
  an API that refuses every call on some names, each policy whose name is neither refused nor taken
  by a foreign object is stored with the rendered spec, every managed object that is no longer desired
  and not refused is gone, refused and foreign objects are left alone, and an error is reported exactly when
  something desired could not be stored or something stale could not be deleted.\<close>

theorem Apply_reconciles:
  assumes "kube_api api objs bad" "gomap_ok (ZoneRules inp)" "gomap_ok (Grants inp)" "Apply api (Render inp) c = (errs, c')"
  shows "(\<forall>d \<in> set (Render inp). \<not> bad (GetName d) \<longrightarrow> free_for objs c (GetName d) \<longrightarrow>
      (\<exists>obj. objs c' (GetName d) = Some obj \<and> spec_equal obj d \<and> managed obj)) \<and>
    (\<forall>n. n \<notin> GetName ` set (Render inp) \<longrightarrow> \<not> bad n \<longrightarrow> free_for objs c n \<longrightarrow> objs c' n = None) \<and>
    (\<forall>n. bad n \<or> \<not> free_for objs c n \<longrightarrow> objs c' n = objs c n) \<and>
    (errs = [] \<longleftrightarrow> (\<forall>d \<in> set (Render inp). \<not> bad (GetName d) \<and> free_for objs c (GetName d)) \<and>
       (\<forall>n obj. objs c n = Some obj \<longrightarrow> managed obj \<longrightarrow> bad n \<longrightarrow> n \<in> GetName ` set (Render inp)))"
proof (rule kube_api.apply_effect [OF assms(1) _ _ assms(4)])
  show "\<forall>d \<in> set (Render inp). spec_equal d d \<and> (\<exists>n es rs. d = cnp n es rs)" using Render_spec_refl by blast
  show "distinct (map GetName (Render inp))"
    using Render_names_distinct [OF assms(2,3)] unfolding Render_parts by (metis distinct_map distinct_sort set_sort)
qed

theorem Render_effective_witness:
  "(\<Union>p \<in> {p \<in> set (Render demo_input). k8s_sel (exprs_of p) (Some ''w1'')}. set (dns_of p)) =
     {JObj [(''matchName'', JStr ''pypi.org'')]}"
proof -
  have "set (Effective demo_input ''w1'' ''dns'') = {\<lparr>Kind = ''dns'', Value = ''pypi.org'', Port = 0\<rparr>}" by code_simp
  moreover have "gomap_ok (Assign demo_input)" "gomap_ok (ZoneRules demo_input)" "gomap_ok (Grants demo_input)" by (simp_all add: demo_input_def)
  ultimately show ?thesis
    using Render_effective [OF k8s.label_selector_axioms, of demo_input "''w1''"] by (simp add: dnsRule_def HasPrefix_def)
qed

theorem Render_canonical_witness: "sorted (map GetName (Render demo_input)) \<and> Render demo_input \<noteq> []"
proof -
  have "same_map (Assign demo_input) (Assign demo_input)" "same_map (ZoneRules demo_input) (ZoneRules demo_input)"
    "same_map (Grants demo_input) (Grants demo_input)" by (simp_all add: same_map_def demo_input_def)
  moreover have "Render demo_input \<noteq> []" by code_simp
  ultimately show ?thesis using Render_canonical [of demo_input demo_input] by blast
qed

theorem Apply_reconciles_witness:
  "let (errs, c') = Apply (mem_api (\<lambda>_. False)) (Render demo_input) [cnp ''ws-dns-zone-old'' [] []]
   in errs = [] \<and> mem_objs c' ''ws-dns-zone-old'' = None"
proof -
  let ?c = "[cnp ''ws-dns-zone-old'' [] []]"
  obtain errs c' where run: "Apply (mem_api (\<lambda>_. False)) (Render demo_input) ?c = (errs, c')" by fastforce
  have ok: "gomap_ok (ZoneRules demo_input)" "gomap_ok (Grants demo_input)" by (simp_all add: demo_input_def)
  note R = Apply_reconciles [OF mem.kube_api_axioms ok run]
  have "map GetName (Render demo_input) = [''ws-dns-zone-z'']" by code_simp
  then have names: "GetName ` set (Render demo_input) = {''ws-dns-zone-z''}" by (metis list.set(1,2) set_map)
  have free: "free_for mem_objs ?c ''ws-dns-zone-old''" "free_for mem_objs ?c ''ws-dns-zone-z''"
    by (simp_all add: free_for_def mem_objs_def cnp_object)
  have "\<forall>d \<in> set (Render demo_input). free_for mem_objs ?c (GetName d)"
  proof
    fix d assume "d \<in> set (Render demo_input)"
    then have "GetName d \<in> {''ws-dns-zone-z''}" unfolding names [symmetric] by (rule imageI)
    then show "free_for mem_objs ?c (GetName d)" using free(2) by simp
  qed
  then have "errs = []" using R by blast
  moreover have "\<forall>n. n \<notin> GetName ` set (Render demo_input) \<longrightarrow> free_for mem_objs ?c n \<longrightarrow> mem_objs c' n = None" using R by blast
  then have "mem_objs c' ''ws-dns-zone-old'' = None" unfolding names using free(1) by simp
  ultimately show ?thesis using run by simp
qed

end
