(* ===== verification/Throttle.thy ===== *)
theory Throttle
  imports GoLib
begin

text \<open>
  The denial throttle of the service (src/admin/cmd/sandcastle-admin/main.go, lines 202 to 233).
  Times are nanoseconds; the lock makes each call atomic, so a run is a list of th_run. A key that is
  not in the map reads as the zero time, whose distance to any clock reading saturates.
\<close>

section \<open>Definitions\<close>

record throttle =
  th_last :: "(string, int) gomap"

definition max_duration :: int where
  "max_duration = 2 ^ 63 - 1"

definition since :: "int \<Rightarrow> (string, int) gomap \<Rightarrow> string \<Rightarrow> int" where
  \<comment> \<open>\<^verbatim>\<open>now.Sub(t.last[key])\<close>\<close>
  "since now seen key = (case map_of seen key of None \<Rightarrow> max_duration | Some at \<Rightarrow> now - at)"

definition th_cap :: nat where
  "th_cap = 10000"

definition second :: int where
  "second = 1000000000"

definition allow :: "int \<Rightarrow> string \<Rightarrow> throttle \<Rightarrow> bool \<times> throttle" where
  "allow now key t =
     (if since now (th_last t) key < second then (False, t)
      else let seen = AList.update key now (th_last t) in
        if th_cap < length seen then
          let seen = filter (\<lambda>(k, at). \<not> 60 * second < now - at) seen
          in (True, t\<lparr>th_last := if th_cap < length seen then [(key, now)] else seen\<rparr>)
        else (True, t\<lparr>th_last := seen\<rparr>))"

fun th_run :: "(int \<times> string) list \<Rightarrow> throttle \<Rightarrow> (int \<times> string \<times> bool) list \<times> throttle" where
  \<comment> \<open>a run: each call with what it returned\<close>
  "th_run [] t = ([], t)"
| "th_run ((now, key) # es) t =
     (case allow now key t of (ok, t') \<Rightarrow> case th_run es t' of (log, t'') \<Rightarrow> ((now, key, ok) # log, t''))"

definition new_throttle :: throttle where
  "new_throttle = \<lparr>th_last = []\<rparr>"

definition th_ok :: "throttle \<Rightarrow> bool" where
  "th_ok t \<longleftrightarrow> gomap_ok (th_last t) \<and> length (th_last t) \<le> th_cap"

section \<open>One call\<close>

lemma length_update: "length (AList.update k v m) = (if k \<in> fst ` set m then length m else Suc (length m))"
  by (induction m) (auto split: if_splits)

lemma allow_ok:
  assumes "th_ok t"
  shows "th_ok (snd (allow now key t))"
proof -
  have "gomap_ok (filter P m)" if "gomap_ok m" for P and m :: "(string, int) gomap"
    using that by (simp add: distinct_map_filter)
  then show ?thesis using assms
    by (simp add: th_ok_def allow_def Let_def distinct_update th_cap_def)
qed

lemma allow_False: "allow now key t = (False, t') \<longleftrightarrow> since now (th_last t) key < second \<and> t' = t"
  by (auto simp: allow_def Let_def)

lemma allow_True_recorded:
  assumes "allow now key t = (True, t')" "th_ok t"
  shows "map_of (th_last t') key = Some now"
proof -
  have "map_of (filter (\<lambda>(k, at). \<not> 60 * second < now - at) (AList.update key now (th_last t))) key = Some now"
    using assms(2) by (subst map_of_eq_Some_iff)
      (auto simp: th_ok_def distinct_update distinct_map_filter second_def update_conv' intro!: map_of_SomeD)
  then show ?thesis using assms(1) by (auto simp: allow_def Let_def update_conv' split: if_splits)
qed

lemma allow_entries:
  assumes "allow now key t = (ok, t')" "(k, at) \<in> set (th_last t')" "th_ok t"
  shows "(k, at) \<in> set (th_last t) \<or> (ok \<and> k = key \<and> at = now)"
proof -
  have "(k, at) \<in> set (AList.update key now (th_last t)) \<Longrightarrow> (k, at) \<in> set (th_last t) \<or> (k = key \<and> at = now)"
    using assms(3) unfolding th_ok_def
    by (metis distinct_update fun_upd_apply map_of_SomeD map_of_is_SomeI option.inject update_conv')
  then show ?thesis using assms(1,2) by (auto simp: allow_def Let_def split: if_splits)
qed

lemma allow_keeps:
  \<comment> \<open>with room left nothing is forgotten\<close>
  assumes "allow now key t = (ok, t')" "k \<noteq> key" "length (AList.update key now (th_last t)) \<le> th_cap"
  shows "map_of (th_last t') k = map_of (th_last t) k"
  using assms by (auto simp: allow_def Let_def update_conv' split: if_splits)

section \<open>Runs\<close>

lemma th_run_Cons:
  obtains ok t' log t'' where "allow now key t = (ok, t')" "th_run es t' = (log, t'')" "th_run ((now, key) # es) t = ((now, key, ok) # log, t'')"
  by (cases "allow now key t"; cases "th_run es (snd (allow now key t))") auto

lemma th_run_ok: "th_ok t \<Longrightarrow> th_ok (snd (th_run es t))"
proof (induction es arbitrary: t)
  case (Cons e es)
  obtain now key where e: "e = (now, key)" by fastforce
  show ?case using Cons.IH [OF allow_ok [OF Cons.prems, of now key]]
    by (simp add: e case_prod_beta)
qed simp

lemma refused_run:
  assumes "th_ok t" "i < length es" "fst (th_run es t) ! i = (now, key, False)"
  shows "(\<exists>at. (key, at) \<in> set (th_last t) \<and> now - at < second) \<or>
    (\<exists>j at. j < i \<and> fst (th_run es t) ! j = (at, key, True) \<and> now - at < second)"
  using assms
proof (induction es arbitrary: t i)
  case (Cons e es)
  obtain n k where e: "e = (n, k)" by fastforce
  obtain ok t' log t'' where r: "allow n k t = (ok, t')" "th_run es t' = (log, t'')" "th_run (e # es) t = ((n, k, ok) # log, t'')"
    unfolding e by (rule th_run_Cons)
  have t': "th_ok t'" using allow_ok [OF Cons.prems(1), of n k] r(1) by simp
  show ?case
  proof (cases i)
    case 0
    then have "n = now" "k = key" "\<not> ok" using Cons.prems(3) r(3) by auto
    then have "since now (th_last t) key < second" using r(1) allow_False [of now key t t'] by simp
    then show ?thesis by (auto simp: since_def max_duration_def second_def split: option.splits dest: map_of_SomeD)
  next
    case (Suc i')
    have "fst (th_run es t') ! i' = (now, key, False)" using Cons.prems(3) r Suc by simp
    from Cons.IH [OF t' _ this] Cons.prems(2) Suc
    consider at where "(key, at) \<in> set (th_last t')" "now - at < second"
      | j at where "j < i'" "log ! j = (at, key, True)" "now - at < second" using r(2) by auto
    then show ?thesis
    proof cases
      case 1
      from allow_entries [OF r(1) this(1) Cons.prems(1)] show ?thesis
      proof
        assume "ok \<and> key = k \<and> at = n"
        then show ?thesis using 1 r(3) Suc by (intro disjI2 exI [of _ "0 :: nat"] exI [of _ n]) simp
      qed (use 1 in blast)
    next
      case 2
      then show ?thesis using r(3) Suc by (intro disjI2 exI [of _ "Suc j"]) simp
    qed
  qed
qed simp

lemma fewer_keys: "A \<subseteq> fst ` set m \<union> snd ` set es \<Longrightarrow> card (fst ` set m \<union> snd ` set es) \<le> n \<Longrightarrow> card A \<le> n"
  by (meson List.finite_set card_mono finite_UnI finite_imageI le_trans)

lemma room: "gomap_ok m \<Longrightarrow> card (insert k (fst ` set m)) \<le> n \<Longrightarrow> length (AList.update k v m) \<le> n"
proof -
  assume ok: "gomap_ok m" and n: "card (insert k (fst ` set m)) \<le> n"
  have "card (fst ` set m) = length m" using ok by (metis distinct_card length_map list.set_map)
  then show ?thesis using n by (cases "k \<in> fst ` set m") (simp_all add: length_update card_insert_if)
qed

lemma allow_keys:
  assumes "allow now key t = (ok, t')" "th_ok t"
  shows "fst ` set (th_last t') \<subseteq> insert key (fst ` set (th_last t))"
  using allow_entries [OF assms(1) _ assms(2)] by fastforce

lemma allowed_run:
  assumes "th_ok t" "card (fst ` set (th_last t) \<union> snd ` set es) \<le> th_cap"
    "map_of (th_last t) key = Some at" "j < length es" "fst (th_run es t) ! j = (now, key, True)"
  shows "at + second \<le> now"
  using assms
proof (induction es arbitrary: t j at)
  case (Cons e es)
  obtain n k where e: "e = (n, k)" by fastforce
  obtain ok t' log t'' where r: "allow n k t = (ok, t')" "th_run es t' = (log, t'')" "th_run (e # es) t = ((n, k, ok) # log, t'')"
    unfolding e by (rule th_run_Cons)
  have t': "th_ok t'" using allow_ok [OF Cons.prems(1), of n k] r(1) by simp
  have hit: "at + second \<le> n" if "k = key" ok
    using that r(1) Cons.prems(3) by (auto simp: allow_def since_def Let_def split: if_splits)
  show ?case
  proof (cases j)
    case 0
    then show ?thesis using Cons.prems(5) r(3) hit by auto
  next
    case (Suc j')
    have log: "fst (th_run es t') ! j' = (now, key, True)" "j' < length es" using Cons.prems(4,5) r Suc by auto
    have "fst ` set (th_last t') \<union> snd ` set es \<subseteq> fst ` set (th_last t) \<union> snd ` set (e # es)"
      using allow_keys [OF r(1) Cons.prems(1)] by (auto simp: e)
    then have card: "card (fst ` set (th_last t') \<union> snd ` set es) \<le> th_cap"
      by (rule fewer_keys [OF _ Cons.prems(2)])
    have fits: "length (AList.update k n (th_last t)) \<le> th_cap"
    proof (rule room)
      show "gomap_ok (th_last t)" using Cons.prems(1) by (simp add: th_ok_def)
      have "insert k (fst ` set (th_last t)) \<subseteq> fst ` set (th_last t) \<union> snd ` set (e # es)" by (auto simp: e)
      then show "card (insert k (fst ` set (th_last t))) \<le> th_cap"
        by (rule fewer_keys [OF _ Cons.prems(2)])
    qed
    show ?thesis
    proof (cases "k = key \<and> ok")
      case True
      then have "map_of (th_last t') key = Some n" using allow_True_recorded r(1) Cons.prems(1) by simp
      from Cons.IH [OF t' card this log(2,1)] hit True show ?thesis by (simp add: second_def)
    next
      case False
      then have "map_of (th_last t') key = Some at"
        using Cons.prems(3) allow_keeps [OF r(1) _ fits] r(1) allow_False [of n k t t'] by (cases ok) auto
      from Cons.IH [OF t' card this log(2,1)] show ?thesis .
    qed
  qed
qed simp

lemma allowed_twice:
  assumes "th_ok t" "card (fst ` set (th_last t) \<union> snd ` set es) \<le> th_cap" "i < j" "j < length es"
    "fst (th_run es t) ! i = (at, key, True)" "fst (th_run es t) ! j = (now, key, True)"
  shows "at + second \<le> now"
  using assms
proof (induction es arbitrary: t i j)
  case (Cons e es)
  obtain n k where e: "e = (n, k)" by fastforce
  obtain ok t' log t'' where r: "allow n k t = (ok, t')" "th_run es t' = (log, t'')" "th_run (e # es) t = ((n, k, ok) # log, t'')"
    unfolding e by (rule th_run_Cons)
  have t': "th_ok t'" using allow_ok [OF Cons.prems(1), of n k] r(1) by simp
  have "fst ` set (th_last t') \<union> snd ` set es \<subseteq> fst ` set (th_last t) \<union> snd ` set (e # es)"
    using allow_keys [OF r(1) Cons.prems(1)] by (auto simp: e)
  then have card: "card (fst ` set (th_last t') \<union> snd ` set es) \<le> th_cap"
    by (rule fewer_keys [OF _ Cons.prems(2)])
  obtain j' where j: "j = Suc j'" using Cons.prems(3) by (cases j) auto
  have log: "fst (th_run es t') ! j' = (now, key, True)" "j' < length es" using Cons.prems(4,6) r j by auto
  show ?case
  proof (cases i)
    case 0
    then have "n = at" "k = key" ok using Cons.prems(5) r(3) by auto
    then have "map_of (th_last t') key = Some at" using allow_True_recorded r(1) Cons.prems(1) by simp
    from allowed_run [OF t' card this log(2,1)] show ?thesis .
  next
    case (Suc i')
    then show ?thesis using Cons.IH [OF t' card _ log(2) _ log(1), of i'] Cons.prems(3,5) r j by auto
  qed
qed simp

section \<open>Properties\<close>

text \<open>C30. The denial throttle is exact within its means: a call is refused only when an earlier call for the same key
  was let through less than a second before; when no more than 10000 keys occur over the whole run, two calls for one
  key that are both let through are at least a second apart (beyond that the map may start over and a key pass twice within a second); and the map never holds more than 10000 entries.\<close>

theorem throttle_window:
  assumes "th_run es new_throttle = (log, t)"
  shows "(\<forall>i < length es. \<forall>now key. log ! i = (now, key, False) \<longrightarrow> (\<exists>j < i. \<exists>at. log ! j = (at, key, True) \<and> now - at < second)) \<and>
    (card (snd ` set es) \<le> th_cap \<longrightarrow>
      (\<forall>j < length es. \<forall>i < j. \<forall>at now key. log ! i = (at, key, True) \<longrightarrow> log ! j = (now, key, True) \<longrightarrow> at + second \<le> now)) \<and>
    length (th_last t) \<le> th_cap"
proof -
  have ok: "th_ok new_throttle" by (simp add: th_ok_def new_throttle_def)
  have "\<exists>j < i. \<exists>at. log ! j = (at, key, True) \<and> now - at < second" if "i < length es" "log ! i = (now, key, False)" for i now key
    using refused_run [OF ok that(1), of now key] that(2) assms by (auto simp: new_throttle_def)
  moreover have "at + second \<le> now" if "card (snd ` set es) \<le> th_cap" "j < length es" "i < j" "log ! i = (at, key, True)" "log ! j = (now, key, True)"
    for i j at now key
    using allowed_twice [OF ok _ that(3,2), of at key now] that(1,4,5) assms by (simp add: new_throttle_def)
  moreover have "length (th_last t) \<le> th_cap" using th_run_ok [OF ok, of es] assms by (simp add: th_ok_def)
  ultimately show ?thesis by blast
qed

theorem throttle_window_witness:
  "fst (th_run [(0, ''a''), (5, ''a''), (second, ''a'')] new_throttle) = [(0, ''a'', True), (5, ''a'', False), (second, ''a'', True)] \<and>
   0 + second \<le> second"
proof -
  let ?es = "[(0, ''a''), (5, ''a''), (second, ''a'')] :: (int \<times> string) list"
  have run: "fst (th_run ?es new_throttle) = [(0, ''a'', True), (5, ''a'', False), (second, ''a'', True)]" by code_simp
  have "card (snd ` set ?es) \<le> th_cap" by (simp add: th_cap_def)
  with throttle_window [of ?es, OF prod.collapse [symmetric]] run show ?thesis by auto
qed

end
