(* ===== verification/Migrate.thy ===== *)
theory Migrate
  imports Store
begin

text \<open>
  Schema migrations (src/admin/internal/store/store.go, function Migrate). The embedded files are a list of names
  and scripts in the order of \<^verbatim>\<open>ReadDir\<close>; what Postgres does with a script or a statement is the
  argument \<open>exec\<close>, from the schema to an error or a new schema. A script and its version row are one transaction.
\<close>

section \<open>Definitions\<close>

record 's owner_db =
  ow_schema :: 's
  ow_versions :: "string list option" \<comment> \<open>table schema_migrations, None before it is created\<close>

definition create_versions :: "'s owner_db \<Rightarrow> 's owner_db" where
  \<comment> \<open>\<^verbatim>\<open>CREATE TABLE IF NOT EXISTS schema_migrations (version text PRIMARY KEY)\<close>\<close>
  "create_versions db = (case ow_versions db of None \<Rightarrow> db\<lparr>ow_versions := Some []\<rparr> | Some _ \<Rightarrow> db)"

definition versions_of :: "'s owner_db \<Rightarrow> string list" where
  "versions_of db = (case ow_versions db of None \<Rightarrow> [] | Some vs \<Rightarrow> vs)"

fun migrate_files :: "(string \<Rightarrow> 's \<Rightarrow> string + 's) \<Rightarrow> (string \<times> string) list \<Rightarrow> 's owner_db \<Rightarrow> string option \<times> 's owner_db" where
  "migrate_files exec [] db = (None, db)"
| "migrate_files exec ((name, sql) # es) db =
     (if name \<in> set (versions_of db) then migrate_files exec es db
      else case exec sql (ow_schema db) of
        Inl e \<Rightarrow> (Some (name @ '': '' @ e), db)
      | Inr sch \<Rightarrow> migrate_files exec es (db\<lparr>ow_schema := sch, ow_versions := Some (versions_of db @ [name])\<rparr>))"

definition alter_role :: "string \<Rightarrow> string" where
  "alter_role appPassword =
     ''ALTER ROLE sandcastle_app WITH LOGIN PASSWORD '' @ [CHR 0x27] @ ReplaceAll appPassword (CHR 0x27) [CHR 0x27, CHR 0x27] @ [CHR 0x27]"

definition Migrate :: "string option \<Rightarrow> (string \<Rightarrow> 's \<Rightarrow> string + 's) \<Rightarrow> (string \<times> string) list \<Rightarrow> string \<Rightarrow> 's owner_db \<Rightarrow> string option \<times> 's owner_db" where
  \<comment> \<open>\<open>connErr\<close>: the error of connecting as the owner\<close>
  "Migrate connErr exec files appPassword db = (case connErr of
      Some e \<Rightarrow> (Some e, db)
    | None \<Rightarrow>
        (case migrate_files exec files (create_versions db) of
           (Some e, db) \<Rightarrow> (Some e, db)
         | (None, db) \<Rightarrow> (case exec (alter_role appPassword) (ow_schema db) of
               Inl e \<Rightarrow> (Some e, db)
             | Inr sch \<Rightarrow> (None, db\<lparr>ow_schema := sch\<rparr>))))"

definition Open :: "string option \<Rightarrow> string option \<Rightarrow> string option" where
  \<comment> \<open>the error of opening the store, from those of making the pool and of the ping\<close>
  "Open newErr pingErr = (case newErr of Some e \<Rightarrow> Some e | None \<Rightarrow> pingErr)"

text \<open>How Postgres reads a string literal after its opening quote: a doubled quote stands for one, a single one ends
  the literal; a backslash is an ordinary character (standard_conforming_strings).\<close>

fun sql_literal :: "string \<Rightarrow> (string \<times> string) option" where
  "sql_literal [] = None"
| "sql_literal [c] = (if c = CHR 0x27 then Some ([], []) else None)"
| "sql_literal (c # d # s) =
     (if c \<noteq> CHR 0x27 then map_option (apfst (Cons c)) (sql_literal (d # s))
      else if d = CHR 0x27 then map_option (apfst (Cons c)) (sql_literal s)
      else Some ([], d # s))"

section \<open>Facts\<close>

lemma versions_create [simp]: "versions_of (create_versions db) = versions_of db" "ow_schema (create_versions db) = ow_schema db"
  by (simp_all add: versions_of_def create_versions_def split: option.split)

lemma versions_update [simp]: "versions_of (db\<lparr>ow_schema := sch, ow_versions := Some vs\<rparr>) = vs"
  by (simp add: versions_of_def)

lemma migrate_done: "fst ` set files \<subseteq> set (versions_of db) \<Longrightarrow> migrate_files exec files db = (None, db)"
  by (induction files) auto

definition pending :: "'s owner_db \<Rightarrow> (string \<times> string) list \<Rightarrow> (string \<times> string) list" where
  \<comment> \<open>the files without a version row\<close>
  "pending db files = filter (\<lambda>f. fst f \<notin> set (versions_of db)) files"

fun scripts :: "(string \<Rightarrow> 's \<Rightarrow> string + 's) \<Rightarrow> string list \<Rightarrow> 's \<Rightarrow> string + 's" where
  \<comment> \<open>each script on what the one before left\<close>
  "scripts exec [] sch = Inr sch"
| "scripts exec (q # qs) sch = (case exec q sch of Inl e \<Rightarrow> Inl e | Inr sch \<Rightarrow> scripts exec qs sch)"

lemma migrate_files_result:
  "migrate_files exec files db = (err, db') \<Longrightarrow> distinct (map fst files) \<Longrightarrow>
     \<exists>n \<le> length (pending db files). scripts exec (map snd (take n (pending db files))) (ow_schema db) = Inr (ow_schema db') \<and>
       versions_of db' = versions_of db @ map fst (take n (pending db files)) \<and>
       (case err of None \<Rightarrow> n = length (pending db files)
        | Some e \<Rightarrow> n < length (pending db files) \<and>
            (\<exists>e'. exec (snd (pending db files ! n)) (ow_schema db') = Inl e' \<and> e = fst (pending db files ! n) @ '': '' @ e'))"
proof (induction files arbitrary: db)
  case Nil
  then show ?case by (simp add: pending_def)
next
  case (Cons f files)
  obtain name sql where f: "f = (name, sql)" by fastforce
  have d: "distinct (map fst files)" "name \<notin> fst ` set files" using Cons.prems(2) f by auto
  show ?case
  proof (cases "name \<in> set (versions_of db)")
    case True
    then have m: "migrate_files exec files db = (err, db')" and p: "pending db (f # files) = pending db files"
      using Cons.prems(1) f by (simp_all add: pending_def)
    show ?thesis unfolding p by (rule Cons.IH [OF m d(1)])
  next
    case False
    then have p: "pending db (f # files) = f # pending db files" by (simp add: pending_def f)
    show ?thesis
    proof (cases "exec sql (ow_schema db)")
      case (Inl e)
      then have "err = Some (name @ '': '' @ e)" "db' = db" using Cons.prems(1) f False by auto
      then show ?thesis unfolding p using Inl f by (intro exI [of _ 0]) simp
    next
      case (Inr sch)
      let ?db = "db\<lparr>ow_schema := sch, ow_versions := Some (versions_of db @ [name])\<rparr>"
      have q: "pending ?db files = pending db files" using d(2) by (auto simp: pending_def intro!: filter_cong)
      have "migrate_files exec files ?db = (err, db')" using Cons.prems(1) f False Inr by simp
      from Cons.IH [OF this d(1)] obtain n where n: "n \<le> length (pending db files)"
        "scripts exec (map snd (take n (pending db files))) sch = Inr (ow_schema db')"
        "versions_of db' = versions_of db @ name # map fst (take n (pending db files))"
        "case err of None \<Rightarrow> n = length (pending db files)
          | Some e \<Rightarrow> n < length (pending db files) \<and>
            (\<exists>e'. exec (snd (pending db files ! n)) (ow_schema db') = Inl e' \<and> e = fst (pending db files ! n) @ '': '' @ e')"
        unfolding q by auto
      then show ?thesis unfolding p using Inr f by (intro exI [of _ "Suc n"]) (simp split: option.splits)
    qed
  qed
qed

lemma pending_create [simp]: "pending (create_versions db) files = pending db files"
  by (simp add: pending_def)

lemma literal_roundtrip: "sql_literal (ReplaceAll s (CHR 0x27) [CHR 0x27, CHR 0x27] @ [CHR 0x27]) = Some (s, [])"
proof (induction s)
  case (Cons c s)
  obtain d t where "ReplaceAll s (CHR 0x27) [CHR 0x27, CHR 0x27] @ [CHR 0x27] = d # t"
    by (cases "ReplaceAll s (CHR 0x27) [CHR 0x27, CHR 0x27] @ [CHR 0x27]") auto
  with Cons show ?case by (auto simp: ReplaceAll_def)
qed (simp add: ReplaceAll_def)

section \<open>Properties\<close>

text \<open>C33. Migrations take effect once and in order, and a failed run can be repeated: a run executes the files that have no version row, in
  order and each on the schema the one before left, up to the first that fails; it records exactly those, and its schema is
  theirs. Its error names the failing file. When all files have been executed, it sets the password on that schema. After a run without error
  running the files again executes none.\<close>

theorem Migrate_once:
  assumes "Migrate connErr exec files pw db = (err, db')" "distinct (map fst files)"
  shows "case connErr of
      Some e \<Rightarrow> err = Some e \<and> db' = db
    | None \<Rightarrow> (\<exists>n \<le> length (pending db files). \<exists>sch. scripts exec (map snd (take n (pending db files))) (ow_schema db) = Inr sch \<and>
        versions_of db' = versions_of db @ map fst (take n (pending db files)) \<and>
        (case err of
           None \<Rightarrow> n = length (pending db files) \<and> exec (alter_role pw) sch = Inr (ow_schema db') \<and> migrate_files exec files db' = (None, db')
         | Some e \<Rightarrow> ow_schema db' = sch \<and>
             (if n < length (pending db files)
              then \<exists>e'. exec (snd (pending db files ! n)) sch = Inl e' \<and> e = fst (pending db files ! n) @ '': '' @ e'
              else exec (alter_role pw) sch = Inl e)))"
proof (cases connErr)
  case None
  obtain e1 db1 where m: "migrate_files exec files (create_versions db) = (e1, db1)" by fastforce
  from migrate_files_result [OF m assms(2), unfolded pending_create versions_create] obtain n where n: "n \<le> length (pending db files)"
    "scripts exec (map snd (take n (pending db files))) (ow_schema db) = Inr (ow_schema db1)"
    "versions_of db1 = versions_of db @ map fst (take n (pending db files))"
    "case e1 of None \<Rightarrow> n = length (pending db files)
      | Some e \<Rightarrow> n < length (pending db files) \<and>
        (\<exists>e'. exec (snd (pending db files ! n)) (ow_schema db1) = Inl e' \<and> e = fst (pending db files ! n) @ '': '' @ e')" by blast
  show ?thesis
  proof (cases e1)
    case (Some e)
    then have "err = Some e" "db' = db1" using assms(1) m None by (simp_all add: Migrate_def)
    then show ?thesis using n Some None by (auto intro!: exI [of _ n])
  next
    case e1: None
    then have all: "n = length (pending db files)" using n(4) by simp
    then have "fst ` set files \<subseteq> set (versions_of db1)" using n(3) by (auto simp: pending_def)
    then have again: "migrate_files exec files (db1\<lparr>ow_schema := s\<rparr>) = (None, db1\<lparr>ow_schema := s\<rparr>)" for s
      by (intro migrate_done) (simp add: versions_of_def)
    have v: "versions_of (db1\<lparr>ow_schema := s\<rparr>) = versions_of db1" for s by (simp add: versions_of_def)
    show ?thesis
    proof (cases "exec (alter_role pw) (ow_schema db1)")
      case (Inl e)
      then have "err = Some e" "db' = db1" using assms(1) m None e1 by (simp_all add: Migrate_def)
      then show ?thesis using n Inl None all by (auto intro!: exI [of _ n])
    next
      case (Inr s)
      then have "err = None" "db' = db1\<lparr>ow_schema := s\<rparr>" using assms(1) m None e1 by (simp_all add: Migrate_def)
      then show ?thesis using n Inr None all again [of s] v [of s] by (auto intro!: exI [of _ n])
    qed
  qed
next
  case (Some e)
  then have "err = Some e" "db' = db" using assms(1) by (auto simp: Migrate_def)
  then show ?thesis using Some by simp
qed

text \<open>C34. No password can break out of the statement that sets it: whatever its characters, Postgres reads the literal back as exactly
  the password, and nothing follows it.\<close>

theorem alter_role_quotes:
  "\<exists>lit. alter_role pw = ''ALTER ROLE sandcastle_app WITH LOGIN PASSWORD '' @ CHR 0x27 # lit \<and> sql_literal lit = Some (pw, [])"
  using literal_roundtrip [of pw] by (simp add: alter_role_def)

theorem Migrate_once_witness:
  "\<exists>db. Migrate None (\<lambda>q (s :: string list). Inr (s @ [q])) [(''001.sql'', ''CREATE''), (''002.sql'', ''INDEX'')] ''pw'' \<lparr>ow_schema = [], ow_versions = None\<rparr> = (None, db) \<and>
     ow_schema db = [''CREATE'', ''INDEX'', alter_role ''pw''] \<and> versions_of db = [''001.sql'', ''002.sql'']"
proof -
  let ?exec = "\<lambda>q (s :: string list). Inr (s @ [q]) :: string + string list" and ?db = "\<lparr>ow_schema = [], ow_versions = None\<rparr> :: string list owner_db"
  let ?files = "[(''001.sql'', ''CREATE''), (''002.sql'', ''INDEX'')]"
  obtain err db where m: "Migrate None ?exec ?files ''pw'' ?db = (err, db)" by fastforce
  have "fst (Migrate None ?exec ?files ''pw'' ?db) = None" by code_simp
  then have err: "err = None" using m by simp
  have "distinct (map fst ?files)" "pending ?db ?files = ?files" by (simp_all add: pending_def versions_of_def)
  then show ?thesis using Migrate_once [OF m] m err by (auto simp: versions_of_def [of ?db])
qed

end
