(* ===== verification/Wire.thy ===== *)
theory Wire
  imports JsonFacts Egress
begin

text \<open>
  How the objects of Build become messages (function decode in src/admin/internal/xds/build.go): \<^verbatim>\<open>json.Marshal\<close> of a tree,
  with the keys of every map sorted, then \<^verbatim>\<open>protojson.Unmarshal\<close> and the generated \<^verbatim>\<open>ValidateAll\<close>, which are arguments. What
  is printed is read back as the same tree, and every object of Build is a tree that prints faithfully.
\<close>

section \<open>Definitions\<close>

primrec Marshal :: "json \<Rightarrow> string" where
  \<comment> \<open>it cannot fail on strings, integers, booleans, slices and maps of these\<close>
  "Marshal (JStr s) = jstring s"
| "Marshal (JNum n) = Itoa n"
| "Marshal (JBool b) = jbool b"
| "Marshal (JArr xs) = ''['' @ Join (map Marshal xs) '','' @ '']''"
| "Marshal (JObj fs) = ''{'' @ Join (map (\<lambda>(k, v). jstring k @ '':'' @ v) (sort_key fst (map (map_prod id Marshal) fs))) '','' @ ''}''"

definition decode :: "(string \<Rightarrow> string \<Rightarrow> string + 'm) \<Rightarrow> ('m \<Rightarrow> string option) \<Rightarrow> string \<Rightarrow> json \<Rightarrow> string + 'm" where
  \<comment> \<open>\<open>validate\<close> is None also for a message without \<^verbatim>\<open>ValidateAll\<close>\<close>
  "decode unmarshal validate t v = (case unmarshal t (Marshal v) of
      Inl e \<Rightarrow> Inl e
    | Inr m \<Rightarrow> (case validate m of Some e \<Rightarrow> Inl e | None \<Rightarrow> Inr m))"

text \<open>What a reader of the text gets, and the trees for which this is the tree itself.\<close>

primrec text_of :: "json \<Rightarrow> jtext" where
  "text_of (JStr s) = TStr s"
| "text_of (JNum n) = TNum (Itoa n)"
| "text_of (JBool b) = TBool b"
| "text_of (JArr xs) = TArr (map text_of xs)"
| "text_of (JObj fs) = TObj (sort_key fst (map (map_prod id text_of) fs))"

primrec json_ok :: "json \<Rightarrow> bool" where
  "json_ok (JStr s) = utf8_ok s"
| "json_ok (JNum n) = True"
| "json_ok (JBool b) = True"
| "json_ok (JArr xs) = list_all (\<lambda>b. b) (map json_ok xs)"
| "json_ok (JObj fs) = (distinct (map fst fs) \<and> list_all (\<lambda>(k, ok). utf8_ok k \<and> ok) (map (map_prod id json_ok) fs))"

section \<open>What is printed is read back\<close>

lemma insort_key_map: "map g (insort_key (\<lambda>x. f (g x)) x xs) = insort_key f (g x) (map g xs)"
  by (induction xs) simp_all

lemma sort_key_map: "sort_key f (map g xs) = map g (sort_key (\<lambda>x. f (g x)) xs)"
  by (induction xs) (simp_all add: insort_key_map)

lemma sort_members: "sort_key fst (map (map_prod id h) fs) = map (map_prod id h) (sort_key fst fs)"
  using sort_key_map [of fst "map_prod id h" fs] by simp

definition plain_start :: "string \<Rightarrow> bool" where
  "plain_start s \<longleftrightarrow> s \<noteq> [] \<and> hd s \<notin> {CHR '' '', CHR 0x09, CHR 0x0A, CHR 0x0D, CHR '']'', CHR ''}''}"

lemma Marshal_start: "plain_start (Marshal j @ t)"
proof (cases j)
  case (JNum n)
  have "plain_start (utoa k @ t)" if "0 \<le> k" for k
    using utoa_digits [OF that] by (cases "utoa k") (auto simp: plain_start_def is_digit_def)
  then show ?thesis using JNum by (simp add: Itoa_def) (simp add: plain_start_def)
qed (simp_all add: plain_start_def jstring_def jbool_def dq_def)

lemma plain_skip: "plain_start s \<Longrightarrow> skip s = s \<and> \<not> HasPrefix s '']'' \<and> \<not> HasPrefix s ''}''"
  by (cases s) (auto simp: plain_start_def)

definition reads :: "json \<Rightarrow> bool" where
  "reads j \<longleftrightarrow> (\<forall>t. delim t \<longrightarrow> (\<exists>m. \<forall>n \<ge> m. jvalue n (Marshal j @ t) = Some (text_of j, t)))"

lemma readsD: "reads j \<Longrightarrow> delim t \<Longrightarrow> \<exists>m. \<forall>n \<ge> m. jvalue n (Marshal j @ t) = Some (text_of j, t)"
  by (simp add: reads_def)

lemma reads_elems:
  assumes "xs \<noteq> []" "\<forall>j \<in> set xs. reads j"
  shows "\<exists>m. \<forall>n \<ge> m. jelems n (Join (map Marshal xs) '','' @ CHR '']'' # t) = Some (map text_of xs, t)"
  using assms
proof (induction xs)
  case (Cons x xs)
  show ?case
  proof (cases "xs = []")
    case True
    obtain m where m: "\<And>n. m \<le> n \<Longrightarrow> jvalue n (Marshal x @ CHR '']'' # t) = Some (text_of x, CHR '']'' # t)"
      using readsD [of x "CHR '']'' # t"] Cons.prems by (auto simp: delim_def)
    have "jelems n (Join (map Marshal (x # xs)) '','' @ CHR '']'' # t) = Some (map text_of (x # xs), t)" if "Suc m \<le> n" for n
      using that m True by (cases n) simp_all
    then show ?thesis by blast
  next
    case False
    let ?rest = "Join (map Marshal xs) '','' @ CHR '']'' # t"
    obtain m' where m': "\<And>n. m' \<le> n \<Longrightarrow> jelems n ?rest = Some (map text_of xs, t)" using Cons False by auto
    obtain m where m: "\<And>n. m \<le> n \<Longrightarrow> jvalue n (Marshal x @ CHR '','' # ?rest) = Some (text_of x, CHR '','' # ?rest)"
      using readsD [of x "CHR '','' # ?rest"] Cons.prems by (auto simp: delim_def)
    have j: "Join (map Marshal (x # xs)) '','' @ CHR '']'' # t = Marshal x @ CHR '','' # ?rest" using False by (cases xs) simp_all
    have "jelems n (Join (map Marshal (x # xs)) '','' @ CHR '']'' # t) = Some (map text_of (x # xs), t)" if "Suc (max m m') \<le> n" for n
      unfolding j using that m m' by (cases n) simp_all
    then show ?thesis by blast
  qed
qed simp

lemma member_step:
  assumes "utf8_ok k" "jvalue n (Marshal j @ c # t) = Some (text_of j, c # t)" "c = CHR '','' \<or> c = CHR ''}''"
  shows "jmembers (Suc n) (jstring k @ '':'' @ Marshal j @ c # t) =
    (if c = CHR '','' then map_option (apfst (Cons (k, text_of j))) (jmembers n t) else Some ([(k, text_of j)], t))"
proof -
  have "unquote (quote k @ dq # CHR '':'' # Marshal j @ c # t) = Some (k, CHR '':'' # Marshal j @ c # t)"
    using assms(1) by (rule unquote_quote)
  then show ?thesis using assms(2,3) by (auto simp: jstring_def dq_def)
qed

lemma reads_members:
  assumes "fs \<noteq> []" "\<forall>(k, j) \<in> set fs. utf8_ok k \<and> reads j"
  shows "\<exists>m. \<forall>n \<ge> m. jmembers n (Join (map (\<lambda>(k, j). jstring k @ '':'' @ Marshal j) fs) '','' @ CHR ''}'' # t) = Some (map (map_prod id text_of) fs, t)"
  using assms
proof (induction fs)
  case (Cons f fs)
  obtain k x where f: "f = (k, x)" by fastforce
  let ?mem = "\<lambda>(k, j). jstring k @ '':'' @ Marshal j"
  have k: "utf8_ok k" "reads x" using Cons.prems f by auto
  show ?case
  proof (cases "fs = []")
    case True
    obtain m where m: "\<And>n. m \<le> n \<Longrightarrow> jvalue n (Marshal x @ CHR ''}'' # t) = Some (text_of x, CHR ''}'' # t)"
      using readsD [OF k(2), of "CHR ''}'' # t"] by (auto simp: delim_def)
    have "jmembers n (Join (map ?mem (f # fs)) '','' @ CHR ''}'' # t) = Some (map (map_prod id text_of) (f # fs), t)" if "Suc m \<le> n" for n
      using that member_step [OF k(1) m] True by (cases n) (simp_all add: f del: jmembers.simps)
    then show ?thesis by blast
  next
    case False
    let ?rest = "Join (map ?mem fs) '','' @ CHR ''}'' # t"
    obtain m' where m': "\<And>n. m' \<le> n \<Longrightarrow> jmembers n ?rest = Some (map (map_prod id text_of) fs, t)"
      using Cons.IH [OF False] Cons.prems(2) by (metis (no_types, lifting) list.set_intros(2))
    obtain m where m: "\<And>n. m \<le> n \<Longrightarrow> jvalue n (Marshal x @ CHR '','' # ?rest) = Some (text_of x, CHR '','' # ?rest)"
      using readsD [OF k(2), of "CHR '','' # ?rest"] by (auto simp: delim_def)
    have j: "Join (map ?mem (f # fs)) '','' @ CHR ''}'' # t = jstring k @ '':'' @ Marshal x @ CHR '','' # ?rest" using False by (cases fs) (simp_all add: f)
    have "jmembers n (Join (map ?mem (f # fs)) '','' @ CHR ''}'' # t) = Some (map (map_prod id text_of) (f # fs), t)" if n: "Suc (max m m') \<le> n" for n
    proof (cases n)
      case (Suc n')
      then show ?thesis unfolding j using n member_step [OF k(1) m [of n']] m' [of n'] by (simp add: f del: jmembers.simps)
    qed (use n in simp)
    then show ?thesis by blast
  qed
qed simp

lemma reads_ok: "json_ok j \<Longrightarrow> reads j"
proof (induction j)
  case (JStr s)
  have "jvalue n (jstring s @ t) = Some (TStr s, t)" if "1 \<le> n" for n t using that jvalue_string [of s "n - 1" t] JStr by simp
  then show ?case by (auto simp: reads_def)
next
  case (JNum k)
  have "jvalue n (Itoa k @ t) = Some (TNum (Itoa k), t)" if "1 \<le> n" "delim t" for n t using that jvalue_int [of t "n - 1" k] by simp
  then show ?case by (auto simp: reads_def)
next
  case (JBool b)
  have "jvalue n (jbool b @ t) = Some (TBool b, t)" if "1 \<le> n" for n t using that jvalue_bool [of "n - 1" b t] by simp
  then show ?case by (auto simp: reads_def)
next
  case (JArr xs)
  have ok: "\<forall>j \<in> set xs. reads j" using JArr by (auto simp: list_all_iff)
  show ?case
  proof (cases "xs = []")
    case False
    have "\<exists>m. \<forall>n \<ge> m. jvalue n (Marshal (JArr xs) @ t) = Some (text_of (JArr xs), t)" for t
    proof -
      obtain m where m: "\<And>n. m \<le> n \<Longrightarrow> jelems n (Join (map Marshal xs) '','' @ CHR '']'' # t) = Some (map text_of xs, t)"
        using reads_elems [OF False ok] by blast
      have "plain_start (Join (map Marshal xs) '','' @ CHR '']'' # t)"
        using False by (cases xs; cases "tl xs") (auto simp: Marshal_start)
      then have "jvalue n (Marshal (JArr xs) @ t) = Some (text_of (JArr xs), t)" if "Suc m \<le> n" for n
        using that m plain_skip by (cases n) (simp_all add: dq_def)
      then show ?thesis by blast
    qed
    then show ?thesis by (simp add: reads_def)
  next
    case True
    have "jvalue n (''[]'' @ t) = Some (TArr [], t)" if "1 \<le> n" for n t using that by (cases n) (simp_all add: dq_def)
    then show ?thesis using True by (auto simp: reads_def)
  qed
next
  case (JObj fs)
  have ok: "\<forall>(k, j) \<in> set (sort_key fst fs). utf8_ok k \<and> reads j"
    using JObj.prems JObj.IH by (fastforce simp: list_all_iff)
  have mem: "map (\<lambda>(k, v). jstring k @ '':'' @ v) (sort_key fst (map (map_prod id Marshal) fs)) = map (\<lambda>(k, j). jstring k @ '':'' @ Marshal j) (sort_key fst fs)"
    by (simp add: sort_members) (simp add: map_prod_def case_prod_beta comp_def)
  show ?case
  proof (cases "fs = []")
    case False
    then have ne: "sort_key fst fs \<noteq> []" by (metis length_0_conv length_sort)
    have "\<exists>m. \<forall>n \<ge> m. jvalue n (Marshal (JObj fs) @ t) = Some (text_of (JObj fs), t)" for t
    proof -
      let ?s = "Join (map (\<lambda>(k, j). jstring k @ '':'' @ Marshal j) (sort_key fst fs)) '','' @ CHR ''}'' # t"
      obtain m where m: "\<And>n. m \<le> n \<Longrightarrow> jmembers n ?s = Some (map (map_prod id text_of) (sort_key fst fs), t)"
        using reads_members [OF ne ok] by blast
      have "plain_start ?s" using ne
        by (cases "sort_key fst fs"; cases "tl (sort_key fst fs)") (auto simp: plain_start_def jstring_def dq_def split: prod.split)
      then have "jvalue n (''{'' @ ?s) = Some (TObj (map (map_prod id text_of) (sort_key fst fs)), t)" if "Suc m \<le> n" for n
        using that m plain_skip by (cases n) (simp_all add: dq_def)
      moreover have "Marshal (JObj fs) @ t = ''{'' @ ?s" unfolding Marshal.simps mem by simp
      moreover have "text_of (JObj fs) = TObj (map (map_prod id text_of) (sort_key fst fs))" by (simp only: text_of.simps sort_members)
      ultimately show ?thesis by (metis (no_types, lifting))
    qed
    then show ?thesis by (simp add: reads_def)
  next
    case True
    have "jvalue n (''{}'' @ t) = Some (TObj [], t)" if "1 \<le> n" for n t using that by (cases n) (simp_all add: dq_def)
    then show ?thesis using True by (auto simp: reads_def)
  qed
qed

lemma Marshal_reads: "json_ok j \<Longrightarrow> json_whole (Marshal j) = Some (text_of j)"
proof -
  assume "json_ok j"
  then obtain m where m: "\<And>n. m \<le> n \<Longrightarrow> jvalue n (Marshal j) = Some (text_of j, [])"
    using readsD [OF reads_ok, of j "[]"] by (auto simp: delim_def)
  let ?n = "max m (2 * length (Marshal j) + 2)"
  have "jvalue (2 * length (Marshal j) + 2) (Marshal j) = Some (text_of j, [])"
    using m [of ?n] fuel_enough [of "Marshal j" ?n] by simp
  then show ?thesis by (simp add: json_whole_def)
qed

section \<open>The objects of Build\<close>

lemma utf8_ok_append: "utf8_ok s \<Longrightarrow> utf8_ok t \<Longrightarrow> utf8_ok (s @ t)"
proof (induction s rule: utf8_ok.induct)
  case (1 s)
  show ?case
  proof (cases "s = []")
    case False
    then obtain w where w: "rune_len s = Some w" "utf8_ok (drop (max 1 w) s)" using "1.prems"(1) by (subst (asm) utf8_ok.simps) (auto split: option.splits)
    have b: "1 \<le> w" "w \<le> length s" using rune_len_bounds [OF w(1)] by auto
    have "rune_len (s @ t) = Some w" using rune_len_take [OF w(1), of "drop w s @ t"] by (simp flip: append_assoc)
    moreover have "drop (max 1 w) (s @ t) = drop (max 1 w) s @ t" using b by (simp add: max_def)
    ultimately show ?thesis using "1.IH" [OF w(1,2) "1.prems"(2)] by (subst utf8_ok.simps) simp
  qed (use 1 in simp)
qed

lemma utf8_ok_numbers: "utf8_ok (utoa n)" "utf8_ok (Itoa n)" "utf8_ok (hex_encode h)"
proof -
  have u: "list_all (\<lambda>c. code c < 0x80) (utoa n)" if "0 \<le> n" for n
    using utoa_digits [OF that] by (auto simp: list_all_iff is_digit_def)
  have "utoa n = [char_of (48 + n mod 10)]" if "n < 0" for n using that by (subst utoa.simps) simp
  then have "list_all (\<lambda>c. code c < 0x80) (utoa n)" for n
    using u [of n] digit_chars(1) [of "n mod 10"] by (cases "0 \<le> n") (auto simp: is_digit_def)
  then show 1: "utf8_ok (utoa n)" for n by (rule ascii_utf8)
  show "utf8_ok (Itoa n)" using 1 by (simp add: Itoa_def)
  have d: "code (hex_digit k) < 0x80" for k
  proof -
    have "list_all (\<lambda>m. code (''0123456789abcdef'' ! nat m) < 0x80) [0..15]" by code_simp
    then show ?thesis using pos_mod_bound [of 16 k] pos_mod_sign [of 16 k] by (simp add: hex_digit_def list_all_iff)
  qed
  have "list_all (\<lambda>c. code c < 0x80) (hex_encode h)"
    unfolding hex_encode_def by (induction h) (simp_all add: Let_def d)
  then show "utf8_ok (hex_encode h)" by (rule ascii_utf8)
qed

lemma utf8_ok_lit: "code c < 0x80 \<Longrightarrow> utf8_ok s \<Longrightarrow> utf8_ok (c # s)"
  by simp

definition params_ok :: "Params \<Rightarrow> bool" where
  \<comment> \<open>strings of valid UTF-8\<close>
  "params_ok p \<longleftrightarrow> utf8_ok (RequestURL p) \<and> list_all (\<lambda>(k, ips). utf8_ok (hk_Host k) \<and> list_all utf8_ok ips) (Hosts p)"

lemmas object_defs = typed_def dnsCache_def perRoute_def rbacPerRoute_def

lemma listeners_ok:
  "utf8_ok url \<Longrightarrow> json_ok (proxyListener url)"
  "utf8_ok name \<Longrightarrow> utf8_ok host \<Longrightarrow> json_ok (sniListener name host)"
  by (simp_all add: proxyListener_def hcm_def deny_body_def sniListener_def object_defs RouteName_def utf8_ok_append)

lemma clusters_ok:
  "utf8_ok name \<Longrightarrow> json_ok (dfpCluster name)" "utf8_ok name \<Longrightarrow> json_ok (sni_cluster name)"
  by (simp_all add: dfpCluster_def sni_cluster_def object_defs)

lemma vhosts_ok:
  assumes "list_all utf8_ok ips" "utf8_ok (hk_Host k)" "utf8_ok hash"
  shows "json_ok (tls_vhost hash tm k ips)" "json_ok (http_vhost hash k ips)" "json_ok deny_vhost"
proof -
  have pr: "json_ok (perRoute ips)"
    using assms(1) by (simp add: object_defs list_all_iff)
  show "json_ok (tls_vhost hash tm k ips)" "json_ok (http_vhost hash k ips)"
    using pr assms(2,3) by (simp_all add: tls_vhost_def http_vhost_def utf8_ok_append utf8_ok_numbers)
  show "json_ok deny_vhost" by (simp add: deny_vhost_def)
qed

lemma objects_ok:
  assumes "params_ok p" "objects p = (ls, cs, vhosts)"
  shows "list_all json_ok ls" "list_all json_ok cs" "json_ok (route_config vhosts)"
proof -
  have hash: "utf8_ok (hashName k ips)" for k ips by (simp add: hashName_def utf8_ok_numbers Let_def)
  have sni: "utf8_ok (sni_name p k)" for k using hash by (simp add: sni_name_def)
  have host: "utf8_ok (hk_Host k)" "list_all utf8_ok (get_or [] (Hosts p) k)" if k: "k \<in> set (map fst (Hosts p))" for k
  proof -
    obtain ips where "map_of (Hosts p) k = Some ips" using k by (cases "map_of (Hosts p) k") (auto simp: map_of_eq_None_iff)
    then show "utf8_ok (hk_Host k)" "list_all utf8_ok (get_or [] (Hosts p) k)"
      using assms(1) map_of_SomeD [of "Hosts p" k ips] by (auto simp: params_ok_def list_all_iff get_or_def)
  qed
  have url: "utf8_ok (RequestURL p)" using assms(1) by (simp add: params_ok_def)
  have "json_ok (sniListener (sni_name p k) (hk_Host k))" if "(k, b) \<in> set (Hosts p)" for k b
    using listeners_ok(2) [OF sni host(1)] that by force
  then show "list_all json_ok ls" "list_all json_ok cs"
    using assms(2) listeners_ok(1) [OF url] clusters_ok sni by (auto simp: objects_form list_all_iff)
  have "json_ok (vhost_of p k)" if "k \<in> set (map fst (Hosts p))" for k
    using vhosts_ok(1,2) [OF host(2,1) [OF that] hash] by (simp add: vhost_of_def Let_def)
  then have "list_all json_ok vhosts" using assms(2) vhosts_ok(3) [of "[]" "HostKey [] 0" "[]"] by (force simp: objects_form list_all_iff)
  then show "json_ok (route_config vhosts)" by (auto simp: route_config_def RouteName_def list_all_iff)
qed

section \<open>Outcomes of Build\<close>

lemma decode_all_outcome:
  "case decode_all dec what t xs of
     Inr ms \<Rightarrow> map (dec t) xs = map Inr ms
   | Inl e \<Rightarrow> \<exists>pre x post e'. xs = pre @ x # post \<and> (\<forall>y \<in> set pre. \<exists>m. dec t y = Inr m) \<and> dec t x = Inl e' \<and> e = what @ '' '' @ obj_name x @ '': '' @ e'"
proof (induction xs)
  case (Cons x xs)
  show ?case
  proof (cases "dec t x")
    case (Inl e)
    then show ?thesis by (auto intro!: exI [of _ "[]"])
  next
    case (Inr m)
    show ?thesis
    proof (cases "decode_all dec what t xs")
      case (Inl e)
      then obtain pre y post e' where "xs = pre @ y # post" "\<forall>y \<in> set pre. \<exists>m. dec t y = Inr m" "dec t y = Inl e'" "e = what @ '' '' @ obj_name y @ '': '' @ e'"
        using Cons.IH by auto
      then show ?thesis using Inl Inr by (auto intro!: exI [of _ "x # pre"])
    next
      case (Inr ms)
      then show ?thesis using Cons.IH \<open>dec t x = Inr m\<close> by simp
    qed
  qed
qed simp

lemma Build_parts:
  assumes "Build dec p = Inr res" "objects p = (ls, cs, vhosts)"
  shows "map (dec ''Listener'') ls = map Inr (listener_type res) \<and> map (dec ''Cluster'') cs = map Inr (cluster_type res) \<and>
    [dec ''RouteConfiguration'' (route_config vhosts)] = map Inr (route_type res)"
  using assms decode_all_outcome [where dec = dec and what = "''listener''" and t = "''Listener''" and xs = ls]
    decode_all_outcome [where dec = dec and what = "''cluster''" and t = "''Cluster''" and xs = cs]
  by (auto simp: Build_def split: if_splits sum.splits)

section \<open>Properties\<close>

text \<open>Every object of Build is well formed and reaches Envoy's libraries as it is: with strings of valid UTF-8, every listener, every
  cluster and the route configuration has pairwise different keys at every level, and the text that decode hands to protojson is read back as
  exactly this object, its keys sorted.\<close>

theorem objects_exact:
  assumes "params_ok p" "objects p = (ls, cs, vhosts)" "j \<in> set ls \<union> set cs \<union> {route_config vhosts}"
  shows "json_ok j \<and> json_whole (Marshal j) = Some (text_of j) \<and>
    (decode unmarshal validate t j = Inr m \<longrightarrow> (\<exists>b. json_whole b = Some (text_of j) \<and> unmarshal t b = Inr m \<and> validate m = None))"
proof -
  have "json_ok j" using objects_ok [OF assms(1,2)] assms(3) by (auto simp: list_all_iff)
  then have r: "json_ok j \<and> json_whole (Marshal j) = Some (text_of j)" using Marshal_reads by simp
  then show ?thesis by (auto simp: decode_def split: sum.splits option.splits)
qed

text \<open>C25. Every outcome of Build: it succeeds exactly with a message for each object in order; otherwise the request URL has a percent sign, or the error
  names the first object that was not accepted.\<close>

theorem Build_outcome:
  assumes "objects p = (ls, cs, vhosts)"
  shows "case Build dec p of
      Inr res \<Rightarrow> \<not> Contains (RequestURL p) ''%'' \<and> map (dec ''Listener'') ls = map Inr (listener_type res) \<and>
        map (dec ''Cluster'') cs = map Inr (cluster_type res) \<and> [dec ''RouteConfiguration'' (route_config vhosts)] = map Inr (route_type res)
    | Inl e \<Rightarrow> Contains (RequestURL p) ''%'' \<or>
        (\<exists>pre x post e'. ls = pre @ x # post \<and> (\<forall>y \<in> set pre. \<exists>m. dec ''Listener'' y = Inr m) \<and> dec ''Listener'' x = Inl e' \<and> e = ''listener '' @ obj_name x @ '': '' @ e') \<or>
        (\<exists>pre x post e'. cs = pre @ x # post \<and> (\<forall>y \<in> set pre. \<exists>m. dec ''Cluster'' y = Inr m) \<and> dec ''Cluster'' x = Inl e' \<and> e = ''cluster '' @ obj_name x @ '': '' @ e') \<or>
        (\<exists>e'. dec ''RouteConfiguration'' (route_config vhosts) = Inl e' \<and> e = ''route: '' @ e')"
  using decode_all_outcome [where dec = dec and what = "''listener''" and t = "''Listener''" and xs = ls]
    decode_all_outcome [where dec = dec and what = "''cluster''" and t = "''Cluster''" and xs = cs]
  by (simp add: Build_def assms split: sum.splits)

section \<open>The properties on a concrete configuration\<close>

definition wire_params :: Params where
  "wire_params = \<lparr>Hosts = [(HostKey ''example.com'' 443, [''10.0.0.1''])], RequestURL = ''http://admin/r'', TunnelMax = 3600 * 1000000000\<rparr>"

theorem objects_exact_witness:
  "json_ok (proxyListener ''http://admin/r'') \<and> json_whole (Marshal (proxyListener ''http://admin/r'')) = Some (text_of (proxyListener ''http://admin/r''))"
proof -
  have ok: "params_ok wire_params" by (simp add: params_ok_def wire_params_def)
  obtain ls cs vhosts where o: "objects wire_params = (ls, cs, vhosts)" by (metis prod_cases3)
  have "ls = proxyListener (RequestURL wire_params) # tl ls" using o by (auto simp: objects_form)
  then have "proxyListener (RequestURL wire_params) \<in> set ls \<union> set cs \<union> {route_config vhosts}" by (metis UnI1 list.set_intros(1))
  moreover have "RequestURL wire_params = ''http://admin/r''" by (simp add: wire_params_def)
  ultimately have "proxyListener ''http://admin/r'' \<in> set ls \<union> set cs \<union> {route_config vhosts}" by simp
  note e = objects_exact [OF ok o this, where unmarshal = "\<lambda>_ b. Inr b" and validate = "\<lambda>_ :: string. None"]
  show ?thesis by (rule conjI [OF e [THEN conjunct1] e [THEN conjunct2, THEN conjunct1]])
qed

theorem Build_outcome_witness:
  "\<exists>e. Build (\<lambda>t j. if t = ''Cluster'' then Inl ''no'' else Inr j) wire_params = Inl e \<and> e = ''cluster dfp_http: no''"
proof -
  let ?dec = "\<lambda>t j. if t = ''Cluster'' then Inl ''no'' else (Inr j :: string + json)"
  obtain ls cs vhosts where o: "objects wire_params = (ls, dfpCluster ''dfp_http'' # cs, vhosts)" by (simp add: objects_form)
  have "\<not> Contains (RequestURL wire_params) ''%''" by (simp add: wire_params_def Contains_def)
  moreover have "Build ?dec wire_params \<noteq> Inr res" for res
    using Build_outcome [OF o, of ?dec] by (auto split: sum.splits)
  moreover have "obj_name (dfpCluster ''dfp_http'') = ''dfp_http''" by (simp add: obj_name_def dfpCluster_def)
  ultimately show ?thesis using Build_outcome [OF o, of ?dec]
    by (cases "Build ?dec wire_params") (auto simp: Cons_eq_append_conv)
qed

end
