(* ===== verification/Snapshot.thy ===== *)
theory Snapshot
  imports XdsServer
begin

text \<open>
  What the server relies on of go-control-plane's snapshot cache (src/admin/internal/xds/server.go, method Push): the locale
  \<open>snapshot_cache\<close> states that SetSnapshot without an error makes the snapshot the one served to the node, and that
  after an error the node is served this one or the one before (the cache stores before it
  answers the open watches). Its lemmas say what a push does to what Envoy is served.
\<close>

locale snapshot_cache =
  fixes setsnap :: "string \<Rightarrow> 's \<Rightarrow> 'c \<Rightarrow> string option \<times> 'c"
    and served :: "string \<Rightarrow> 'c \<Rightarrow> 's option"
  assumes set_nil: "setsnap n snap c = (None, c') \<Longrightarrow> served n c' = Some snap"
    and set_error: "setsnap n snap c = (Some e, c') \<Longrightarrow> served n c' = Some snap \<or> served n c' = served n c"
begin

lemma push_nil:
  assumes "Push new consistent setsnap res s = (None, s')"
  shows "\<exists>snap. new (utoa (uint (srv_version s'))) res = Inr snap \<and> served NodeID (srv_cache s') = Some snap"
  using assms set_nil [of NodeID _ "srv_cache s"] by (auto simp: Push_def Let_def split: sum.splits option.splits prod.splits)

lemma push_error:
  assumes "Push new consistent setsnap res s = (Some e, s')"
  shows "served NodeID (srv_cache s') = served NodeID (srv_cache s) \<or>
    (\<exists>snap. new (utoa (uint (srv_version s'))) res = Inr snap \<and> served NodeID (srv_cache s') = Some snap)"
  using assms set_error [of NodeID _ "srv_cache s" e] by (fastforce simp: Push_def Let_def split: sum.splits option.splits prod.splits)

end

definition mem_set :: "(string \<Rightarrow> bool) \<Rightarrow> string \<Rightarrow> 's \<Rightarrow> (string \<Rightarrow> 's option) \<Rightarrow> string option \<times> (string \<Rightarrow> 's option)" where
  \<comment> \<open>a cache in memory; \<open>bad\<close>: an open watch of this node does not take the answer\<close>
  "mem_set bad n snap c = (if bad n then Some ''context canceled'' else None, c(n \<mapsto> snap))"

definition mem_served :: "string \<Rightarrow> (string \<Rightarrow> 's option) \<Rightarrow> 's option" where
  "mem_served n c = c n"

interpretation cache: snapshot_cache "mem_set bad" mem_served for bad
  by unfold_locales (auto simp: mem_set_def mem_served_def split: if_splits)

text \<open>C26. What Envoy is served after a push, for every cache with the contract of SetSnapshot: a push without an error serves
  the new resources under the next version, after they have passed the consistency check; one with an error leaves the
  snapshot served before, or serves the new one when it was the cache that failed. Either way none of the next
  \<open>2^64 - 1\<close> pushes uses the version again, so Envoy never takes a new snapshot for one it already has.\<close>

theorem Push_served:
  assumes "snapshot_cache setsnap served" "Push new consistent setsnap res s = (e, s')"
  shows "(case e of
      None \<Rightarrow> \<exists>snap. new (utoa (uint (srv_version s + 1))) res = Inr snap \<and> consistent snap = None \<and> served NodeID (srv_cache s') = Some snap
    | Some _ \<Rightarrow> served NodeID (srv_cache s') = served NodeID (srv_cache s) \<or>
        (\<exists>snap. new (utoa (uint (srv_version s + 1))) res = Inr snap \<and> consistent snap = None \<and> served NodeID (srv_cache s') = Some snap)) \<and>
    srv_version s' = srv_version s + 1 \<and>
    (\<forall>n < 2 ^ 64. utoa (uint (srv_version s')) \<notin> set (versions n (srv_version s')))"
proof -
  have v: "srv_version s' = srv_version s + 1"
    using assms(2) by (auto simp: Push_def Let_def split: sum.splits option.splits prod.splits)
  have c: "consistent snap = None \<or> srv_cache s' = srv_cache s \<and> e \<noteq> None" if "new (utoa (uint (srv_version s'))) res = Inr snap" for snap
    using assms(2) that unfolding v by (auto simp: Push_def Let_def split: sum.splits option.splits prod.splits)
  have fresh: "\<forall>n < 2 ^ 64. utoa (uint (srv_version s')) \<notin> set (versions n (srv_version s'))"
    using versions_fresh by blast
  show ?thesis
  proof (cases e)
    case None
    obtain snap where "new (utoa (uint (srv_version s'))) res = Inr snap" "served NodeID (srv_cache s') = Some snap"
      using snapshot_cache.push_nil [OF assms(1) assms(2) [unfolded None]] by blast
    then show ?thesis using None c v fresh by auto
  next
    case (Some x)
    consider "served NodeID (srv_cache s') = served NodeID (srv_cache s)"
      | snap where "new (utoa (uint (srv_version s'))) res = Inr snap" "served NodeID (srv_cache s') = Some snap"
      using snapshot_cache.push_error [OF assms(1) assms(2) [unfolded Some]] by blast
    then show ?thesis
    proof cases
      case 2
      then show ?thesis using c [OF 2(1)] Some v fresh by auto
    qed (use Some v fresh in simp)
  qed
qed

theorem Push_served_witness:
  "mem_served NodeID (srv_cache (snd (Push (\<lambda>v r. Inr (v, r)) (\<lambda>_. None) (mem_set (\<lambda>_. False)) (7 :: nat) (NewServer Map.empty)))) = Some (''1'', 7) \<and>
   mem_served NodeID (srv_cache (snd (Push (\<lambda>v r. Inl ''bad'') (\<lambda>_ :: string \<times> nat. None) (mem_set (\<lambda>_. False)) (7 :: nat) (NewServer Map.empty)))) = None"
proof -
  let ?ok = "Push (\<lambda>v r. Inr (v, r)) (\<lambda>_. None) (mem_set (\<lambda>_. False)) (7 :: nat) (NewServer Map.empty)"
  let ?bad = "Push (\<lambda>v r. Inl ''bad'') (\<lambda>_ :: string \<times> nat. None) (mem_set (\<lambda>_. False)) (7 :: nat) (NewServer Map.empty)"
  have one: "utoa 1 = ''1''" by code_simp
  have ok: "?ok = (None, snd ?ok)" by (simp add: Push_def NewServer_def mem_set_def Let_def)
  have bad: "?bad = (Some ''bad'', snd ?bad)" by (simp add: Push_def Let_def)
  have v: "srv_version (NewServer Map.empty :: (string \<Rightarrow> (string \<times> nat) option) Server) = 0"
    "srv_cache (NewServer Map.empty :: (string \<Rightarrow> (string \<times> nat) option) Server) = Map.empty" by (simp_all add: NewServer_def)
  show ?thesis
    using Push_served [OF cache.snapshot_cache_axioms ok] Push_served [OF cache.snapshot_cache_axioms bad]
    by (simp add: v one mem_served_def)
qed

end
