(* ===== verification/Service.thy ===== *)
theory Service
  imports WebSafety CiliumApply Throttle Migrate Wire Snapshot
begin

text \<open>
  The service (src/admin/cmd/sandcastle-admin/main.go): start-up, the denial callback, the
  reconciliation of Envoy and Cilium with the database, and the event loop.

  The state \<open>svc\<close> holds what the goroutines share. An event is one atomic step of one of them, in any order: a request
  is answered (its call of \<^verbatim>\<open>notify\<close> is still on its way), a pod event updates the informer cache, a call of
  notify reaches the channel, an entry of the access log arrives, or the loop takes its next step. The loop reads the
  policy with three queries, then the pods, and then pushes, so that requests and pod events fall between.
  \<open>Deploy\<close> holds what the service is built with: the database's functions, protojson and the validation of messages, the snapshot cache,
  the Kubernetes API, the map iteration orders and how joined errors print. A database that does not answer is an event
  with an error.
\<close>

section \<open>Start-up\<close>

definition tunnelMax :: duration where
  "tunnelMax = hour"

definition getenv :: "(string, string) gomap \<Rightarrow> string \<Rightarrow> string" where
  "getenv vars k = get_or [] vars k"

definition env :: "(string, string) gomap \<Rightarrow> string \<Rightarrow> string + string" where
  \<comment> \<open>\<open>Inl\<close>: the process ends with this message\<close>
  "env vars k = (let v = getenv vars k in if v = [] then Inl (k @ '' is required'') else Inr v)"

definition sbind :: "'e + 'a \<Rightarrow> ('a \<Rightarrow> 'e + 'b) \<Rightarrow> 'e + 'b" where
  "sbind x f = (case x of Inl e \<Rightarrow> Inl e | Inr a \<Rightarrow> f a)"

fun hex_decode :: "string \<Rightarrow> string option" where
  \<comment> \<open>\<^verbatim>\<open>hex.DecodeString\<close>\<close>
  "hex_decode [] = Some []"
| "hex_decode [c] = None"
| "hex_decode (a # b # s) = (case (hex_value a, hex_value b) of
      (Some x, Some y) \<Rightarrow> map_option (Cons (byte (16 * x + y))) (hex_decode s)
    | _ \<Rightarrow> None)"

definition serve_auth :: "(string, string) gomap \<Rightarrow> string + Authn \<times> string" where
  \<comment> \<open>lines 77 to 89 of serve, after the database has been opened: the authenticator and the public URL; the text of
    the hex error is left out\<close>
  "serve_auth vars =
     sbind (env vars ''SESSION_KEY'') (\<lambda>hex.
     case hex_decode hex of None \<Rightarrow> Inl ''SESSION_KEY'' | Some key \<Rightarrow>
     sbind (env vars ''PUBLIC_URL'') (\<lambda>publicURL.
     sbind (env vars ''CODER_URL'') (\<lambda>coder.
     sbind (env vars ''CODER_INTERNAL_URL'') (\<lambda>internal.
     sbind (env vars ''OAUTH_CLIENT_ID'') (\<lambda>cid.
     sbind (env vars ''OAUTH_CLIENT_SECRET'') (\<lambda>secret.
     sbind (New \<lparr>CoderURL = coder, CoderInternalURL = internal, ClientID = cid, ClientSecret = secret,
              CallbackURL = publicURL @ ''/callback'', Key = key, TestToken = getenv vars ''TEST_TOKEN''\<rparr>) (\<lambda>a.
     Inr (a, publicURL))))))))"

section \<open>Reconciliation\<close>

record ('m, 's, 'c, 'k) Deploy =
  dp_pg :: pg
  dp_auth :: Authn
  dp_URL :: string
  dp_unmarshal :: "string \<Rightarrow> string \<Rightarrow> string + 'm"
  dp_validate :: "'m \<Rightarrow> string option"
  dp_new :: "string \<Rightarrow> 'm resources \<Rightarrow> string + 's"
  dp_consistent :: "'s \<Rightarrow> string option"
  dp_set :: "string \<Rightarrow> 's \<Rightarrow> 'c \<Rightarrow> string option \<times> 'c"
  dp_api :: "'k kapi"
  dp_ord :: "HostKey list \<Rightarrow> HostKey list"
  dp_ord' :: "HostKey \<Rightarrow> HostKey list \<Rightarrow> HostKey list"
  dp_join :: "apply_err list \<Rightarrow> string"

abbreviation build :: "('m, 's, 'c, 'k) Deploy \<Rightarrow> Params \<Rightarrow> string + 'm resources" where
  "build D p \<equiv> Build (decode (dp_unmarshal D) (dp_validate D)) p"

definition params_of :: "('m, 's, 'c, 'k) Deploy \<Rightarrow> Input \<Rightarrow> Params" where
  "params_of D inp = \<lparr>Hosts = HostIPs (dp_ord D) (dp_ord' D) inp, RequestURL = dp_URL D @ ''/r'', TunnelMax = tunnelMax\<rparr>"

definition apply_policy :: "('m, 's, 'c, 'k) Deploy \<Rightarrow> string + Input \<Rightarrow> 'c Server \<times> 'k \<Rightarrow> string option \<times> 'c Server \<times> 'k" where
  \<comment> \<open>function apply, from the result of loading the policy and the pods\<close>
  "apply_policy D loaded = (\<lambda>(xs, k). case loaded of
      Inl e \<Rightarrow> (Some (''load policy: '' @ e), xs, k)
    | Inr inp \<Rightarrow>
        (case build D (params_of D inp) of
           Inl e \<Rightarrow> (Some (''build xds: '' @ e), xs, k)
         | Inr res \<Rightarrow>
             (case Push (dp_new D) (dp_consistent D) (dp_set D) res xs of
                (Some e, xs) \<Rightarrow> (Some (''push xds: '' @ e), xs, k)
              | (None, xs) \<Rightarrow>
                  (case Apply (dp_api D) (Render inp) k of
                     (errs, k) \<Rightarrow> (if errs = [] then None else Some (''apply cilium: '' @ dp_join D errs), xs, k)))))"

definition pushed :: "('m, 's, 'c, 'k) Deploy \<Rightarrow> Input \<Rightarrow> 'c Server \<Rightarrow> bool" where
  \<comment> \<open>the resources for this input were built and the push returned nil\<close>
  "pushed D inp xs = (case build D (params_of D inp) of
      Inl _ \<Rightarrow> False
    | Inr res \<Rightarrow> fst (Push (dp_new D) (dp_consistent D) (dp_set D) res xs) = None)"

section \<open>Shared state and events\<close>

datatype loop =
    Select
  | Sleep
  | Load0
  | Load1 db
  | Load2 db db time
  | Load3 Input
  | Ready Input
  | Stopped

record ('c, 'k) svc =
  sv_db :: db
  sv_pods :: PodCache
  sv_calls :: nat \<comment> \<open>calls of notify on their way\<close>
  sv_changed :: bool \<comment> \<open>the channel \<^verbatim>\<open>changed\<close>, of capacity one\<close>
  sv_throttle :: throttle
  sv_xds :: "'c Server"
  sv_cluster :: 'k
  sv_lastErr :: string
  sv_loop :: loop
  sv_asked :: time \<comment> \<open>history: the time of the last query of the rules\<close>
  sv_ok :: bool \<comment> \<open>history: the last reconciliation returned nil\<close>
  sv_served :: "Input option" \<comment> \<open>history: the input of the last push that returned nil\<close>

definition notify :: "('c, 'k) svc \<Rightarrow> ('c, 'k) svc" where
  \<comment> \<open>a token more would not fit: the send falls through\<close>
  "notify s = s\<lparr>sv_changed := True\<rparr>"

definition OnDenial :: "pg \<Rightarrow> int \<Rightarrow> time \<Rightarrow> XDenial \<Rightarrow> ('c, 'k) svc \<Rightarrow> ('c, 'k) svc" where
  "OnDenial E clock now d s = (case ByIP (sv_pods s) (SrcIP d) of
      None \<Rightarrow> s
    | Some ws \<Rightarrow>
        (case allow clock (ID ws @ ''|'' @ xd_Host d @ ''|'' @ Itoa (xd_Port d)) (sv_throttle s) of (ok, t) \<Rightarrow>
           if \<not> ok then s\<lparr>sv_throttle := t\<rparr>
           else s\<lparr>sv_throttle := t, sv_db := snd (RecordDenial E now (ID ws) (xd_Host d) (xd_Port d) (sv_db s))\<rparr>))"

definition reconcile :: "('m, 's, 'c, 'k) Deploy \<Rightarrow> time \<Rightarrow> bool \<Rightarrow> string + Input \<Rightarrow> ('c, 'k) svc \<Rightarrow> ('c, 'k) svc" where
  \<comment> \<open>\<open>up\<close>: the database takes the audit row\<close>
  "reconcile D now up loaded s =
     (case apply_policy D loaded (sv_xds s, sv_cluster s) of (err, xs, k) \<Rightarrow>
        let msg = (case err of None \<Rightarrow> [] | Some e \<Rightarrow> e);
            d = (if err \<noteq> None \<and> msg \<noteq> sv_lastErr s \<and> up
                 then snd (AuditSystem now ''reconcile_error'' [(''error'', JStr msg)] (sv_db s)) else sv_db s)
        in s\<lparr>sv_xds := xs, sv_cluster := k, sv_db := d, sv_lastErr := msg, sv_ok := (err = None),
             sv_served := (case loaded of Inl _ \<Rightarrow> sv_served s
               | Inr inp \<Rightarrow> if pushed D inp (sv_xds s) then Some inp else sv_served s)\<rparr>)"

datatype event =
    Request WEnv Req
  | PodEvent PodCache
  | Notify
  | AccessLog "string \<Rightarrow> string" int time LogEntry
  | Changed_case
  | Drain
  | Resync
  | Expiry time bool
  | Query time
  | QueryFails string time bool
  | ReadPods
  | Finish time bool
  | Stop

definition web_of :: "('m, 's, 'c, 'k) Deploy \<Rightarrow> ('c, 'k) svc \<Rightarrow> nat WebServer" where
  "web_of D s = \<lparr>ws_auth = dp_auth D, ws_pods = sv_pods s, Changed = Suc\<rparr>"

definition on_request :: "('m, 's, 'c, 'k) Deploy \<Rightarrow> WEnv \<Rightarrow> Req \<Rightarrow> ('c, 'k) svc \<Rightarrow> ('c, 'k) svc" where
  "on_request D E r s =
     (let st = snd (Routes (E\<lparr>we_pg := dp_pg D\<rparr>) (web_of D s) r \<lparr>wb_db = sv_db s, wb_ch = sv_calls s\<rparr>)
      in s\<lparr>sv_db := wb_db st, sv_calls := wb_ch st\<rparr>)"

definition on_expiry :: "time \<Rightarrow> bool \<Rightarrow> ('c, 'k) svc \<Rightarrow> ('c, 'k) svc" where
  \<comment> \<open>\<open>up\<close>: the database answers in time\<close>
  "on_expiry now up s =
     (if \<not> up then s
      else case ExpireGrants now (sv_db s) of
        (Inl _, d) \<Rightarrow> s\<lparr>sv_db := d\<rparr>
      | (Inr n, d) \<Rightarrow> if 0 < n then notify (s\<lparr>sv_db := d\<rparr>) else s\<lparr>sv_db := d\<rparr>)"

fun step :: "('m, 's, 'c, 'k) Deploy \<Rightarrow> event \<Rightarrow> ('c, 'k) svc \<Rightarrow> ('c, 'k) svc option" where
  \<comment> \<open>None: the event cannot happen now\<close>
  "step D (Request E r) s = Some (on_request D E r s)"
| "step D (PodEvent p) s = Some (on_pod_event (\<lambda>s. s\<lparr>sv_calls := Suc (sv_calls s)\<rparr>) (\<lambda>p s. s\<lparr>sv_pods := p\<rparr>) p s)"
| "step D Notify s = (if sv_calls s = 0 then None else Some (notify (s\<lparr>sv_calls := sv_calls s - 1\<rparr>)))"
| "step D (AccessLog uni clock now e) s = Some (snd (StreamAccessLogs uni (Some (OnDenial (dp_pg D) clock now)) [Recv [e]] s))"
| "step D Changed_case s = (case sv_loop s of
      Select \<Rightarrow> if sv_changed s then Some (s\<lparr>sv_changed := False, sv_loop := Sleep\<rparr>) else None | _ \<Rightarrow> None)"
| "step D Drain s = (case sv_loop s of Sleep \<Rightarrow> Some (s\<lparr>sv_changed := False, sv_loop := Load0\<rparr>) | _ \<Rightarrow> None)"
| "step D Resync s = (case sv_loop s of Select \<Rightarrow> Some (s\<lparr>sv_loop := Load0\<rparr>) | _ \<Rightarrow> None)"
| "step D (Expiry now up) s = (case sv_loop s of Select \<Rightarrow> Some (on_expiry now up s) | _ \<Rightarrow> None)"
| "step D (Query now) s = (case sv_loop s of
      Load0 \<Rightarrow> Some (s\<lparr>sv_loop := Load1 (sv_db s)\<rparr>)
    | Load1 d1 \<Rightarrow> Some (s\<lparr>sv_loop := Load2 d1 (sv_db s) now, sv_asked := now\<rparr>)
    | Load2 d1 d2 t \<Rightarrow> Some (s\<lparr>sv_loop := Load3 (PolicyInput (dp_pg D) t d1 d2 (sv_db s))\<rparr>)
    | _ \<Rightarrow> None)"
| "step D (QueryFails e now up) s = (case sv_loop s of
      Load0 \<Rightarrow> Some ((reconcile D now up (Inl e) s)\<lparr>sv_loop := Select\<rparr>)
    | Load1 _ \<Rightarrow> Some ((reconcile D now up (Inl e) s)\<lparr>sv_loop := Select\<rparr>)
    | Load2 _ _ _ \<Rightarrow> Some ((reconcile D now up (Inl e) s)\<lparr>sv_loop := Select\<rparr>)
    | _ \<Rightarrow> None)"
| "step D ReadPods s = (case sv_loop s of
      Load3 inp \<Rightarrow> Some (s\<lparr>sv_loop := Ready (inp\<lparr>Pods := Running (sv_pods s)\<rparr>)\<rparr>) | _ \<Rightarrow> None)"
| "step D (Finish now up) s = (case sv_loop s of
      Ready inp \<Rightarrow> Some ((reconcile D now up (Inr inp) s)\<lparr>sv_loop := Select\<rparr>) | _ \<Rightarrow> None)"
| "step D Stop s = (case sv_loop s of Select \<Rightarrow> Some (s\<lparr>sv_loop := Stopped\<rparr>) | _ \<Rightarrow> None)"

definition start_state :: "db \<Rightarrow> PodCache \<Rightarrow> 'c \<Rightarrow> 'k \<Rightarrow> ('c, 'k) svc" where
  \<comment> \<open>after Seed, watch.Start and the first notify\<close>
  "start_state d p c0 k0 = notify \<lparr>sv_db = d, sv_pods = p, sv_calls = 0, sv_changed = False, sv_throttle = new_throttle,
     sv_xds = NewServer c0, sv_cluster = k0, sv_lastErr = [], sv_loop = Select, sv_asked = 0, sv_ok = True, sv_served = None\<rparr>"

definition serve_start :: "(string, string) gomap \<Rightarrow> string option \<Rightarrow> (err \<Rightarrow> string) \<Rightarrow> (err + unit) \<times> db \<Rightarrow> string option \<Rightarrow> string + PodCache \<Rightarrow>
    string option \<Rightarrow> 'c \<Rightarrow> 'k \<Rightarrow> string + Authn \<times> string \<times> ('c, 'k) svc" where
  \<comment> \<open>serve up to its loop, from the results of store.Open, Seed, the Kubernetes clients, watch.Start and the listener for gRPC\<close>
  "serve_start vars opened errText seeded clients started listenErr c0 k0 =
     sbind (env vars ''DB_APP_DSN'') (\<lambda>_.
     case opened of Some e \<Rightarrow> Inl (''open store: '' @ e) | None \<Rightarrow>
     case seeded of (Inl e, _) \<Rightarrow> Inl (''seed: '' @ errText e) | (Inr _, d) \<Rightarrow>
     sbind (serve_auth vars) (\<lambda>(a, publicURL).
     case clients of Some e \<Rightarrow> Inl e | None \<Rightarrow>
     sbind started (\<lambda>p.
     case listenErr of Some e \<Rightarrow> Inl e | None \<Rightarrow> Inr (a, publicURL, start_state d p c0 k0))))"

definition migrate :: "(string, string) gomap \<Rightarrow> string option \<Rightarrow> (string \<Rightarrow> 's \<Rightarrow> string + 's) \<Rightarrow> (string \<times> string) list \<Rightarrow> 's owner_db \<Rightarrow> string option \<times> 's owner_db" where
  "migrate vars connErr psql files db = (case env vars ''DB_OWNER_DSN'' of
      Inl e \<Rightarrow> (Some e, db)
    | Inr _ \<Rightarrow> (case env vars ''DB_APP_PASSWORD'' of
        Inl e \<Rightarrow> (Some e, db)
      | Inr pw \<Rightarrow> (case Migrate connErr psql files pw db of
          (Some e, db) \<Rightarrow> (Some (''migrate: '' @ e), db)
        | (None, db) \<Rightarrow> (None, db))))"

datatype mode = RunServe | RunMigrate

definition main_mode :: "string list \<Rightarrow> mode" where
  "main_mode args = (if 1 < length args \<and> args ! 1 = ''migrate'' then RunMigrate else RunServe)"

inductive running :: "('m, 's, 'c, 'k) Deploy \<Rightarrow> ('c, 'k) svc \<Rightarrow> bool" for D where
  init: "d = empty_db \<or> reachable (dp_pg D) d \<Longrightarrow>
    serve_start vars (Open newErr pingErr) errText (Seed gen now d) clients (Start handlerErr synced p) listenErr c0 k0 = Inr (dp_auth D, dp_URL D, s) \<Longrightarrow> running D s"
| step: "running D s \<Longrightarrow> step D e s = Some s' \<Longrightarrow> running D s'"

fun_cases step_casesE: "step D e s = Some s'"

fun run :: "('m, 's, 'c, 'k) Deploy \<Rightarrow> event list \<Rightarrow> ('c, 'k) svc \<Rightarrow> ('c, 'k) svc option" where
  "run D [] s = Some s"
| "run D (e # es) s = (case step D e s of None \<Rightarrow> None | Some s' \<Rightarrow> run D es s')"

end
