(* ===== verification/ServiceSafety.thy ===== *)
theory ServiceSafety
  imports Service
begin

text \<open>
  What the running service guarantees. \<open>running_inv\<close> holds in every state that any interleaving of events reaches: the
  database is one the store can reach, and a change of the policy tables or the pods that the loop has not
  loaded yet is announced by a call of notify or a token in the channel. \<open>work\<close> bounds the steps until the service
  is at rest.
\<close>

section \<open>The database stays reachable\<close>

lemma reachable_exec: "reachable E d \<Longrightarrow> d' = exec E c d \<Longrightarrow> reachable E d'"
  by (simp add: reachable.step)

lemma Routes_reachable:
  assumes "reachable (we_pg E) (wb_db st)"
  shows "reachable (we_pg E) (wb_db (snd (Routes E s r st)))"
proof (rule Routes_cases [of E s r st])
  fix resp assume "Routes E s r st = (resp, st)"
  then show ?thesis using assms by simp
next
  fix a u vals
  let ?r = "r\<lparr>hr_Path := vals\<rparr>"
  assume R: "Routes E s r st = apfst secure (act E s a ?r u st)"
  show ?thesis using Routes_result [OF R] act_effect [of E s a ?r u st] assms
    by (cases "call_of E s a ?r u") (auto intro: reachable.step)
qed

lemma on_request_reachable: "reachable (dp_pg D) (sv_db s) \<Longrightarrow> reachable (dp_pg D) (sv_db (on_request D E r s))"
  using Routes_reachable [of "E\<lparr>we_pg := dp_pg D\<rparr>" "\<lparr>wb_db = sv_db s, wb_ch = sv_calls s\<rparr>"] by (simp add: on_request_def Let_def)

lemma OnDenial_db:
  "sv_db (OnDenial E clock now d s) = sv_db s \<or>
   (\<exists>ws. sv_db (OnDenial E clock now d s) = snd (RecordDenial E now ws (xd_Host d) (xd_Port d) (sv_db s)))"
  by (auto simp: OnDenial_def split: option.split prod.split)

lemma AccessLog_cases:
  assumes "step D (AccessLog uni clock now e) s = Some s'"
  obtains "denial uni e = None" "s' = s" | d where "denial uni e = Some d" "s' = OnDenial (dp_pg D) clock now d s"
  using assms by (cases "denial uni e") auto

lemma OnDenial_rest:
  "sv_pods (OnDenial E clock now d s) = sv_pods s \<and> sv_calls (OnDenial E clock now d s) = sv_calls s \<and>
   sv_changed (OnDenial E clock now d s) = sv_changed s \<and> sv_loop (OnDenial E clock now d s) = sv_loop s \<and>
   sv_asked (OnDenial E clock now d s) = sv_asked s \<and> sv_ok (OnDenial E clock now d s) = sv_ok s \<and> sv_served (OnDenial E clock now d s) = sv_served s"
  by (simp add: OnDenial_def split: option.split prod.split)

lemma on_expiry_db: "sv_db (on_expiry now up s) = (if up then snd (ExpireGrants now (sv_db s)) else sv_db s)"
  by (simp add: on_expiry_def notify_def split: prod.split sum.split)

lemma reconcile_db: "sv_db (reconcile D now up loaded s) = sv_db s \<or>
    (\<exists>msg. sv_db (reconcile D now up loaded s) = snd (AuditSystem now ''reconcile_error'' [(''error'', JStr msg)] (sv_db s)))"
  by (cases "apply_policy D loaded (sv_xds s, sv_cluster s)") (auto simp: reconcile_def Let_def)

lemma step_reachable:
  assumes "reachable (dp_pg D) (sv_db s)" "step D e s = Some s'"
  shows "reachable (dp_pg D) (sv_db s')"
proof -
  have rec: "reachable (dp_pg D) (sv_db (reconcile D now up loaded s))" for now up loaded
    using reconcile_db [of D now up loaded s] assms(1) reachable.step [of "dp_pg D" "sv_db s" "CAuditSystem now _ _"]
    by (metis exec.simps(12))
  show ?thesis
  proof (cases e)
    case (Request E r)
    then show ?thesis using assms on_request_reachable by auto
  next
    case (AccessLog uni clock now x)
    from assms(2) [unfolded AccessLog] show ?thesis
    proof (cases rule: AccessLog_cases)
      case (2 d)
      then show ?thesis using assms(1) OnDenial_db [of "dp_pg D" clock now d s] reachable.step exec.simps(15) by metis
    qed (use assms(1) in simp)
  next
    case (Expiry now up)
    then have "s' = on_expiry now up s" using assms(2) by (auto split: loop.splits)
    then show ?thesis using assms(1) on_expiry_db [of now up s] reachable.step [of "dp_pg D" "sv_db s" "CExpireGrants now"] by simp
  qed (use assms rec in \<open>auto simp: notify_def on_pod_event_def split: loop.splits if_splits\<close>)
qed

section \<open>No change goes unnoticed\<close>

definition dirty :: "('c, 'k) svc \<Rightarrow> bool" where
  \<comment> \<open>a call of notify is on its way, or its token waits in the channel\<close>
  "dirty s \<longleftrightarrow> sv_changed s \<or> 0 < sv_calls s"

definition tables :: "db \<Rightarrow> zone_row list \<times> rule_row list \<times> assignment_row list" where
  "tables d = (zones d, rules d, assignments d)"

definition current :: "('m, 's, 'c, 'k) Deploy \<Rightarrow> time \<Rightarrow> ('c, 'k) svc \<Rightarrow> Input" where
  "current D t s = (PolicyInput (dp_pg D) t (sv_db s) (sv_db s) (sv_db s))\<lparr>Pods := Running (sv_pods s)\<rparr>"

fun phase_ok :: "('m, 's, 'c, 'k) Deploy \<Rightarrow> ('c, 'k) svc \<Rightarrow> loop \<Rightarrow> bool" where
  "phase_ok D s Select = (sv_ok s \<longrightarrow> sv_served s = Some (current D (sv_asked s) s))"
| "phase_ok D s (Load1 d1) = (zones d1 = zones (sv_db s))"
| "phase_ok D s (Load2 d1 d2 t) = (zones d1 = zones (sv_db s) \<and> rules d2 = rules (sv_db s) \<and> t = sv_asked s)"
| "phase_ok D s (Load3 inp) = (inp = PolicyInput (dp_pg D) (sv_asked s) (sv_db s) (sv_db s) (sv_db s))"
| "phase_ok D s (Ready inp) = (inp = current D (sv_asked s) s)"
| "phase_ok D s _ = True"

definition noticed :: "('m, 's, 'c, 'k) Deploy \<Rightarrow> ('c, 'k) svc \<Rightarrow> bool" where
  "noticed D s \<longleftrightarrow> dirty s \<or> phase_ok D s (sv_loop s)"

lemma PolicyInput_tables:
  "zones d1 = zones d1' \<Longrightarrow> rules d2 = rules d2' \<Longrightarrow> assignments d3 = assignments d3' \<Longrightarrow> PolicyInput E t d1 d2 d3 = PolicyInput E t d1' d2' d3'"
  by (simp add: PolicyInput_def)

lemma current_tables: "tables (sv_db s) = tables (sv_db s') \<Longrightarrow> sv_pods s = sv_pods s' \<Longrightarrow> current D t s = current D t s'"
  unfolding current_def tables_def by (metis PolicyInput_tables prod.inject)

lemma current_loop [simp]: "current D t (s\<lparr>sv_loop := l\<rparr>) = current D t s"
  by (simp add: current_def)

lemma phase_ok_loop [simp]: "phase_ok D (s\<lparr>sv_loop := l\<rparr>) p = phase_ok D s p"
  by (cases p) simp_all

lemma tables_RecordDenial: "db_ok d \<Longrightarrow> tables (snd (RecordDenial E now ws host port d)) = tables d"
proof -
  assume "db_ok d"
  moreover have "tables (d\<lparr>denials := x\<rparr>) = tables d" for x by (simp add: tables_def)
  ultimately show ?thesis using record_denial_frame by metis
qed

lemma noticed_frame:
  assumes "noticed D s" "sv_loop s' = sv_loop s" "sv_ok s' = sv_ok s" "sv_served s' = sv_served s" "sv_asked s' = sv_asked s" "dirty s \<Longrightarrow> dirty s'"
    "\<not> dirty s' \<Longrightarrow> sv_pods s' = sv_pods s \<and> tables (sv_db s') = tables (sv_db s)"
  shows "noticed D s'"
proof (cases "dirty s'")
  case False
  then have p: "phase_ok D s (sv_loop s)" and eq: "sv_pods s' = sv_pods s" "tables (sv_db s') = tables (sv_db s)"
    using assms by (auto simp: noticed_def)
  have "current D t s' = current D t s" for t using eq by (intro current_tables) simp_all
  moreover have "PolicyInput E t (sv_db s') (sv_db s') (sv_db s') = PolicyInput E t (sv_db s) (sv_db s) (sv_db s)" for E t
    using eq(2) by (intro PolicyInput_tables) (simp_all add: tables_def)
  ultimately have "phase_ok D s' (sv_loop s)"
    using p eq(2) assms(3-5) by (cases "sv_loop s") (simp_all add: tables_def)
  then show ?thesis by (simp add: noticed_def assms(2))
qed (simp add: noticed_def)

lemma on_request_noticed:
  "noticed D s \<Longrightarrow> noticed D (on_request D E r s)"
proof -
  let ?E = "E\<lparr>we_pg := dp_pg D\<rparr>" and ?st = "\<lparr>wb_db = sv_db s, wb_ch = sv_calls s\<rparr>"
  obtain resp st' where R: "Routes ?E (web_of D s) r ?st = (resp, st')" by fastforce
  have s': "on_request D E r s = s\<lparr>sv_db := wb_db st', sv_calls := wb_ch st'\<rparr>" by (simp add: on_request_def R)
  have "wb_ch st' = Suc (sv_calls s) \<or> st' = ?st" using Routes_signalled [OF R]
    by (auto simp: signalled_def web_of_def split: if_splits)
  then show "noticed D s \<Longrightarrow> noticed D (on_request D E r s)"
    by (rule disjE) (erule noticed_frame; simp add: s' dirty_def)+
qed

lemma ExpireGrants_none:
  assumes "ExpireGrants now d = (Inr 0, d')"
  shows "tables d' = tables d"
proof -
  have none: "filter (expired_at now) (rules d) = []" using assms by (simp add: ExpireGrants_run Let_def)
  then have "filter (\<lambda>r. \<not> expired_at now r) (rules d) = rules d" by (auto simp: filter_empty_conv intro: filter_True)
  then show ?thesis using assms none by (auto simp: ExpireGrants_run Let_def tables_def)
qed

lemma on_expiry_noticed: "noticed D s \<Longrightarrow> noticed D (on_expiry now up s)"
proof (cases "ExpireGrants now (sv_db s)")
  case (Pair res d')
  have unchanged: "tables d' = tables (sv_db s)" if "\<not> (\<exists>n. res = Inr n \<and> 0 < n)"
    using that Pair expire_grants.failed_unchanged [of now "sv_db s"] ExpireGrants_none [of now "sv_db s" d'] by (cases res) auto
  show "noticed D s \<Longrightarrow> noticed D (on_expiry now up s)"
    by (erule noticed_frame) (use unchanged in \<open>auto simp: on_expiry_def Pair notify_def dirty_def split: sum.splits\<close>)
qed

lemma apply_policy_nil: "apply_policy D (Inr inp) (xs, k) = (None, xs', k') \<Longrightarrow> pushed D inp xs"
  by (auto simp: apply_policy_def pushed_def split: sum.splits prod.splits option.splits)

lemma reconcile_fails:
  "sv_ok (reconcile D now up (Inl e) s) = False"
  by (simp add: reconcile_def apply_policy_def Let_def)

lemma reconcile_Ready:
  assumes "inp = current D (sv_asked s) s"
  shows "phase_ok D (reconcile D now up (Inr inp) s) Select"
proof (cases "apply_policy D (Inr inp) (sv_xds s, sv_cluster s)")
  case (fields err xs k)
  show ?thesis
  proof (cases err)
    case None
    then have "sv_served (reconcile D now up (Inr inp) s) = Some inp" "sv_db (reconcile D now up (Inr inp) s) = sv_db s"
      "sv_pods (reconcile D now up (Inr inp) s) = sv_pods s" "sv_asked (reconcile D now up (Inr inp) s) = sv_asked s"
      using fields apply_policy_nil [of D inp "sv_xds s" "sv_cluster s" xs k] by (simp_all add: reconcile_def Let_def)
    then show ?thesis using assms by (auto simp: current_def)
  qed (simp add: reconcile_def fields Let_def)
qed

lemma step_noticed:
  assumes "noticed D s" "db_ok (sv_db s)" "step D e s = Some s'"
  shows "noticed D s'"
proof (cases e)
  case (Request E r)
  then show ?thesis using assms on_request_noticed by auto
next
  case (AccessLog uni clock now x)
  from assms(3) [unfolded AccessLog] show ?thesis
  proof (cases rule: AccessLog_cases)
    case (2 d)
    have "tables (sv_db s') = tables (sv_db s)"
      using OnDenial_db [of "dp_pg D" clock now d s] tables_RecordDenial [OF assms(2)] unfolding 2 by metis
    then show ?thesis using OnDenial_rest [of "dp_pg D" clock now d s] by (intro noticed_frame [OF assms(1)]) (simp_all add: 2 dirty_def)
  qed (use assms(1) in simp)
next
  case (Expiry now up)
  then show ?thesis using assms on_expiry_noticed by (auto split: loop.splits)
next
  case (Query now)
  consider "sv_loop s = Load0" "s' = s\<lparr>sv_loop := Load1 (sv_db s)\<rparr>"
    | d1 where "sv_loop s = Load1 d1" "s' = s\<lparr>sv_loop := Load2 d1 (sv_db s) now, sv_asked := now\<rparr>"
    | d1 d2 t where "sv_loop s = Load2 d1 d2 t" "s' = s\<lparr>sv_loop := Load3 (PolicyInput (dp_pg D) t d1 d2 (sv_db s))\<rparr>"
    using assms(3) Query by (auto split: loop.splits)
  then show ?thesis
  proof cases
    case 3
    then show ?thesis
      using assms(1) PolicyInput_tables [of d1 "sv_db s" d2 "sv_db s" "sv_db s" "sv_db s" "dp_pg D" t] by (auto simp: noticed_def dirty_def)
  qed (use assms(1) in \<open>auto simp: noticed_def dirty_def\<close>)
next
  case (Finish now up)
  then obtain inp where l: "sv_loop s = Ready inp" "s' = (reconcile D now up (Inr inp) s)\<lparr>sv_loop := Select\<rparr>"
    using assms(3) by (auto split: loop.splits)
  have flags: "dirty s' \<longleftrightarrow> dirty s" by (simp add: l(2) dirty_def reconcile_def Let_def split: prod.split)
  show ?thesis
  proof (cases "dirty s")
    case False
    then have "inp = current D (sv_asked s) s" using assms(1) l(1) by (auto simp: noticed_def)
    from reconcile_Ready [OF this] show ?thesis by (simp add: noticed_def l(2))
  qed (simp add: noticed_def flags)
qed (use assms in \<open>auto simp: noticed_def dirty_def notify_def on_pod_event_def reconcile_fails current_def split: loop.splits if_splits\<close>)

lemma serve_start_state:
  assumes "serve_start vars opened errText seeded clients started listenErr c0 k0 = Inr (a, url, s)"
  shows "\<exists>d p. s = start_state d p c0 k0 \<and> seeded = (Inr (), d)"
  using assms by (auto simp: serve_start_def sbind_def split: sum.splits option.splits prod.splits)

lemma running_inv:
  assumes "running D s"
  shows "reachable (dp_pg D) (sv_db s) \<and> noticed D s"
  using assms
proof (induction rule: running.induct)
  case (init d vars newErr pingErr errText gen now clients handlerErr synced p listenErr c0 k0 s)
  from serve_start_state [OF init(2)] obtain d' p' where s: "s = start_state d' p' c0 k0" "Seed gen now d = (Inr (), d')" by blast
  have "reachable (dp_pg D) d'"
    using init(1) s(2) reachable.start [of gen now "dp_pg D"] reachable.step [of "dp_pg D" d "CSeed gen now"] by auto
  then show ?case by (simp add: s(1) start_state_def notify_def noticed_def dirty_def)
next
  case (step s e s')
  then have "db_ok (sv_db s)" using reachable_inv by blast
  then show ?case using step step_reachable step_noticed by metis
qed

lemma Effective_Pods [simp]: "Effective (inp\<lparr>Pods := ps\<rparr>) ws kind = Effective inp ws kind"
  by (simp add: Effective_def ZoneOf_def split: option.split)

section \<open>What Envoy is served\<close>

definition snapshot_of :: "('m, 's, 'c, 'k) Deploy \<Rightarrow> Input \<Rightarrow> 's \<Rightarrow> bool" where
  \<comment> \<open>a snapshot of what Build made of this input, under some version\<close>
  "snapshot_of D inp snap \<longleftrightarrow> (\<exists>v res. build D (params_of D inp) = Inr res \<and> dp_new D v res = Inr snap)"

definition envoy_ok :: "(string \<Rightarrow> 'c \<Rightarrow> 's option) \<Rightarrow> ('m, 's, 'c, 'k) Deploy \<Rightarrow> ('c, 'k) svc \<Rightarrow> bool" where
  "envoy_ok served D s \<longleftrightarrow> (case sv_served s of
      None \<Rightarrow> True
    | Some inp \<Rightarrow> sv_ok s \<longrightarrow> (\<exists>snap. snapshot_of D inp snap \<and> served NodeID (srv_cache (sv_xds s)) = Some snap))"

lemma reconcile_served:
  assumes "snapshot_cache (dp_set D) served" "sv_ok (reconcile D now up loaded s)"
  shows "\<exists>inp snap. loaded = Inr inp \<and> sv_served (reconcile D now up loaded s) = Some inp \<and> snapshot_of D inp snap \<and>
    served NodeID (srv_cache (sv_xds (reconcile D now up loaded s))) = Some snap"
proof -
  obtain err xs k where a: "apply_policy D loaded (sv_xds s, sv_cluster s) = (err, xs, k)" by (metis prod_cases3)
  have "err = None" using assms(2) by (simp add: reconcile_def a Let_def)
  with a obtain inp res where l: "loaded = Inr inp" "build D (params_of D inp) = Inr res" "Push (dp_new D) (dp_consistent D) (dp_set D) res (sv_xds s) = (None, xs)"
    by (auto simp: apply_policy_def split: sum.splits prod.splits option.splits)
  have "snapshot_of D inp snap" if "dp_new D v res = Inr snap" for v snap using l(2) that by (auto simp: snapshot_of_def)
  moreover have "sv_served (reconcile D now up loaded s) = Some inp" "sv_xds (reconcile D now up loaded s) = xs"
    unfolding reconcile_def a using l by (simp_all add: Let_def pushed_def)
  ultimately show ?thesis using snapshot_cache.push_nil [OF assms(1) l(3)] l(1) by auto
qed

lemma reconcile_envoy:
  assumes "snapshot_cache (dp_set D) served"
  shows "envoy_ok served D ((reconcile D now up loaded s)\<lparr>sv_loop := l\<rparr>)"
proof (cases "sv_ok (reconcile D now up loaded s)")
  case True
  then show ?thesis using reconcile_served [OF assms True] by (auto simp: envoy_ok_def)
qed (simp add: envoy_ok_def split: option.split)

lemma other_steps:
  assumes "step D e s = Some s'" "\<forall>now up. e \<noteq> Finish now up"
  shows "sv_xds s' = sv_xds s \<and> sv_cluster s' = sv_cluster s"
proof (cases e)
  case (AccessLog uni clock now x)
  from assms(1) [unfolded AccessLog] show ?thesis
    by (cases rule: AccessLog_cases) (auto simp: OnDenial_def split: option.splits prod.splits)
qed (use assms in \<open>auto simp: on_request_def on_expiry_def on_pod_event_def notify_def reconcile_def apply_policy_def Let_def
  split: loop.splits if_splits prod.splits sum.splits\<close>)

lemma step_envoy:
  assumes "snapshot_cache (dp_set D) served" "envoy_ok served D s" "step D e s = Some s'"
  shows "envoy_ok served D s'"
proof -
  consider (rec) now up loaded where "s' = (reconcile D now up loaded s)\<lparr>sv_loop := Select\<rparr>" | (other) "sv_ok s' = sv_ok s" "sv_served s' = sv_served s" "sv_xds s' = sv_xds s"
  proof (cases e)
    case (AccessLog uni clock now x)
    from assms(3) [unfolded AccessLog] show ?thesis
    proof (cases rule: AccessLog_cases)
      case (2 d)
      then show ?thesis using OnDenial_rest [of "dp_pg D" clock now d s] other_steps [OF assms(3)] AccessLog by (intro that(2)) auto
    qed (use that(2) in simp)
  qed (use assms(3) that in \<open>auto simp: on_request_def on_expiry_def on_pod_event_def notify_def Let_def split: loop.splits if_splits prod.splits sum.splits\<close>)
  then show ?thesis
  proof cases
    case rec
    then show ?thesis using reconcile_envoy [OF assms(1)] by simp
  next
    case other
    then show ?thesis using assms(2) unfolding envoy_ok_def by (simp only:)
  qed
qed

lemma running_envoy:
  assumes "snapshot_cache (dp_set D) served" "running D s"
  shows "envoy_ok served D s"
  using assms(2)
proof (induction rule: running.induct)
  case (init d vars newErr pingErr errText gen now clients handlerErr synced p listenErr c0 k0 s)
  from serve_start_state [OF init(2)] show ?case by (auto simp: envoy_ok_def start_state_def notify_def)
next
  case (step s e s')
  then show ?case using step_envoy [OF assms(1)] by blast
qed

section \<open>The service comes to rest\<close>

definition internal :: "event \<Rightarrow> bool" where
  \<comment> \<open>what the service does by itself, without a request, a pod event, a denial, a tick or a signal\<close>
  "internal e \<longleftrightarrow> (case e of Notify \<Rightarrow> True | Changed_case \<Rightarrow> True | Drain \<Rightarrow> True | Query _ \<Rightarrow> True
     | QueryFails _ _ _ \<Rightarrow> True | ReadPods \<Rightarrow> True | Finish _ _ \<Rightarrow> True | _ \<Rightarrow> False)"

fun phase_steps :: "loop \<Rightarrow> nat" where
  "phase_steps Sleep = 6" | "phase_steps Load0 = 5" | "phase_steps (Load1 _) = 4" | "phase_steps (Load2 _ _ _) = 3"
| "phase_steps (Load3 _) = 2" | "phase_steps (Ready _) = 1" | "phase_steps Select = 0" | "phase_steps Stopped = 0"

definition work :: "('c, 'k) svc \<Rightarrow> nat" where
  "work s = 8 * sv_calls s + (if sv_changed s then 7 else 0) + phase_steps (sv_loop s)"

lemma reconcile_flags [simp]:
  "sv_calls (reconcile D now up l s) = sv_calls s" "sv_changed (reconcile D now up l s) = sv_changed s"
  by (simp_all add: reconcile_def Let_def split: prod.split)

lemma work_decreases: "step D e s = Some s' \<Longrightarrow> internal e \<Longrightarrow> work s' < work s"
  by (cases e) (auto simp: internal_def work_def notify_def split: loop.splits if_splits)

lemma run_work: "run D es s = Some s' \<Longrightarrow> list_all internal es \<Longrightarrow> length es + work s' \<le> work s"
proof (induction es arbitrary: s)
  case (Cons e es)
  then obtain s1 where "step D e s = Some s1" "run D es s1 = Some s'" by (auto split: option.splits)
  with Cons work_decreases [of D e s s1] show ?case by fastforce
qed simp

lemma busy_or_rest:
  assumes "\<forall>e. internal e \<longrightarrow> step D e s = None"
  shows "sv_calls s = 0 \<and> (sv_loop s = Stopped \<or> (sv_loop s = Select \<and> \<not> sv_changed s))"
proof -
  have "step D Notify s = None" "step D Changed_case s = None" "step D Drain s = None" "step D (Query 0) s = None"
    "step D ReadPods s = None" "step D (Finish 0 True) s = None"
    using assms by (simp_all only: internal_def event.case simp_thms)
  then show ?thesis by (cases "sv_loop s") (auto split: if_splits)
qed

lemma run_keeps: "run D es s = Some s' \<Longrightarrow> \<forall>now up. Finish now up \<notin> set es \<Longrightarrow> sv_xds s' = sv_xds s \<and> sv_cluster s' = sv_cluster s"
proof (induction es arbitrary: s)
  case (Cons e es)
  then obtain s1 where s1: "step D e s = Some s1" "run D es s1 = Some s'" by (auto split: option.splits)
  have "\<forall>now up. e \<noteq> Finish now up" using Cons.prems(2) by auto
  with other_steps [OF s1(1)] Cons.IH [OF s1(2)] Cons.prems(2) show ?case by simp
qed simp

lemma step_running: "internal e \<Longrightarrow> step D e s = Some s' \<Longrightarrow> sv_loop s \<noteq> Stopped \<Longrightarrow> sv_loop s' \<noteq> Stopped"
  by (cases e) (auto simp: internal_def notify_def split: loop.splits if_splits)

lemma run_snoc: "run D (es @ [e]) s = (case run D es s of None \<Rightarrow> None | Some s1 \<Rightarrow> step D e s1)"
  by (induction es arbitrary: s) (auto split: option.splits)

lemma run_running: "running D s \<Longrightarrow> run D es s = Some s' \<Longrightarrow> running D s'"
  by (induction es arbitrary: s) (auto split: option.splits intro: running.step)

lemma run_not_stopped: "run D es s = Some s' \<Longrightarrow> list_all internal es \<Longrightarrow> sv_loop s \<noteq> Stopped \<Longrightarrow> sv_loop s' \<noteq> Stopped"
  by (induction es arbitrary: s) (auto split: option.splits dest: step_running)

lemma reconcile_current: "current D t (reconcile D now up loaded s) = current D t s"
proof (rule current_tables)
  show "tables (sv_db (reconcile D now up loaded s)) = tables (sv_db s)"
    using reconcile_db [of D now up loaded s] by (auto simp: tables_def AuditSystem_def tx_def audit_def)
  show "sv_pods (reconcile D now up loaded s) = sv_pods s" by (simp add: reconcile_def Let_def split: prod.split)
qed

lemma reconcile_asked [simp]: "sv_asked (reconcile D now up loaded s) = sv_asked s"
  by (simp add: reconcile_def Let_def split: prod.split)

lemma last_step:
  assumes "running D s" "step D e s = Some s'" "internal e" "sv_loop s' = Select" "\<not> sv_changed s'" "sv_calls s' = 0"
  shows "(\<exists>now up. e = Finish now up \<and> s' = (reconcile D now up (Inr (current D (sv_asked s') s')) s)\<lparr>sv_loop := Select\<rparr>) \<or>
    (\<exists>x now up. e = QueryFails x now up \<and> \<not> sv_ok s')"
proof (cases e)
  case (Finish now up)
  then obtain inp where l: "sv_loop s = Ready inp" "s' = (reconcile D now up (Inr inp) s)\<lparr>sv_loop := Select\<rparr>"
    using assms(2) by (auto split: loop.splits)
  have "\<not> dirty s" using assms(5,6) l(2) by (simp add: dirty_def)
  then have "inp = current D (sv_asked s) s" using running_inv [OF assms(1)] l(1) by (simp add: noticed_def)
  moreover have "current D (sv_asked s') s' = current D (sv_asked s) s" unfolding l(2) by (simp add: reconcile_current)
  ultimately show ?thesis using l(2) Finish by auto
qed (use assms in \<open>auto simp: internal_def notify_def reconcile_fails split: loop.splits if_splits\<close>)




section \<open>Properties\<close>

text \<open>C1. End to end, over every order of requests, pod events, access logs, expiry, restarts and the steps of the loop (a store operation being one
  step, a load of the policy three): whenever the service is at rest (the loop waits, no change is on its way or queued) and the
  last reconciliation succeeded, Envoy is served a snapshot of exactly what Build makes of the present tables and pods, and a proxy with
  the documented behaviour of Envoy then forwards a request for a valid host name on port 443 (CONNECT) or 80 exactly when it comes from
  the IPv4 address of a running workspace pod and a rule for this host and port is in force for the workspace at the time at which
  the last load queried the rules; any other request for such a name gets a 403.\<close>

theorem service_enforces:
  assumes "running D s" "sv_loop s = Select" "\<not> sv_changed s" "sv_calls s = 0" "sv_ok s" "ids_ok (sv_db s)"
    and "snapshot_cache (dp_set D) served" "envoy_proxy V" "\<And>ks. set (dp_ord D ks) = set ks" "\<And>wk ks. set (dp_ord' D wk ks) = set ks"
    and "\<forall>pod \<in> set (Running (sv_pods s)). ipv4 (IP pod)"
  shows "\<exists>snap v res ls cs vhosts h. served NodeID (srv_cache (sv_xds s)) = Some snap \<and> dp_new D v res = Inr snap \<and>
    objects (params_of D (current D (sv_asked s) s)) = (ls, cs, vhosts) \<and>
    map (decode (dp_unmarshal D) (dp_validate D) ''Listener'') ls = map Inr (listener_type res) \<and>
    map (decode (dp_unmarshal D) (dp_validate D) ''Cluster'') cs = map Inr (cluster_type res) \<and>
    [decode (dp_unmarshal D) (dp_validate D) ''RouteConfiguration'' (route_config vhosts)] = map Inr (route_type res) \<and>
    hcm_of (hd ls) = Some h \<and>
    (\<forall>host port q. ValidName host \<and> CHR ''*'' \<notin> set host \<and> (port = 443 \<or> port = 80) \<and> asks host port q \<and> ipv4 (q_ip q) \<longrightarrow>
      (if \<exists>pod \<in> set (Running (sv_pods s)). IP pod = q_ip q \<and> (\<exists>r \<in> policy_of (sv_db s) (sv_asked s) (ID pod) ''host''. rule_for host port r)
       then \<exists>c \<in> obj_name ` set cs. ev_respond V h vhosts q = Forward c
       else ev_respond V h vhosts q = LocalReply 403))"
proof -
  have inv: "db_ok (sv_db s)" "has_default (sv_db s)" using running_inv [OF assms(1)] reachable_inv by blast+
  let ?inp = "current D (sv_asked s) s"
  have served: "sv_served s = Some ?inp"
    using running_inv [OF assms(1)] assms(2-5) by (auto simp: noticed_def dirty_def)
  obtain snap v res where snap: "served NodeID (srv_cache (sv_xds s)) = Some snap" "dp_new D v res = Inr snap" "build D (params_of D ?inp) = Inr res"
    using running_envoy [OF assms(7,1)] served assms(5) by (auto simp: envoy_ok_def snapshot_of_def)
  obtain ls cs vhosts where o: "objects (params_of D ?inp) = (ls, cs, vhosts)" by (metis prod_cases3)
  have hosts: "Hosts (params_of D ?inp) = HostIPs (dp_ord D) (dp_ord' D) ?inp" by (simp add: params_of_def)
  have pods: "Pods ?inp = Running (sv_pods s)" by (simp add: current_def)
  then have ips: "\<forall>pod \<in> set (Pods ?inp). IP pod = [] \<or> ipv4 (IP pod)" using assms(11) by simp
  have "set (Effective ?inp (ID pod) ''host'') = policy_of (sv_db s) (sv_asked s) (ID pod) ''host''" if "pod \<in> set (Running (sv_pods s))" for pod
    using Effective_policy_of [OF inv assms(6), of "ID pod" "dp_pg D" "sv_asked s" "''host''"] Running_nonempty [OF that]
    by (simp add: current_def)
  then have eff: "(\<exists>pod \<in> set (Pods ?inp). IP pod = ip \<and> (\<exists>r \<in> set (Effective ?inp (ID pod) ''host''). rule_for host port r)) \<longleftrightarrow>
      (\<exists>pod \<in> set (Running (sv_pods s)). IP pod = ip \<and> (\<exists>r \<in> policy_of (sv_db s) (sv_asked s) (ID pod) ''host''. rule_for host port r))" for ip host port
    unfolding pods by (intro bex_cong) simp_all
  have h: "hcm_of (hd ls) = Some (hcm (RequestURL (params_of D ?inp)))" using o by (auto simp: objects_form hcm_of_proxy)
  have answer: "if \<exists>pod \<in> set (Running (sv_pods s)). IP pod = q_ip q \<and> (\<exists>r \<in> policy_of (sv_db s) (sv_asked s) (ID pod) ''host''. rule_for host port r)
      then \<exists>c \<in> obj_name ` set cs. ev_respond V (hcm (RequestURL (params_of D ?inp))) vhosts q = Forward c
      else ev_respond V (hcm (RequestURL (params_of D ?inp))) vhosts q = LocalReply 403"
    if "ValidName host \<and> CHR ''*'' \<notin> set host \<and> (port = 443 \<or> port = 80) \<and> asks host port q \<and> ipv4 (q_ip q)" for host port q
    using egress_answer [OF assms(8-10) _ _ _ _ hosts o ips, of host port q] that h unfolding eff by auto
  note parts = Build_parts [OF snap(3) o]
  show ?thesis
    by (rule exI, rule exI, rule exI, rule exI, rule exI, rule exI, rule exI)
      (intro conjI; (rule snap(1) snap(2) o h parts [THEN conjunct1] parts [THEN conjunct2, THEN conjunct1] parts [THEN conjunct2, THEN conjunct2])?;
        (use answer in blast)?)
qed

text \<open>C9. The service always comes to rest with every change processed: left to itself (without requests, pod events, access logs, ticks or a stop) it
  takes at most \<open>8 * calls + 13\<close> further steps; when it cannot take one more, the loop waits with no change on its way or
  queued, and unless it was at rest before, its last step was a reconciliation with the tables and the pods that it rests with, or the failure of a query, which
  leaves it marked as failed until the next resync.\<close>

theorem service_settles:
  assumes "running D s" "sv_loop s \<noteq> Stopped" "run D es s = Some s'" "list_all internal es"
  shows "length es \<le> 8 * sv_calls s + 13 \<and>
    ((\<forall>e. internal e \<longrightarrow> step D e s' = None) \<longrightarrow> sv_loop s' = Select \<and> \<not> sv_changed s' \<and> sv_calls s' = 0 \<and>
      (es = [] \<or>
       (\<exists>pre s1 now up. es = pre @ [Finish now up] \<and> run D pre s = Some s1 \<and>
          s' = (reconcile D now up (Inr (current D (sv_asked s') s')) s1)\<lparr>sv_loop := Select\<rparr>) \<or>
       (\<exists>pre x now up. es = pre @ [QueryFails x now up] \<and> \<not> sv_ok s')))"
proof -
  have "phase_steps (sv_loop s) \<le> 6" by (cases "sv_loop s") simp_all
  then have "work s \<le> 8 * sv_calls s + 13" by (simp add: work_def)
  then have bound: "length es \<le> 8 * sv_calls s + 13" using run_work [OF assms(3,4)] by simp
  have "es = [] \<or>
       (\<exists>pre s1 now up. es = pre @ [Finish now up] \<and> run D pre s = Some s1 \<and>
          s' = (reconcile D now up (Inr (current D (sv_asked s') s')) s1)\<lparr>sv_loop := Select\<rparr>) \<or>
       (\<exists>pre x now up. es = pre @ [QueryFails x now up] \<and> \<not> sv_ok s')"
    if rest: "sv_loop s' = Select" "\<not> sv_changed s'" "sv_calls s' = 0"
  proof (cases es rule: rev_cases)
    case (snoc pre e)
    then obtain s1 where s1: "run D pre s = Some s1" "step D e s1 = Some s'" using assms(3) by (auto simp: run_snoc split: option.splits)
    have "internal e" using assms(4) snoc by simp
    from last_step [OF run_running [OF assms(1) s1(1)] s1(2) this rest] show ?thesis using snoc s1(1) by blast
  qed simp
  moreover have "sv_loop s' \<noteq> Stopped" by (rule run_not_stopped [OF assms(3,4,2)])
  ultimately show ?thesis using bound busy_or_rest [of D s'] by (intro conjI impI) simp_all
qed

text \<open>C20. Failures harm nothing: nothing but a completed load changes what Envoy is served or the cluster, neither requests, pod events, access logs
  and expiry nor a policy that cannot be loaded; and a load that is carried out either gives Envoy a snapshot of
  the new policy, before the cluster is touched, or fails and leaves Envoy and the cluster as they were.\<close>

theorem failures_keep:
  assumes "snapshot_cache (dp_set D) served"
  shows "(run D es s = Some s' \<and> (\<forall>now up. Finish now up \<notin> set es) \<longrightarrow> sv_xds s' = sv_xds s \<and> sv_cluster s' = sv_cluster s) \<and>
    (sv_loop s = Ready inp \<and> step D (Finish now up) s = Some s' \<longrightarrow>
      (\<exists>snap. snapshot_of D inp snap \<and> served NodeID (srv_cache (sv_xds s')) = Some snap) \<or>
      (\<not> sv_ok s' \<and> served NodeID (srv_cache (sv_xds s')) = served NodeID (srv_cache (sv_xds s)) \<and> sv_cluster s' = sv_cluster s))"
proof (intro conjI impI)
  assume "run D es s = Some s' \<and> (\<forall>now up. Finish now up \<notin> set es)"
  then show "sv_xds s' = sv_xds s" "sv_cluster s' = sv_cluster s" using run_keeps by blast+
next
  assume "sv_loop s = Ready inp \<and> step D (Finish now up) s = Some s'"
  then have s': "s' = (reconcile D now up (Inr inp) s)\<lparr>sv_loop := Select\<rparr>" by auto
  let ?push = "\<lambda>res. Push (dp_new D) (dp_consistent D) (dp_set D) res (sv_xds s)"
  consider (build) e where "build D (params_of D inp) = Inl e"
    | (push) res e xs where "build D (params_of D inp) = Inr res" "?push res = (Some e, xs)"
    | (pushed) res xs where "build D (params_of D inp) = Inr res" "?push res = (None, xs)"
    by (metis option.exhaust prod.exhaust sum.exhaust)
  then show "(\<exists>snap. snapshot_of D inp snap \<and> served NodeID (srv_cache (sv_xds s')) = Some snap) \<or>
      (\<not> sv_ok s' \<and> served NodeID (srv_cache (sv_xds s')) = served NodeID (srv_cache (sv_xds s)) \<and> sv_cluster s' = sv_cluster s)"
  proof cases
    case build
    then show ?thesis by (simp add: s' reconcile_def apply_policy_def Let_def)
  next
    case push
    then have "sv_xds s' = xs" "\<not> sv_ok s'" "sv_cluster s' = sv_cluster s" by (simp_all add: s' reconcile_def apply_policy_def Let_def)
    then show ?thesis using snapshot_cache.push_error [OF assms push(2)] push(1) by (auto simp: snapshot_of_def)
  next
    case pushed
    then have "sv_xds s' = xs" by (simp add: s' reconcile_def apply_policy_def Let_def split: prod.split)
    then show ?thesis using snapshot_cache.push_nil [OF assms pushed(2)] pushed(1) by (auto simp: snapshot_of_def)
  qed
qed


section \<open>The properties on a concrete run\<close>

definition demo_deploy :: "(string, string resources, string \<Rightarrow> string resources option, json list) Deploy" where
  "demo_deploy = \<lparr>dp_pg = demo_pg, dp_auth = demo_authn, dp_URL = ''http://admin'', dp_unmarshal = (\<lambda>_ b. Inr b), dp_validate = (\<lambda>_. None), dp_new = (\<lambda>_ res. Inr res),
     dp_consistent = (\<lambda>_. None), dp_set = mem_set (\<lambda>_. False), dp_api = mem_api (\<lambda>_. False),
     dp_ord = (\<lambda>ks. ks), dp_ord' = (\<lambda>_ ks. ks), dp_join = (\<lambda>_. [])\<rparr>"

definition demo_start :: "(string \<Rightarrow> string resources option, json list) svc" where
  "demo_start = start_state demo_db demo_pods Map.empty []"

definition demo_vars :: "(string, string) gomap" where
  "demo_vars = [(''DB_APP_DSN'', ''postgres://''), (''SESSION_KEY'', concat (replicate 32 ''6b'')), (''PUBLIC_URL'', ''http://admin''), (''CODER_URL'', ''http://coder''),
     (''CODER_INTERNAL_URL'', ''http://coder/''), (''OAUTH_CLIENT_ID'', ''c''), (''OAUTH_CLIENT_SECRET'', ''s''), (''TEST_TOKEN'', ''hook'')]"

lemma demo_serve: "serve_start demo_vars (Open None None) (\<lambda>_. []) (Seed (demo_gen ''d'') 0 empty_db) None (Start None True demo_pods) None Map.empty [] =
    Inr (dp_auth demo_deploy, dp_URL demo_deploy, demo_start)"
proof -
  have "serve_auth demo_vars = Inr (demo_authn, ''http://admin'')" by code_simp
  moreover have "env demo_vars ''DB_APP_DSN'' = Inr ''postgres://''" by code_simp
  moreover have "Seed (demo_gen ''d'') 0 empty_db = (Inr (), demo_db)" unfolding demo_db_def by (intro prod_eqI) code_simp+
  ultimately show ?thesis by (simp add: serve_start_def sbind_def Open_def Start_def demo_start_def demo_deploy_def)
qed

lemma decode_all_id [simp]: "decode_all (decode (\<lambda>_ b. Inr b) (\<lambda>_. None)) what t xs = Inr (map Marshal xs)"
  by (induction xs) (simp_all add: decode_def)

lemma demo_apply: "Apply (mem_api (\<lambda>_. False)) (Render ((PolicyInput demo_pg 1 demo_db demo_db demo_db)\<lparr>Pods := Running demo_pods\<rparr>)) [] = ([], [])"
  by code_simp

lemma demo_build:
  "\<exists>res. build demo_deploy (params_of demo_deploy inp) = Inr res \<and> fst (Push (dp_new demo_deploy) (dp_consistent demo_deploy) (dp_set demo_deploy) res xs) = None"
proof -
  have "\<not> Contains (RequestURL (params_of demo_deploy inp)) ''%''" by (simp add: params_of_def demo_deploy_def Contains_def HasPrefix_def)
  then show ?thesis by (simp add: Build_def demo_deploy_def Push_def Let_def decode_def [of _ _ "''RouteConfiguration''"] mem_set_def split: prod.split)
qed

definition demo_events :: "event list" where
  "demo_events = [Changed_case, Drain, Query 1, Query 1, Query 1, ReadPods, Finish 1 True]"

lemma demo_rest:
  obtains s where "run demo_deploy demo_events demo_start = Some s" "running demo_deploy s" "sv_loop s = Select" "\<not> sv_changed s"
    "sv_calls s = 0" "sv_ok s" "sv_db s = demo_db" "sv_pods s = demo_pods"
proof -
  have start: "running demo_deploy demo_start" by (rule running.init [OF disjI1 [OF refl] demo_serve])
  let ?inp = "(PolicyInput demo_pg 1 demo_db demo_db demo_db)\<lparr>Pods := Running demo_pods\<rparr>"
  let ?s = "demo_start\<lparr>sv_changed := False, sv_asked := 1, sv_loop := Ready ?inp\<rparr>"
  obtain res where b: "build demo_deploy (params_of demo_deploy ?inp) = Inr res"
    "fst (Push (dp_new demo_deploy) (dp_consistent demo_deploy) (dp_set demo_deploy) res (sv_xds ?s)) = None"
    using demo_build by blast
  have r: "run demo_deploy demo_events demo_start = Some ((reconcile demo_deploy 1 True (Inr ?inp) ?s)\<lparr>sv_loop := Select\<rparr>)"
    by (simp add: demo_events_def demo_start_def start_state_def notify_def demo_deploy_def)
  obtain xs where p: "Push (dp_new demo_deploy) (dp_consistent demo_deploy) (dp_set demo_deploy) res (sv_xds ?s) = (None, xs)"
    using b(2) by (metis prod.collapse)
  have k: "dp_api demo_deploy = mem_api (\<lambda>_. False)" "sv_cluster ?s = []"
    by (simp_all add: demo_deploy_def demo_start_def start_state_def notify_def)
  have a: "apply_policy demo_deploy (Inr ?inp) (sv_xds ?s, sv_cluster ?s) = (None, xs, [])"
    using b(1) p demo_apply by (simp add: apply_policy_def k)
  let ?s' = "(reconcile demo_deploy 1 True (Inr ?inp) ?s)\<lparr>sv_loop := Select\<rparr>"
  have f: "sv_ok ?s'" "sv_db ?s' = demo_db" "sv_pods ?s' = demo_pods"
    by (simp_all only: reconcile_def a) (simp_all add: demo_start_def start_state_def notify_def)
  show ?thesis
    by (rule that [OF r run_running [OF start r]]) (use f in \<open>simp_all add: demo_start_def start_state_def notify_def\<close>)
qed

theorem service_enforces_witness:
  "\<exists>s ls cs vhosts h. running demo_deploy s \<and> objects (params_of demo_deploy (current demo_deploy (sv_asked s) s)) = (ls, cs, vhosts) \<and> hcm_of (hd ls) = Some h \<and>
     (\<exists>c. envoy_respond h vhosts (connect_to ''example.com:443'' ''10.0.0.1'') = Forward c) \<and>
     envoy_respond h vhosts (connect_to ''example.com:443'' ''10.0.0.2'') = LocalReply 403"
proof (rule demo_rest)
  fix s assume s: "running demo_deploy s" "sv_loop s = Select" "\<not> sv_changed s" "sv_calls s = 0" "sv_ok s" "sv_db s = demo_db" "sv_pods s = demo_pods"
  have ids: "ids_ok (sv_db s)" using demo_ok(3) s(6) by simp
  have cache: "snapshot_cache (dp_set demo_deploy) mem_served" using cache.snapshot_cache_axioms by (simp add: demo_deploy_def)
  have orders: "\<And>ks. set (dp_ord demo_deploy ks) = set ks" "\<And>wk ks. set (dp_ord' demo_deploy wk ks) = set ks" by (simp_all add: demo_deploy_def)
  have ip: "ipv4 ''10.0.0.1''" "ipv4 ''10.0.0.2''" by code_simp+
  have ips: "\<forall>pod \<in> set (Running (sv_pods s)). ipv4 (IP pod)" using ip by (simp add: s(7) demo_running)
  obtain ls cs vhosts h where o: "objects (params_of demo_deploy (current demo_deploy (sv_asked s) s)) = (ls, cs, vhosts)" "hcm_of (hd ls) = Some h"
    and E: "\<And>host port q. ValidName host \<and> CHR ''*'' \<notin> set host \<and> (port = 443 \<or> port = 80) \<and> asks host port q \<and> ipv4 (q_ip q) \<longrightarrow>
      (if \<exists>pod \<in> set (Running (sv_pods s)). IP pod = q_ip q \<and> (\<exists>r \<in> policy_of (sv_db s) (sv_asked s) (ID pod) ''host''. rule_for host port r)
       then \<exists>c \<in> obj_name ` set cs. ev_respond envoy_spec h vhosts q = Forward c
       else ev_respond envoy_spec h vhosts q = LocalReply 403)"
    using service_enforces [OF s(1-5) ids cache proxy.envoy_proxy_axioms orders ips] by blast
  have rows: "map (\<lambda>r. (rule_of r, ru_kind r, ru_ws r, ru_zone r = zone_in demo_db ''w1'', ru_expires r)) (rules demo_db) =
      [(\<lparr>Kind = ''host'', Value = ''example.com'', Port = 443\<rparr>, ''host'', None, True, None),
       (\<lparr>Kind = ''host'', Value = ''example.com'', Port = 80\<rparr>, ''host'', None, True, None)]" by code_simp
  obtain r1 r2 where r: "rules demo_db = [r1, r2]" using rows by (auto simp: map_eq_Cons_conv)
  have "\<lparr>Kind = ''host'', Value = ''example.com'', Port = 443\<rparr> \<in> policy_of demo_db t ''w1'' ''host''" for t
    using rows by (simp add: policy_of_def rows_of_def live_def r)
  then have allowed: "\<exists>r \<in> policy_of (sv_db s) t ''w1'' ''host''. rule_for ''example.com'' 443 r" for t
    unfolding s(6) by (rule bexI [rotated]) (simp add: rule_for_def)
  have "ValidName ''example.com''" by code_simp
  then have pre: "ValidName ''example.com'' \<and> CHR ''*'' \<notin> set ''example.com'' \<and> ((443 :: int) = 443 \<or> (443 :: int) = 80) \<and>
      asks ''example.com'' 443 (connect_to ''example.com:443'' a) \<and> ipv4 (q_ip (connect_to ''example.com:443'' a))" if "ipv4 a" for a
    using that by (simp add: asks_def connect_to_def authorities_def doms_def)
  have q: "q_ip (connect_to d a) = a" for d a by (simp add: connect_to_def)
  have spec: "ev_respond envoy_spec = envoy_respond" by (simp add: envoy_spec_def)
  have "\<exists>pod \<in> set (Running (sv_pods s)). IP pod = ''10.0.0.1'' \<and> (\<exists>r \<in> policy_of (sv_db s) (sv_asked s) (ID pod) ''host''. rule_for ''example.com'' 443 r)"
    using allowed by (simp add: s(7) demo_running)
  then have "\<exists>c. envoy_respond h vhosts (connect_to ''example.com:443'' ''10.0.0.1'') = Forward c"
    using E [THEN mp, OF pre [OF ip(1)]] unfolding q spec by (simp only: if_True) blast
  moreover have "\<not> (\<exists>pod \<in> set (Running (sv_pods s)). IP pod = ''10.0.0.2'' \<and> (\<exists>r \<in> policy_of (sv_db s) (sv_asked s) (ID pod) ''host''. rule_for ''example.com'' 443 r))"
    by (simp add: s(7) demo_running)
  then have "envoy_respond h vhosts (connect_to ''example.com:443'' ''10.0.0.2'') = LocalReply 403"
    using E [THEN mp, OF pre [OF ip(2)]] unfolding q spec by (simp only: if_False)
  ultimately show ?thesis using s(1) o by blast
qed

theorem service_settles_witness:
  "\<exists>s. run demo_deploy demo_events demo_start = Some s \<and> length demo_events \<le> 13 \<and> (\<forall>e. internal e \<longrightarrow> step demo_deploy e s = None) \<and>
     (\<exists>pre s1 now up. demo_events = pre @ [Finish now up] \<and> run demo_deploy pre demo_start = Some s1 \<and>
       s = (reconcile demo_deploy now up (Inr (current demo_deploy (sv_asked s) s)) s1)\<lparr>sv_loop := Select\<rparr>)"
proof (rule demo_rest)
  fix s assume s: "run demo_deploy demo_events demo_start = Some s" "sv_calls s = 0" "sv_loop s = Select" "\<not> sv_changed s"
  have start: "running demo_deploy demo_start" by (rule running.init [OF disjI1 [OF refl] demo_serve])
  have d: "list_all internal demo_events" "sv_calls demo_start = 0" "sv_loop demo_start \<noteq> Stopped" "demo_events \<noteq> []" "last demo_events = Finish 1 True"
    by (simp_all add: demo_events_def internal_def demo_start_def start_state_def notify_def)
  have "step demo_deploy e s = None" if "internal e" for e using that s(2-4) by (cases e) (simp_all add: internal_def)
  moreover have "demo_events \<noteq> pre @ [QueryFails x now up]" for pre x now up
  proof
    assume "demo_events = pre @ [QueryFails x now up]"
    from arg_cong [OF this, of last] d(5) show False by simp
  qed
  ultimately show ?thesis using service_settles [OF start d(3) s(1) d(1)] s(1) d(2,4) by auto
qed

theorem failures_keep_witness:
  "\<exists>s. run demo_deploy [Changed_case, Drain, QueryFails ''down'' 1 True] demo_start = Some s \<and> sv_xds s = sv_xds demo_start \<and> \<not> sv_ok s"
proof -
  have cache: "snapshot_cache (dp_set demo_deploy) mem_served" using cache.snapshot_cache_axioms by (simp add: demo_deploy_def)
  let ?s = "demo_start\<lparr>sv_changed := False, sv_loop := Load0\<rparr>"
  have r: "run demo_deploy [Changed_case, Drain, QueryFails ''down'' 1 True] demo_start = Some ((reconcile demo_deploy 1 True (Inl ''down'') ?s)\<lparr>sv_loop := Select\<rparr>)"
    by (simp add: demo_start_def start_state_def notify_def)
  have "sv_xds ((reconcile demo_deploy 1 True (Inl ''down'') ?s)\<lparr>sv_loop := Select\<rparr>) = sv_xds demo_start"
    using failures_keep [OF cache, of "[Changed_case, Drain, QueryFails ''down'' 1 True]" demo_start] r by simp
  then show ?thesis using r by (simp add: reconcile_fails)
qed


end
