(* ===== verification/Feedback.thy ===== *)
theory Feedback
  imports ServiceSafety
begin

text \<open>
  From a refusal to the page of the owner, across four components: Envoy's access log entry (xds) goes through the throttle
  of the service into the table of denials (store), and the owner of the workspace finds it on the page My workspaces (web).
\<close>

lemma hd_sort_key:
  assumes "x \<in> set xs" "\<And>y. y \<in> set xs \<Longrightarrow> y \<noteq> x \<Longrightarrow> f x < f y"
  shows "sort_key f xs \<noteq> [] \<and> hd (sort_key f xs) = x"
proof -
  have mem: "x \<in> set (sort_key f xs)" using assms(1) by simp
  then obtain h ts where h: "sort_key f xs = h # ts" by (cases "sort_key f xs") auto
  have "sorted (map f (h # ts))" using sorted_sort_key [of f xs] h by simp
  then have "f h \<le> f x" using mem h by auto
  moreover have "h \<in> set xs" using h by (metis list.set_intros(1) set_sort)
  ultimately have "h = x" using assms(2) [of h] by force
  then show ?thesis using h by simp
qed

lemma record_latest:
  assumes "db_ok d" "uuid_in E wsID = Some ws" "int4 port" "\<forall>r \<in> set (denials d). dn_last r < now"
    "\<forall>r \<in> set (denials d). denial_key r = (ws, host, port) \<longrightarrow> dn_last r < now - 1000000 \<and> int4 (dn_count r + 1)"
  shows "\<exists>x \<in> set (denials (snd (RecordDenial E now wsID host port d))). denial_key x = (ws, host, port) \<and> dn_last x = now \<and>
    (\<forall>y \<in> set (denials (snd (RecordDenial E now wsID host port d))). y \<noteq> x \<longrightarrow> dn_last y < now)"
proof (cases "(ws, host, port) \<in> denial_key ` set (denials d)")
  case True
  then obtain r where r: "r \<in> set (denials d)" "denial_key r = (ws, host, port)" by auto
  have "dn_last r < now - 1000000" "int4 (dn_count r + 1)" using assms(5) r by blast+
  then have eq: "denials (snd (RecordDenial E now wsID host port d)) =
      map (\<lambda>q. if q = r then r\<lparr>dn_count := dn_count r + 1, dn_last := now\<rparr> else q) (denials d)"
    using RecordDenial_repeated [OF assms(1-3) r] by simp
  let ?x = "r\<lparr>dn_count := dn_count r + 1, dn_last := now\<rparr>"
  have "\<forall>y \<in> set (map (\<lambda>q. if q = r then ?x else q) (denials d)). y \<noteq> ?x \<longrightarrow> dn_last y < now"
    using assms(4) by (auto split: if_splits dest!: bspec)
  moreover have "?x \<in> set (map (\<lambda>q. if q = r then ?x else q) (denials d))" using r(1) by (auto simp: image_iff intro!: bexI [of _ r])
  moreover have "denial_key ?x = (ws, host, port)" using r(2) by (simp add: denial_key_def)
  ultimately show ?thesis unfolding eq by (intro bexI [of _ ?x]) simp_all
next
  case False
  obtain res d' where rd: "RecordDenial E now wsID host port d = (res, d')" by fastforce
  have "\<forall>r \<in> set (denials d). dn_ws r = ws \<longrightarrow> dn_last r < now" using assms(4) by blast
  note n = record_new [OF assms(1-3) False this rd]
  let ?x = "\<lparr>dn_ws = ws, dn_host = host, dn_port = port, dn_count = 1, dn_first = now, dn_last = now\<rparr>"
  have mem: "?x \<in> set (denials d')" and sub: "set (denials d') \<subseteq> insert ?x (set (denials d))" using n by blast+
  have "dn_last y < now" if "y \<in> set (denials d')" "y \<noteq> ?x" for y
  proof -
    have "y \<in> set (denials d)" using that sub by blast
    then show ?thesis using assms(4) by fastforce
  qed
  then show ?thesis using mem by (intro bexI [of _ ?x]) (simp_all add: rd denial_key_def)
qed

section \<open>Property\<close>

text \<open>C13. A refused request shows up for the owner of the workspace: when an entry of the access log is reported as a denial (a 403 for a valid host name,
  as opposed to an IP literal) for the address of a running workspace, the throttle lets it through, the same destination was not already recorded for the
  workspace within the last second, and no recorded denial is newer, then the first denial on the page of the workspace's
  owner is this one, with the name of the destination, its port and the current time.\<close>

theorem refused_shown:
  assumes "running D s" "step D (AccessLog uni clock now e) s = Some s'" "denial uni e = Some x" "ByIP (sv_pods s) (SrcIP x) = Some ws"
    and "fst (allow clock (ID ws @ ''|'' @ xd_Host x @ ''|'' @ Itoa (xd_Port x)) (sv_throttle s))"
    and "uuid_in (dp_pg D) (ID ws) = Some w" "int4 (xd_Port x)"
    and "\<forall>r \<in> set (denials (sv_db s)). dn_last r < now"
    and "\<forall>r \<in> set (denials (sv_db s)). denial_key r = (w, xd_Host x, xd_Port x) \<longrightarrow> dn_last r < now - 1000000 \<and> int4 (dn_count r + 1)"
    and "OwnerID ws = u_ID u" "we_pg W = dp_pg D" "mine_page W (web_of D s') r u (sv_db s') = Inr (PMine u' mine ds rs names filed)"
  shows "ds \<noteq> [] \<and> den_WorkspaceID (hd ds) = w \<and> den_Host (hd ds) = xd_Host x \<and> den_Port (hd ds) = xd_Port x \<and> den_LastSeen (hd ds) = now"
proof -
  have ok: "db_ok (sv_db s)" using running_inv [OF assms(1)] reachable_inv by blast
  obtain t where al: "allow clock (ID ws @ ''|'' @ xd_Host x @ ''|'' @ Itoa (xd_Port x)) (sv_throttle s) = (True, t)" using assms(5) by (metis (full_types) prod.collapse)
  have s': "s' = OnDenial (dp_pg D) clock now x s" using assms(2) by (cases rule: AccessLog_cases) (use assms(3) in auto)
  then have db: "sv_db s' = snd (RecordDenial (dp_pg D) now (ID ws) (xd_Host x) (xd_Port x) (sv_db s))" and pods: "sv_pods s' = sv_pods s"
    using assms(4) al by (simp_all add: OnDenial_def)
  obtain y where y: "y \<in> set (denials (sv_db s'))" "denial_key y = (w, xd_Host x, xd_Port x)" "dn_last y = now"
    "\<And>z. z \<in> set (denials (sv_db s')) \<Longrightarrow> z \<noteq> y \<Longrightarrow> dn_last z < now"
    using record_latest [OF ok assms(6-9)] unfolding db by blast
  have run: "ws \<in> set (Running (sv_pods s))" using pods.by_ip_Some [OF assms(4)] ..
  let ?mine = "filter (\<lambda>ws. OwnerID ws = u_ID u) (Running (sv_pods s))"
  have "Denials (dp_pg D) (Some (map ID ?mine)) (sv_db s') = Inr ds"
    using assms(11,12) by (auto simp: mine_page_def Let_def web_of_def pods split: sum.splits)
  then obtain ids where ids: "casts (dp_pg D) (Some (map ID ?mine)) = Inr ids"
    and ds: "ds = take 200 (map (\<lambda>r. \<lparr>den_WorkspaceID = dn_ws r, den_Host = dn_host r, den_Port = dn_port r, den_Count = dn_count r, den_LastSeen = dn_last r\<rparr>)
        (sort_key (\<lambda>r. - dn_last r) (filter (\<lambda>r. of_workspaces ids (dn_ws r)) (denials (sv_db s')))))"
    by (auto simp: Denials_def split: sum.splits)
  have "of_workspaces ids w" using ids run assms(6,10) by (force simp: casts_def of_workspaces_def split: if_splits option.splits)
  then have "y \<in> set (filter (\<lambda>r. of_workspaces ids (dn_ws r)) (denials (sv_db s')))" using y(1,2) by (simp add: denial_key_def)
  moreover have "- dn_last y < - dn_last z" if "z \<in> set (filter (\<lambda>r. of_workspaces ids (dn_ws r)) (denials (sv_db s')))" "z \<noteq> y" for z
    using y(3,4) that by simp
  ultimately have "sort_key (\<lambda>r. - dn_last r) (filter (\<lambda>r. of_workspaces ids (dn_ws r)) (denials (sv_db s'))) \<noteq> []"
    "hd (sort_key (\<lambda>r. - dn_last r) (filter (\<lambda>r. of_workspaces ids (dn_ws r)) (denials (sv_db s')))) = y"
    using hd_sort_key [where f = "\<lambda>r. - dn_last r"] by blast+
  then show ?thesis unfolding ds using y(2,3) by (simp add: hd_map denial_key_def)
qed

theorem refused_shown_witness:
  "\<exists>s' mine ds rs names. step demo_deploy (AccessLog id 0 5000000 \<lparr>le_code = 403, le_ip = ''10.0.0.1'', le_authority = ''evil.example:443''\<rparr>) demo_start = Some s' \<and>
     mine_page demo_wenv (web_of demo_deploy s') demo_req demo_user (sv_db s') = Inr (PMine demo_user mine ds rs names []) \<and> den_Host (hd ds) = ''evil.example''"
proof -
  let ?e = "\<lparr>le_code = 403, le_ip = ''10.0.0.1'', le_authority = ''evil.example:443''\<rparr> :: LogEntry"
  let ?x = "\<lparr>SrcIP = ''10.0.0.1'', xd_Host = ''evil.example'', xd_Port = 443\<rparr>" and ?ws = "\<lparr>ID = ''w1'', Name = ''dev'', OwnerID = ''u1'', IP = ''10.0.0.1''\<rparr> :: Workspace"
  obtain s' where st: "step demo_deploy (AccessLog id 0 5000000 ?e) demo_start = Some s'" by simp
  have start: "running demo_deploy demo_start" by (rule running.init [OF disjI1 [OF refl] demo_serve])
  have fields: "sv_pods demo_start = demo_pods" "sv_throttle demo_start = new_throttle" "sv_db demo_start = demo_db"
    by (simp_all add: demo_start_def start_state_def notify_def)
  have x: "denial id ?e = Some ?x" by code_simp
  have ws: "ByIP (sv_pods demo_start) (SrcIP ?x) = Some ?ws" by (simp add: fields ByIP_def demo_running)
  have al: "fst (allow 0 (ID ?ws @ ''|'' @ xd_Host ?x @ ''|'' @ Itoa (xd_Port ?x)) (sv_throttle demo_start))"
    by (simp add: fields allow_def new_throttle_def since_def max_duration_def second_def th_cap_def Let_def)
  have w: "uuid_in (dp_pg demo_deploy) (ID ?ws) = Some ''w1''" by (simp add: demo_deploy_def demo_pg_def)
  have p: "int4 (xd_Port ?x)" by (simp add: int4_def)
  have "denials demo_db = []" by code_simp
  then have none: "\<forall>r \<in> set (denials (sv_db demo_start)). dn_last r < 5000000"
    "\<forall>r \<in> set (denials (sv_db demo_start)). denial_key r = (''w1'', xd_Host ?x, xd_Port ?x) \<longrightarrow> dn_last r < 5000000 - 1000000 \<and> int4 (dn_count r + 1)"
    by (simp_all add: fields)
  have pods: "sv_pods s' = demo_pods" using st x ws al by (auto simp: OnDenial_def fields split: prod.splits)
  obtain mine ds rs names where m: "mine_page demo_wenv (web_of demo_deploy s') demo_req demo_user (sv_db s') = Inr (PMine demo_user mine ds rs names [])"
    by (simp add: mine_page_def demo_wenv_def web_of_def pods demo_req_def Denials_def Requests_def casts_def demo_running demo_user_def demo_pg_def query_def Let_def)
  have u: "OwnerID ?ws = u_ID demo_user" "we_pg demo_wenv = dp_pg demo_deploy" by (simp_all add: demo_user_def demo_wenv_def demo_deploy_def)
  from refused_shown [OF start st x ws al w p none u m] st m show ?thesis by auto
qed

end
