(* ===== verification/AuthSafety.thy ===== *)
theory AuthSafety
  imports Auth
begin

text \<open>
  What package auth guarantees: sessions and login flows survive their cookie, nothing else passes for one, and the
  redirect after a login stays on the site.
\<close>

section \<open>Payloads\<close>

lemma ascii_key:
  "unquote (''ID'' @ dq # t) = Some (''ID'', t)" "unquote (''Name'' @ dq # t) = Some (''Name'', t)" "unquote (''Admin'' @ dq # t) = Some (''Admin'', t)"
  "unquote (''CSRF'' @ dq # t) = Some (''CSRF'', t)" "unquote (''Exp'' @ dq # t) = Some (''Exp'', t)" "unquote (''State'' @ dq # t) = Some (''State'', t)"
  "unquote (''Verifier'' @ dq # t) = Some (''Verifier'', t)" "unquote (''Next'' @ dq # t) = Some (''Next'', t)"
  by (simp_all add: unquote.simps dq_def bs_def)

lemma jmembers_more:
  assumes "unquote (k @ dq # CHR '':'' # x) = Some (k, CHR '':'' # x)" "jvalue n x = Some (v, CHR '','' # y)"
  shows "jmembers (Suc n) (jkey k @ x) = map_option (apfst (Cons (k, v))) (jmembers n y)"
  using assms by (simp add: jkey_def dq_def)

lemma jmembers_last:
  assumes "unquote (k @ dq # CHR '':'' # x) = Some (k, CHR '':'' # x)" "jvalue n x = Some (v, CHR ''}'' # y)"
  shows "jmembers (Suc n) (jkey k @ x) = Some ([(k, v)], y)"
  using assms by (simp add: jkey_def dq_def)

lemma jvalue_object: "jvalue (Suc n) (''{'' @ jkey k @ x) = map_option (apfst TObj) (jmembers n (jkey k @ x))"
  by (simp add: jkey_def dq_def)

lemma seven_more: "40 \<le> length s \<Longrightarrow> \<exists>m. 2 * length s + 2 = Suc (Suc (Suc (Suc (Suc (Suc (Suc m))))))"
  by (intro exI [of _ "2 * length s - 5"]) simp

lemma parse_user:
  assumes "utf8_ok (u_ID u)" "utf8_ok (u_Name u)" "utf8_ok (u_CSRF u)"
  shows "json_whole (marshal_user u) =
    Some (TObj [(''ID'', TStr (u_ID u)), (''Name'', TStr (u_Name u)), (''Admin'', TBool (u_Admin u)), (''CSRF'', TStr (u_CSRF u)), (''Exp'', TNum (Itoa (u_Exp u)))])"
proof -
  have key: "unquote (k @ dq # CHR '':'' # x) = Some (k, CHR '':'' # x)" if "k \<in> {''ID'', ''Name'', ''Admin'', ''CSRF'', ''Exp''}" for k x
    using that ascii_key by auto
  have "40 \<le> length (marshal_user u)" by (simp add: marshal_user_def jkey_def jstring_def jbool_def)
  then obtain m where m: "2 * length (marshal_user u) + 2 = Suc (Suc (Suc (Suc (Suc (Suc (Suc m))))))" using seven_more by blast
  have str: "jvalue (Suc n) (jstring x @ '','' @ y) = Some (TStr x, CHR '','' # y)" if "utf8_ok x" for x y n
    using jvalue_string [OF that, of n "'','' @ y"] by simp
  have bool: "jvalue (Suc n) (jbool b @ '','' @ y) = Some (TBool b, CHR '','' # y)" for b y n
    using jvalue_bool [of n b "'','' @ y"] by simp
  have int: "jvalue (Suc n) (Itoa (u_Exp u) @ ''}'') = Some (TNum (Itoa (u_Exp u)), ''}'')" for n
    by (rule jvalue_int) (simp add: delim_def)
  have "jvalue (2 * length (marshal_user u) + 2) (marshal_user u) =
    Some (TObj [(''ID'', TStr (u_ID u)), (''Name'', TStr (u_Name u)), (''Admin'', TBool (u_Admin u)), (''CSRF'', TStr (u_CSRF u)), (''Exp'', TNum (Itoa (u_Exp u)))], [])"
    unfolding m unfolding marshal_user_def
    by (simp only: jvalue_object jmembers_more [OF key str [OF assms(1)]] jmembers_more [OF key str [OF assms(2)]] jmembers_more [OF key bool]
        jmembers_more [OF key str [OF assms(3)]] jmembers_last [OF key int] insert_iff simp_thms option.map apfst_conv)
  then show ?thesis by (simp add: json_whole_def)
qed

lemma parse_flow:
  assumes "utf8_ok (f_State f)" "utf8_ok (f_Verifier f)" "utf8_ok (f_Next f)"
  shows "json_whole (marshal_flow f) =
    Some (TObj [(''State'', TStr (f_State f)), (''Verifier'', TStr (f_Verifier f)), (''Next'', TStr (f_Next f)), (''Exp'', TNum (Itoa (f_Exp f)))])"
proof -
  have key: "unquote (k @ dq # CHR '':'' # x) = Some (k, CHR '':'' # x)" if "k \<in> {''State'', ''Verifier'', ''Next'', ''Exp''}" for k x
    using that ascii_key by auto
  have "40 \<le> length (marshal_flow f)" by (simp add: marshal_flow_def jkey_def jstring_def)
  then obtain m where m: "2 * length (marshal_flow f) + 2 = Suc (Suc (Suc (Suc (Suc (Suc (Suc m))))))" using seven_more by blast
  have str: "jvalue (Suc n) (jstring x @ '','' @ y) = Some (TStr x, CHR '','' # y)" if "utf8_ok x" for x y n
    using jvalue_string [OF that, of n "'','' @ y"] by simp
  have int: "jvalue (Suc n) (Itoa (f_Exp f) @ ''}'') = Some (TNum (Itoa (f_Exp f)), ''}'')" for n
    by (rule jvalue_int) (simp add: delim_def)
  have "jvalue (2 * length (marshal_flow f) + 2) (marshal_flow f) =
    Some (TObj [(''State'', TStr (f_State f)), (''Verifier'', TStr (f_Verifier f)), (''Next'', TStr (f_Next f)), (''Exp'', TNum (Itoa (f_Exp f)))], [])"
    unfolding m unfolding marshal_flow_def
    by (simp only: jvalue_object jmembers_more [OF key str [OF assms(1)]] jmembers_more [OF key str [OF assms(2)]]
        jmembers_more [OF key str [OF assms(3)]] jmembers_last [OF key int] insert_iff simp_thms option.map apfst_conv)
  then show ?thesis by (simp add: json_whole_def)
qed

definition upper :: "char \<Rightarrow> char" where
  "upper c = (if 97 \<le> code c \<and> code c \<le> 122 then byte (code c - 32) else c)"

lemma fold_key_ascii: "list_all (\<lambda>c. code c < 0x80) s \<Longrightarrow> fold_key s = map upper s"
proof (induction s rule: fold_key.induct)
  case (1 a b c s)
  then have "a \<noteq> byte 0xE2" "a \<noteq> byte 0xC5" by (auto simp: byte_def)
  with 1 show ?case by (simp add: upper_def)
next
  case (2 a b)
  then have "a \<noteq> byte 0xC5" by (auto simp: byte_def)
  with 2 show ?case by (simp add: upper_def)
qed (auto simp: upper_def)

declare fold_key.simps [simp del]

lemma upper_letters: "map upper ''adefimnprtxACDEFINRSV'' = ''ADEFIMNPRTXACDEFINRSV''"
  by (simp add: upper_def byte_def char_of_eq_iff)

lemma fold_keys:
  "fold_key ''ID'' = ''ID''" "fold_key ''Name'' = ''NAME''" "fold_key ''Admin'' = ''ADMIN''" "fold_key ''CSRF'' = ''CSRF''" "fold_key ''Exp'' = ''EXP''"
  "fold_key ''State'' = ''STATE''" "fold_key ''Verifier'' = ''VERIFIER''" "fold_key ''Next'' = ''NEXT''"
  using upper_letters by (simp_all add: fold_key_ascii)

lemma unmarshal_marshal_user:
  assumes "utf8_ok (u_ID u)" "utf8_ok (u_Name u)" "utf8_ok (u_CSRF u)" "0 \<le> u_Exp u" "u_Exp u < 2 ^ 63"
  shows "unmarshal_user (marshal_user u) = Some (u\<lparr>u_Bearer := False\<rparr>)"
  by (simp add: unmarshal_user_def parse_user assms(1-3) into_struct_def put_user_def key_is_def fold_keys put_string_def put_bool_def put_int_def
      Atoi_Itoa [OF assms(4,5)] zero_user_def)

lemma unmarshal_marshal_flow:
  assumes "utf8_ok (f_State f)" "utf8_ok (f_Verifier f)" "utf8_ok (f_Next f)" "0 \<le> f_Exp f" "f_Exp f < 2 ^ 63"
  shows "unmarshal_flow (marshal_flow f) = Some f"
  by (simp add: unmarshal_flow_def parse_flow assms(1-3) into_struct_def put_flow_def key_is_def fold_keys put_string_def put_int_def
      Atoi_Itoa [OF assms(4,5)] zero_flow_def)

section \<open>Signed cookies\<close>

lemma b64_ascii: "utf8_ok (b64 s)"
proof -
  have "list_all (\<lambda>i. code (b64_char i) < 0x80) [0..<64]" by code_simp
  then have "i < 64 \<Longrightarrow> code (b64_char i) < 0x80" for i by (simp add: list_all_iff)
  then have "list_all (\<lambda>c. code c < 0x80) (b64 s)" unfolding b64_map list_all_iff using b64_indices_less by auto
  then show ?thesis by (rule ascii_utf8)
qed

lemma b64_Nil [simp]: "b64 s = [] \<longleftrightarrow> s = []"
  by (cases s rule: b64.cases) simp_all

lemma Cut_dot: "CHR ''.'' \<notin> set p \<Longrightarrow> Cut (p @ ''.'' @ s) ''.'' = (p, s, True)"
  by (induction p) auto

lemma Cut_b64: "Cut (b64 p @ ''.'' @ s) ''.'' = (b64 p, s, True)"
  using b64_chars by (intro Cut_dot) blast

lemma getSigned_setSigned:
  "map_of (hr_Cookies r) name = Some (ck_Value (setSigned a name payload ttl)) \<Longrightarrow> getSigned a unmarshal r name = unmarshal payload"
  by (simp add: getSigned_def setSigned_def Cut_b64 [simplified] DecodeString_b64)

lemma getSigned_Some:
  assumes "getSigned a unmarshal r name = Some v"
  obtains p raw where "(name, p @ ''.'' @ b64 (hmac_sha256 (Key (au_c a)) (name @ ''|'' @ p))) \<in> set (hr_Cookies r)"
    "DecodeString p = Some raw" "unmarshal raw = Some v"
proof -
  obtain w p sig raw where w: "map_of (hr_Cookies r) name = Some w" "Cut w ''.'' = (p, sig, True)" "sig = b64 (mac a (name @ ''|'' @ p))"
    "DecodeString p = Some raw" "unmarshal raw = Some v"
    using assms by (auto simp: getSigned_def split: option.splits prod.splits if_splits)
  have "w = p @ ''.'' @ sig" using w(2)
  proof (induction w arbitrary: p)
    case (Cons c w)
    then show ?case by (cases "c = CHR ''.''") (auto split: prod.splits)
  qed simp
  then show ?thesis using that [of p raw] w map_of_SomeD [OF w(1)] by (simp add: mac_def)
qed

lemma zero_user_rejected: "unmarshal_user (marshal_user zero_user) = Some zero_user"
  by (subst unmarshal_marshal_user) (simp_all add: zero_user_def)

lemma unmarshal_user_bearer: "unmarshal_user raw = Some u \<Longrightarrow> \<not> u_Bearer u"
proof -
  have put: "\<not> u_Bearer v'" if "put_user k x v = Some v'" "\<not> u_Bearer v" for k x v v'
    using that by (auto simp: put_user_def put_string_def put_bool_def put_int_def split: if_splits jtext.splits prod.splits option.splits)
  have "\<not> u_Bearer v'" if "put_all put_user fs v = Some v'" "\<not> u_Bearer v" for fs v v'
    using that by (induction fs arbitrary: v) (auto split: option.splits, metis put)
  then show "unmarshal_user raw = Some u \<Longrightarrow> \<not> u_Bearer u"
    by (fastforce simp: unmarshal_user_def into_struct_def zero_user_def split: bind_splits jtext.splits)
qed

lemma me_roles:
  "fold (\<lambda>role u. if role = ''owner'' \<or> role = ''user-admin'' then u\<lparr>u_Admin := True\<rparr> else u) roles u
     = u\<lparr>u_Admin := u_Admin u \<or> ''owner'' \<in> set roles \<or> ''user-admin'' \<in> set roles\<rparr>"
  by (induction roles arbitrary: u) auto

lemma me_Some:
  assumes "me E a tok = Some u"
  shows "\<exists>body b. e_me E (TrimRight (CoderInternalURL (au_c a)) ''/'' @ ''/api/v2/users/me'') tok = Some (200, body) \<and> decode_me body = Some b \<and> mb_id b \<noteq> [] \<and>
    u_ID u = mb_id b \<and> u_Name u = mb_username b \<and> (u_Admin u \<longleftrightarrow> ''owner'' \<in> set (mb_roles b) \<or> ''user-admin'' \<in> set (mb_roles b))"
  using assms by (auto simp: me_def me_roles zero_user_def split: option.splits prod.splits if_splits)

lemma Callback_ok:
  assumes "getSigned a unmarshal_flow r flowCookie = Some f" "e_now E \<le> f_Exp f" "get_or [] (hr_Query r) ''state'' = f_State f"
  shows "Callback E a r = with_cookie (setSigned a flowCookie (marshal_flow zero_flow) (-1))
    (case e_exchange E (au_oauth a) (get_or [] (hr_Query r) ''code'') (f_Verifier f) of None \<Rightarrow> http_Error ''coder token exchange failed'' 502
     | Some tok \<Rightarrow> (case me E a tok of None \<Rightarrow> http_Error ''coder user lookup failed'' 502
          | Some u \<Rightarrow> with_cookie (snd (Issue E a u)) (http_Redirect (e_parse E) r (f_Next f) 302)))"
  using assms by (simp add: Callback_def Let_def)

lemma Callback_flow:
  assumes "re_Status (Callback E a r) \<noteq> 400"
  obtains f where "getSigned a unmarshal_flow r flowCookie = Some f" "e_now E \<le> f_Exp f" "get_or [] (hr_Query r) ''state'' = f_State f"
  using assms by (cases "getSigned a unmarshal_flow r flowCookie") (auto simp: Callback_def Let_def http_Error_def split: if_splits)

lemma Callback_target:
  assumes "getSigned a unmarshal_flow r flowCookie = Some f" "re_Status (Callback E a r) = 302"
  shows "re_Location (Callback E a r) = re_Location (http_Redirect (e_parse E) r (f_Next f) 302)"
proof -
  have f: "e_now E \<le> f_Exp f" "get_or [] (hr_Query r) ''state'' = f_State f" using Callback_flow [of E a r] assms by force+
  show ?thesis using assms(2) unfolding Callback_ok [OF assms(1) f]
    by (auto simp: with_cookie_def http_Error_def split: option.splits)
qed

lemma localPath_plain:
  assumes "localPath E s"
  obtains path where "e_parse E s = Some ([], [], path)" "CHR 0x5C \<notin> set s" "\<not> list_ex control s" "one_slash path" "\<not> list_ex control path"
proof -
  obtain path where p: "e_parse E s = Some ([], [], path)" "HasPrefix path ''/''" "\<not> HasPrefix path ''//''"
    "\<not> list_ex (\<lambda>c. code c < 0x20 \<or> code c = 0x7f \<or> c = CHR 0x5C) (s @ path)"
    using assms by (auto simp: localPath_def split: option.splits if_splits)
  then obtain t where t: "path = CHR ''/'' # t" by (auto simp: HasPrefix_iff)
  have "one_slash path" using p(3,4) by (cases t) (auto simp: t one_slash_def HasPrefix_def)
  then show ?thesis using that p(1,4) by (auto simp: list_ex_iff control_def)
qed

lemma redirect_root: "re_Location (http_Redirect parse r ''/'' status) = Some ''/''"
proof -
  have "Cut ''/'' ''?'' = (''/'', [], False)" "clean_keep ''/'' = ''/''" "hexEscapeNonASCII ''/'' = ''/''" by code_simp+
  then show ?thesis by (simp add: http_Redirect_def redirect_target_def Let_def split: option.split)
qed

lemma root_one_slash [simp]: "one_slash ''/''"
  by (simp add: one_slash_def)

section \<open>Properties\<close>

text \<open>C7. Sessions: the cookie that Issue sets identifies, in any later request without a bearer, exactly the user it was
  issued for, with the fresh CSRF token, up to and including the second of its expiry, and nobody after it.\<close>

theorem session_roundtrip:
  assumes "Issue E a u = (u', c)" "utf8_ok (u_ID u)" "u_ID u \<noteq> []" "utf8_ok (u_Name u)" "e_rand E \<noteq> []"
    and "0 \<le> e_now E" "e_now E + 28800 < 2 ^ 63"
    and "map_of (hr_Cookies r) (ck_Name c) = Some (ck_Value c)" "\<not> HasPrefix (hr_Authorization r) ''Bearer ''"
  shows "caller E' a r = (if e_now E' \<le> e_now E + 28800 then Some u' else None)
    \<and> u' = u\<lparr>u_CSRF := b64 (e_rand E), u_Exp := e_now E + 28800, u_Bearer := False\<rparr>"
proof -
  have u': "u' = u\<lparr>u_CSRF := b64 (e_rand E), u_Exp := e_now E + 28800, u_Bearer := False\<rparr>"
    and c: "c = setSigned a sessionCookie (marshal_user u') sessionTTL"
    using assms(1) by (auto simp: Issue_def Let_def random_def sessionTTL_def)
  have "ck_Name c = sessionCookie" by (simp add: c setSigned_def)
  then have "getSigned a unmarshal_user r sessionCookie = unmarshal_user (marshal_user u')"
    using getSigned_setSigned [of r sessionCookie a "marshal_user u'" sessionTTL] assms(8) c by simp
  also have "\<dots> = Some u'" using assms by (subst unmarshal_marshal_user) (simp_all add: u' b64_ascii)
  finally show ?thesis using assms(3,5,9) by (simp add: caller_def u')
qed

theorem session_roundtrip_witness:
  "caller (demo_env\<lparr>e_now := 29800\<rparr>) demo_authn (demo_req\<lparr>hr_Cookies := [(sessionCookie, ck_Value (snd (Issue demo_env demo_authn (zero_user\<lparr>u_ID := ''u1''\<rparr>))))]\<rparr>)
     = Some (zero_user\<lparr>u_ID := ''u1'', u_CSRF := b64 (replicate 32 (CHR ''k'')), u_Exp := 29800\<rparr>)"
proof -
  let ?u = "zero_user\<lparr>u_ID := ''u1''\<rparr>"
  have i: "Issue demo_env demo_authn ?u = (fst (Issue demo_env demo_authn ?u), snd (Issue demo_env demo_authn ?u))" by simp
  have n: "ck_Name (snd (Issue demo_env demo_authn ?u)) = sessionCookie" by (simp add: Issue_def Let_def setSigned_def)
  show ?thesis
    using session_roundtrip [OF i, of "demo_req\<lparr>hr_Cookies := [(sessionCookie, ck_Value (snd (Issue demo_env demo_authn ?u)))]\<rparr>" "demo_env\<lparr>e_now := 29800\<rparr>"] n
    by (simp add: demo_env_def demo_req_def zero_user_def)
qed

text \<open>C11. Who a request speaks for: the test user only by the configured, non-empty token; anybody else only by a cookie
  named sc_session whose signature is the HMAC, under the session key, of that name and the payload, which decodes to the user,
  is not expired, and has an ID and a CSRF token. A request with a bearer never falls back to the cookie.\<close>

theorem caller_sound:
  assumes "caller E a r = Some u"
  shows "if HasPrefix (hr_Authorization r) ''Bearer ''
    then TestToken (au_c a) \<noteq> [] \<and> hr_Authorization r = ''Bearer '' @ TestToken (au_c a) \<and> u = testUser
    else (\<exists>p raw. (sessionCookie, p @ ''.'' @ b64 (hmac_sha256 (Key (au_c a)) (sessionCookie @ ''|'' @ p))) \<in> set (hr_Cookies r) \<and>
      DecodeString p = Some raw \<and> unmarshal_user raw = Some u) \<and> e_now E \<le> u_Exp u \<and> u_ID u \<noteq> [] \<and> u_CSRF u \<noteq> [] \<and> \<not> u_Bearer u"
proof (cases "HasPrefix (hr_Authorization r) ''Bearer ''")
  case True
  then obtain t where "hr_Authorization r = ''Bearer '' @ t" by (auto simp: HasPrefix_iff)
  then show ?thesis using assms True by (auto simp: caller_def Let_def split: if_splits)
next
  case False
  then have u: "getSigned a unmarshal_user r sessionCookie = Some u" "e_now E \<le> u_Exp u" "u_ID u \<noteq> []" "u_CSRF u \<noteq> []"
    using assms by (auto simp: caller_def Let_def split: option.splits if_splits)
  obtain p raw where p: "(sessionCookie, p @ ''.'' @ b64 (hmac_sha256 (Key (au_c a)) (sessionCookie @ ''|'' @ p))) \<in> set (hr_Cookies r)"
    "DecodeString p = Some raw" "unmarshal_user raw = Some u" using getSigned_Some [OF u(1)] .
  show ?thesis using False u(2-4) p unmarshal_user_bearer [OF p(3)] by auto
qed

theorem caller_sound_witness:
  "caller demo_env demo_authn (demo_req\<lparr>hr_Authorization := ''Bearer hook''\<rparr>) = Some testUser \<and> TestToken (au_c demo_authn) = ''hook''"
proof -
  have c: "caller demo_env demo_authn (demo_req\<lparr>hr_Authorization := ''Bearer hook''\<rparr>) = Some testUser"
    by (simp add: caller_def demo_authn_def New_def)
  show ?thesis using caller_sound [OF c] c by (simp add: demo_req_def)
qed

text \<open>C37. A signed value is bound to the name of its cookie: a value made by setSigned and sent under any name is accepted
  only as what was signed and under the name it was signed for, unless the HMAC under the session key is the same for
  this very payload with the one name and with the other.\<close>

theorem cookie_binding:
  assumes "map_of (hr_Cookies r) name = Some (ck_Value (setSigned a name' payload ttl))" "getSigned a unmarshal r name = Some v"
  shows "name = name' \<and> unmarshal payload = Some v \<or>
    name \<noteq> name' \<and> hmac_sha256 (Key (au_c a)) (name @ ''|'' @ b64 payload) = hmac_sha256 (Key (au_c a)) (name' @ ''|'' @ b64 payload)"
proof (cases "name = name'")
  case True
  then show ?thesis using getSigned_setSigned assms by metis
next
  case False
  have "b64 (mac a (name' @ ''|'' @ b64 payload)) = b64 (mac a (name @ ''|'' @ b64 payload))"
    using assms by (auto simp: getSigned_def setSigned_def Cut_b64 [simplified] split: if_splits)
  then have "hmac_sha256 (Key (au_c a)) (name' @ ''|'' @ b64 payload) = hmac_sha256 (Key (au_c a)) (name @ ''|'' @ b64 payload)"
    unfolding mac_def by (rule b64_inj)
  then show ?thesis using False by simp
qed

theorem cookie_binding_witness:
  "getSigned demo_authn unmarshal_user (demo_req\<lparr>hr_Cookies := [(sessionCookie, ck_Value (setSigned demo_authn sessionCookie (marshal_user zero_user) 0))]\<rparr>) sessionCookie = Some zero_user
   \<and> unmarshal_user (marshal_user zero_user) = Some zero_user"
proof -
  let ?r = "demo_req\<lparr>hr_Cookies := [(sessionCookie, ck_Value (setSigned demo_authn sessionCookie (marshal_user zero_user) 0))]\<rparr>"
  have m: "map_of (hr_Cookies ?r) sessionCookie = Some (ck_Value (setSigned demo_authn sessionCookie (marshal_user zero_user) 0))" by simp
  have g: "getSigned demo_authn unmarshal_user ?r sessionCookie = Some zero_user"
    using getSigned_setSigned [OF m, of unmarshal_user] zero_user_rejected by simp
  show ?thesis using g cookie_binding [OF m g] by blast
qed

text \<open>C12. A login ends in a session only when everything was in order: the flow cookie is ours and not expired, the state in the query is
  the one in it, the code was exchanged with its verifier, Coder answered 200 with a user that has an ID; the session is for that
  user, an admin exactly when one of the roles is owner or user-admin.\<close>

theorem Callback_session:
  assumes "c \<in> set (re_Cookies (Callback E a r))" "ck_Name c = sessionCookie"
  shows "\<exists>f tok body b u. getSigned a unmarshal_flow r flowCookie = Some f \<and> e_now E \<le> f_Exp f \<and> get_or [] (hr_Query r) ''state'' = f_State f \<and>
    e_exchange E (au_oauth a) (get_or [] (hr_Query r) ''code'') (f_Verifier f) = Some tok \<and>
    e_me E (TrimRight (CoderInternalURL (au_c a)) ''/'' @ ''/api/v2/users/me'') tok = Some (200, body) \<and> decode_me body = Some b \<and> mb_id b \<noteq> [] \<and>
    c = snd (Issue E a u) \<and> u_ID u = mb_id b \<and> u_Name u = mb_username b \<and> (u_Admin u \<longleftrightarrow> ''owner'' \<in> set (mb_roles b) \<or> ''user-admin'' \<in> set (mb_roles b))"
proof -
  have "re_Status (Callback E a r) \<noteq> 400"
    using assms(1) by (auto simp: Callback_def Let_def http_Error_def with_cookie_def http_Redirect_def split: option.splits if_splits)
  then obtain f where f: "getSigned a unmarshal_flow r flowCookie = Some f" "e_now E \<le> f_Exp f" "get_or [] (hr_Query r) ''state'' = f_State f"
    using Callback_flow by blast
  let ?ex = "e_exchange E (au_oauth a) (get_or [] (hr_Query r) ''code'') (f_Verifier f)"
  have flow: "c \<noteq> setSigned a flowCookie p t" for p t using assms(2) by (auto simp: setSigned_def sessionCookie_def flowCookie_def)
  obtain tok u where t: "?ex = Some tok" "me E a tok = Some u" "c = snd (Issue E a u)"
    using assms(1) flow unfolding Callback_ok [OF f] by (cases ?ex; cases "me E a (the ?ex)") (auto simp: with_cookie_def http_Error_def http_Redirect_def)
  show ?thesis using f t me_Some [OF t(2)] by blast
qed

definition demo_flow :: flow where
  "demo_flow = \<lparr>f_State = ''st'', f_Verifier = ''v'', f_Next = ''/mine'', f_Exp = 1600\<rparr>"

definition demo_callback :: Req where
  "demo_callback = demo_req\<lparr>hr_URLPath := ''/callback'', hr_Query := [(''state'', ''st''), (''code'', ''c'')],
     hr_Cookies := [(flowCookie, ck_Value (setSigned demo_authn flowCookie (marshal_flow demo_flow) 0))]\<rparr>"

lemma demo_callback_flow: "getSigned demo_authn unmarshal_flow demo_callback flowCookie = Some demo_flow"
proof -
  have "getSigned demo_authn unmarshal_flow demo_callback flowCookie = unmarshal_flow (marshal_flow demo_flow)"
    by (rule getSigned_setSigned [where ttl = 0]) (simp add: demo_callback_def)
  also have "\<dots> = Some demo_flow" by (rule unmarshal_marshal_flow) (simp_all add: demo_flow_def)
  finally show ?thesis .
qed

lemma jvalue_array: "jvalue n (''{'' @ x) = Some (v, CHR '']'' # y) \<Longrightarrow> jvalue (Suc (Suc n)) (''['' @ ''{'' @ x) = Some (TArr [v], y)"
  by (simp add: dq_def)

lemma demo_me_keys:
  "fold_key ''id'' = ''ID''" "fold_key ''name'' = ''NAME''" "fold_key ''roles'' = ''ROLES''" "fold_key ''username'' = ''USERNAME''"
  by (simp_all add: fold_key_ascii upper_def byte_def char_of_eq_iff)

lemma demo_me_body:
  "decode_me (''{'' @ jkey ''id'' @ jstring ''u1'' @ '','' @ jkey ''username'' @ jstring ''ann'' @ '','' @ jkey ''roles'' @ ''['' @ ''{'' @ jkey ''name'' @ jstring ''owner'' @ ''}]}'')
    = Some \<lparr>mb_id = ''u1'', mb_username = ''ann'', mb_roles = [''owner'']\<rparr>" (is "decode_me ?s = _")
proof -
  have key: "unquote (k @ dq # x) = Some (k, x)" if "k \<in> {''id'', ''username'', ''roles'', ''name''}" for k x
    using that by (auto simp: unquote.simps dq_def bs_def)
  have ascii: "utf8_ok ''u1''" "utf8_ok ''ann''" by simp_all
  have "40 \<le> length ?s" by (simp add: jkey_def jstring_def)
  then obtain m where m: "2 * length ?s + 2 = Suc (Suc (Suc (Suc (Suc (Suc (Suc m))))))" using seven_more by blast
  have str: "jvalue (Suc n) (jstring x @ '','' @ y) = Some (TStr x, CHR '','' # y)" if "utf8_ok x" for x y n
    using jvalue_string [OF that, of n "'','' @ y"] by simp
  have o: "jvalue (Suc n) (jstring ''owner'' @ ''}]}'') = Some (TStr ''owner'', ''}]}'')" for n by (rule jvalue_string) simp
  have role: "jvalue (Suc (Suc (Suc n))) (''{'' @ jkey ''name'' @ jstring ''owner'' @ ''}]}'') = Some (TObj [(''name'', TStr ''owner'')], '']}'')" for n
    by (simp only: jvalue_object jmembers_last [OF key o] insert_iff simp_thms option.map apfst_conv)
  have arr: "jvalue (Suc (Suc (Suc (Suc (Suc n))))) (''['' @ ''{'' @ jkey ''name'' @ jstring ''owner'' @ ''}]}'') = Some (TArr [TObj [(''name'', TStr ''owner'')]], ''}'')" for n
    by (rule jvalue_array [OF role])
  have m': "2 * length ?s + 2 + 2 = Suc (Suc (Suc (Suc (Suc (Suc (Suc (Suc (Suc m))))))))" using m by linarith
  have "jvalue (2 * length ?s + 2 + 2) ?s = Some (TObj [(''id'', TStr ''u1''), (''username'', TStr ''ann''), (''roles'', TArr [TObj [(''name'', TStr ''owner'')]])], [])"
    unfolding m' by (simp only: jvalue_object jmembers_more [OF key str] jmembers_last [OF key arr] insert_iff simp_thms option.map apfst_conv ascii)
  then have "json_first ?s = Some (TObj [(''id'', TStr ''u1''), (''username'', TStr ''ann''), (''roles'', TArr [TObj [(''name'', TStr ''owner'')]])])"
    using fuel_enough [of ?s "2 * length ?s + 2 + 2"] by (simp only: json_first_def option.map fst_conv le_add1)
  then show ?thesis by (simp add: decode_me_def into_struct_def put_me_def key_is_def demo_me_keys put_string_def)
qed

lemma demo_me: "me demo_env demo_authn ''tok'' = Some (zero_user\<lparr>u_ID := ''u1'', u_Name := ''ann'', u_Admin := True\<rparr>)"
  using demo_me_body by (simp add: me_def demo_env_def zero_user_def)

theorem Callback_session_witness:
  "snd (Issue demo_env demo_authn (zero_user\<lparr>u_ID := ''u1'', u_Name := ''ann'', u_Admin := True\<rparr>)) \<in> set (re_Cookies (Callback demo_env demo_authn demo_callback)) \<and>
   (\<exists>f. getSigned demo_authn unmarshal_flow demo_callback flowCookie = Some f \<and> 1000 \<le> f_Exp f \<and> f_State f = ''st'')"
proof -
  let ?u = "zero_user\<lparr>u_ID := ''u1'', u_Name := ''ann'', u_Admin := True\<rparr>"
  have c: "snd (Issue demo_env demo_authn ?u) \<in> set (re_Cookies (Callback demo_env demo_authn demo_callback))"
  proof -
    have f: "e_now demo_env \<le> f_Exp demo_flow" "get_or [] (hr_Query demo_callback) ''state'' = f_State demo_flow"
      by (simp_all add: demo_env_def demo_flow_def demo_callback_def)
    have "e_exchange demo_env oa c v = Some ''tok''" for oa c v by (simp add: demo_env_def)
    then show ?thesis unfolding Callback_ok [OF demo_callback_flow f] by (simp add: demo_me with_cookie_def)
  qed
  have n: "ck_Name (snd (Issue demo_env demo_authn ?u)) = sessionCookie" by (simp add: Issue_def Let_def setSigned_def)
  have "get_or [] (hr_Query demo_callback) ''state'' = ''st''" "e_now demo_env = 1000" by (simp_all add: demo_callback_def demo_env_def)
  then show ?thesis using c Callback_session [OF c n] by metis
qed

text \<open>C21. After a login the browser stays on the site: whatever (valid UTF-8) next Login was asked for, when the Callback
  answers its cookie with a redirect, the target has no control character, and what a browser reads once it has dropped
  tabs and line breaks is a path of this host, not //host nor /\host. A next whose decoded path has a control character
  or is not such a path leads to the root.\<close>

theorem login_redirect_local:
  assumes "re_Cookies (Login E a r) = [c]" "map_of (hr_Cookies r') (ck_Name c) = Some (ck_Value c)"
    and "re_Status (Callback E' a r') = 302" "hr_URLPath r' = ''/callback''" "e_parse E' = e_parse E"
    and "utf8_ok (e_verifier E)" "utf8_ok (get_or [] (hr_Query r) ''next'')" "0 \<le> e_now E" "e_now E + 600 < 2 ^ 63"
  shows "\<exists>u. re_Location (Callback E' a r') = Some u \<and> \<not> list_ex control u \<and> one_slash (browser_reads u) \<and>
    (\<forall>scheme host path. e_parse E (get_or [] (hr_Query r) ''next'') = Some (scheme, host, path) \<longrightarrow>
       list_ex control path \<or> \<not> one_slash path \<longrightarrow> u = ''/'')"
proof -
  let ?next = "get_or [] (hr_Query r) ''next''"
  define n where "n = (if localPath E ?next then ?next else ''/'')"
  define f where "f = \<lparr>f_State = random E, f_Verifier = e_verifier E, f_Next = n, f_Exp = e_now E + 600\<rparr>"
  have c: "c = setSigned a flowCookie (marshal_flow f) (600 * 1000000000)"
    using assms(1) by (auto simp: Login_def Let_def with_cookie_def http_Redirect_def f_def n_def)
  have "ck_Name c = flowCookie" by (simp add: c setSigned_def)
  then have "getSigned a unmarshal_flow r' flowCookie = unmarshal_flow (marshal_flow f)"
    using getSigned_setSigned [of r' flowCookie a "marshal_flow f" "600 * 1000000000"] assms(2) c by simp
  also have "\<dots> = Some f" using assms(6-9) by (intro unmarshal_marshal_flow) (simp_all add: f_def n_def random_def b64_ascii)
  finally have g: "getSigned a unmarshal_flow r' flowCookie = Some f" .
  have loc: "re_Location (Callback E' a r') = re_Location (http_Redirect (e_parse E') r' n 302)"
    using Callback_target [OF g assms(3)] by (simp add: f_def)
  show ?thesis
  proof (cases "localPath E ?next")
    case True
    obtain path where p: "e_parse E ?next = Some ([], [], path)" "CHR 0x5C \<notin> set ?next" "\<not> list_ex control ?next" "one_slash path" "\<not> list_ex control path"
      using localPath_plain [OF True] .
    have "n = ?next" "\<not> list_ex control ''/callback''" using True by (simp_all add: n_def control_def)
    then obtain u where "re_Location (Callback E' a r') = Some u" "one_slash u" "\<not> list_ex control u"
      using redirect_one_slash [of "e_parse E'" ?next path r' 302] p(1-3) assms(4,5) loc by auto
    then show ?thesis using p by (intro exI [of _ u]) (simp add: browser_reads_plain)
  next
    case False
    then have "re_Location (Callback E' a r') = Some ''/''" using redirect_root loc by (simp add: n_def)
    moreover have "\<not> list_ex control ''/''" by (simp add: control_def)
    ultimately show ?thesis by (simp add: browser_reads_plain)
  qed
qed

definition demo_login :: Req where
  "demo_login = demo_req\<lparr>hr_Query := [(''next'', ''//evil'')]\<rparr>"

definition demo_return :: Req where
  "demo_return = demo_req\<lparr>hr_URLPath := ''/callback'', hr_Query := [(''state'', random demo_env), (''code'', ''c'')],
     hr_Cookies := [(flowCookie, ck_Value (hd (re_Cookies (Login demo_env demo_authn demo_login))))]\<rparr>"

lemma demo_login_cookie:
  "re_Cookies (Login demo_env demo_authn demo_login) = [setSigned demo_authn flowCookie
     (marshal_flow \<lparr>f_State = random demo_env, f_Verifier = ''v'', f_Next = ''/'', f_Exp = 1600\<rparr>) (600 * 1000000000)]"
proof -
  have "get_or [] (hr_Query demo_login) ''next'' = ''//evil''" by (simp add: demo_login_def)
  moreover have "\<not> localPath demo_env ''//evil''" "e_verifier demo_env = ''v''" "e_now demo_env = 1000" by (simp_all add: localPath_def demo_env_def)
  ultimately show ?thesis by (simp add: Login_def Let_def with_cookie_def http_Redirect_def)
qed

lemma demo_return_status: "re_Status (Callback demo_env demo_authn demo_return) = 302"
proof -
  let ?f = "\<lparr>f_State = random demo_env, f_Verifier = ''v'', f_Next = ''/'', f_Exp = 1600\<rparr>"
  have "getSigned demo_authn unmarshal_flow demo_return flowCookie = unmarshal_flow (marshal_flow ?f)"
    by (rule getSigned_setSigned [where ttl = "600 * 1000000000"]) (simp add: demo_return_def demo_login_cookie)
  also have "\<dots> = Some ?f" by (rule unmarshal_marshal_flow) (simp_all add: random_def b64_ascii)
  finally have g: "getSigned demo_authn unmarshal_flow demo_return flowCookie = Some ?f" .
  have f: "e_now demo_env \<le> f_Exp ?f" "get_or [] (hr_Query demo_return) ''state'' = f_State ?f"
    by (simp_all add: demo_return_def) (simp add: demo_env_def)
  have "e_exchange demo_env oa c v = Some ''tok''" for oa c v by (simp add: demo_env_def)
  then show ?thesis unfolding Callback_ok [OF g f] by (simp add: demo_me with_cookie_def http_Redirect_def)
qed

theorem login_redirect_local_witness:
  "re_Status (Callback demo_env demo_authn demo_return) = 302 \<and> (\<exists>u. re_Location (Callback demo_env demo_authn demo_return) = Some u \<and> one_slash (browser_reads u))"
proof -
  have p: "hr_URLPath demo_return = ''/callback''" by (simp add: demo_return_def)
  have m: "map_of (hr_Cookies demo_return) (ck_Name (setSigned demo_authn flowCookie (marshal_flow \<lparr>f_State = random demo_env, f_Verifier = ''v'', f_Next = ''/'', f_Exp = 1600\<rparr>) (600 * 1000000000)))
      = Some (ck_Value (setSigned demo_authn flowCookie (marshal_flow \<lparr>f_State = random demo_env, f_Verifier = ''v'', f_Next = ''/'', f_Exp = 1600\<rparr>) (600 * 1000000000)))"
    unfolding demo_return_def demo_login_cookie by (simp add: setSigned_def)
  have e: "utf8_ok (e_verifier demo_env)" "utf8_ok (get_or [] (hr_Query demo_login) ''next'')" "0 \<le> e_now demo_env" "e_now demo_env + 600 < 2 ^ 63"
    by (simp_all add: demo_env_def demo_login_def)
  show ?thesis using login_redirect_local [OF demo_login_cookie m demo_return_status p refl e] demo_return_status by blast
qed

text \<open>Logout replaces the session cookie by one that is refused at any time; its MaxAge is 0, since a lifetime of -1
  nanosecond is 0 whole seconds, so the browser is not told to delete it.\<close>

theorem Logout_cookie:
  "\<exists>c. re_Cookies (Logout E a r u) = [c] \<and> ck_Name c = sessionCookie \<and> ck_MaxAge c = 0 \<and>
    (\<forall>E' r'. map_of (hr_Cookies r') sessionCookie = Some (ck_Value c) \<longrightarrow> \<not> HasPrefix (hr_Authorization r') ''Bearer '' \<longrightarrow> caller E' a r' = None)"
proof -
  let ?c = "setSigned a sessionCookie (marshal_user zero_user) (-1)"
  have "caller E' a r' = None" if "map_of (hr_Cookies r') sessionCookie = Some (ck_Value ?c)" "\<not> HasPrefix (hr_Authorization r') ''Bearer ''" for E' r'
    using getSigned_setSigned [OF that(1), of unmarshal_user] that(2) by (simp add: caller_def zero_user_rejected) (simp add: zero_user_def)
  moreover have "ck_MaxAge ?c = 0" by (simp add: setSigned_def int_seconds_def)
  ultimately show ?thesis by (intro exI [of _ ?c]) (simp add: Logout_def with_cookie_def http_Redirect_def, simp add: setSigned_def)
qed

theorem Logout_cookie_witness:
  "\<exists>v. caller demo_env demo_authn (demo_req\<lparr>hr_Cookies := [(sessionCookie, v)]\<rparr>) = None \<and> v = ck_Value (hd (re_Cookies (Logout demo_env demo_authn demo_req testUser)))"
proof -
  obtain c where c: "re_Cookies (Logout demo_env demo_authn demo_req testUser) = [c]"
    "\<And>E' r'. map_of (hr_Cookies r') sessionCookie = Some (ck_Value c) \<Longrightarrow> \<not> HasPrefix (hr_Authorization r') ''Bearer '' \<Longrightarrow> caller E' demo_authn r' = None"
    using Logout_cookie [of demo_env demo_authn demo_req testUser] by blast
  show ?thesis using c(1) c(2) [of "demo_req\<lparr>hr_Cookies := [(sessionCookie, ck_Value c)]\<rparr>" demo_env] by (simp add: demo_req_def)
qed

end
