(* ===== verification/StoreRace.thy ===== *)
theory StoreRace
  imports StoreSystem
begin

text \<open>
  Transactions that overlap. Method tx of src/admin/internal/store/store.go begins a transaction at PostgreSQL's default
  isolation level READ COMMITTED, and no query of the package locks the rows it reads: each statement sees what is committed
  when it starts. Three operations decide on the result of a SELECT and write in a later statement (DeleteZone, Assign and
  FileRequest); the operations \<open>DeleteZone_at\<close>, \<open>AssignZone_at\<close> and \<open>FileRequest_at\<close> of this theory take the database \<open>r\<close>
  their SELECT saw apart from the database they write, into which other transactions may have committed in between. With
  both the same they are the operations of StoreZones and StoreRequests. The theorems say what survives such an overlap
  and, on concrete runs, what does not.
\<close>

section \<open>Definitions\<close>

definition seen :: "db \<Rightarrow> 'a txn \<Rightarrow> 'a txn" where
  \<comment> \<open>a query that saw the database \<open>r\<close>\<close>
  "seen r m d = (case m r of Inl e \<Rightarrow> Inl e | Inr (a, _) \<Rightarrow> Inr (a, d))"

definition DeleteZone_at :: "pg \<Rightarrow> time \<Rightarrow> string \<Rightarrow> string \<Rightarrow> db \<Rightarrow> db \<Rightarrow> (err + unit) \<times> db" where
  "DeleteZone_at E now actor i r = tx (
     tbind (cast_uuid E i) (\<lambda>u.
     tbind (seen r (select_deletable u)) (\<lambda>_.
     tbind (delete_zone u) (\<lambda>_.
     audit now actor ''zone_delete'' [(''zone'', JStr i)]))))"

definition AssignZone_at :: "pg \<Rightarrow> time \<Rightarrow> string \<Rightarrow> string \<Rightarrow> string \<Rightarrow> db \<Rightarrow> db \<Rightarrow> (err + unit) \<times> db" where
  "AssignZone_at E now actor wsID zoneID r = tx (
     tbind (cast_uuid E zoneID) (\<lambda>z.
     tbind (seen r (select_is_default z)) (\<lambda>def.
     tbind (cast_uuid E wsID) (\<lambda>ws.
     tbind (if def then delete_assignments (\<lambda>a. as_ws a = ws) else upsert_assignment ws z actor now) (\<lambda>_.
     audit now actor ''assign'' [(''workspace'', JStr wsID), (''zone'', JStr zoneID)])))))"

definition FileRequest_at :: "pg \<Rightarrow> (nat \<Rightarrow> string) \<Rightarrow> time \<Rightarrow> string \<Rightarrow> string \<Rightarrow> string \<Rightarrow> int \<Rightarrow> string \<Rightarrow>
    db \<Rightarrow> db \<Rightarrow> (err + string) \<times> db" where
  "FileRequest_at E gen now actor wsID host port justification r d =
     (if \<not> ValidRule \<lparr>Kind = ''host'', Value = host, Port = port\<rparr> then (Inl ErrInvalid, d)
      else tx (tbind (cast_uuid E wsID) (\<lambda>ws.
        case select_pending ws host port r of
          Some i \<Rightarrow> tret i
        | None \<Rightarrow> tbind (insert_request (new_request (gen 0) ws host port justification actor now)) (\<lambda>i.
            tbind (audit now actor ''request''
              [(''request'', JStr i), (''workspace'', JStr wsID), (''host'', JStr host), (''port'', JNum port)]) (\<lambda>_.
            tret i)))) d)"

definition identical :: "string \<Rightarrow> string \<Rightarrow> int \<Rightarrow> db \<Rightarrow> request_row list" where
  \<comment> \<open>the pending requests of a workspace for a host and a port\<close>
  "identical ws host port d = filter (\<lambda>q. rq_ws q = ws \<and> rq_host q = host \<and> rq_port q = port \<and> rq_status q = ''pending'') (requests d)"

section \<open>Without an overlap\<close>

lemma seen_reads:
  assumes "\<And>d a d'. m d = Inr (a, d') \<Longrightarrow> d' = d"
  shows "seen d m d = m d"
  using assms by (auto simp: seen_def split: sum.splits)

lemma seen_same [simp]: "seen d (select_deletable u) d = select_deletable u d" "seen d (select_is_default u) d = select_is_default u d"
  by (rule seen_reads, auto simp: select_deletable_def split: option.splits if_splits)
     (rule seen_reads, auto simp: select_is_default_def split: option.splits)

lemma at_same:
  "DeleteZone_at E now actor i d d = DeleteZone E now actor i d"
  "AssignZone_at E now actor ws i d d = AssignZone E now actor ws i d"
  "FileRequest_at E gen now actor ws host port j d d = FileRequest E gen now actor ws host port j d"
proof -
  show "DeleteZone_at E now actor i d d = DeleteZone E now actor i d"
    by (cases "uuid_in E i") (simp_all add: DeleteZone_at_def DeleteZone_def tx_def cast_uuid_def tbind_def tret_def tfail_def)
  show "AssignZone_at E now actor ws i d d = AssignZone E now actor ws i d"
    by (cases "uuid_in E i") (simp_all add: AssignZone_at_def AssignZone_def tx_def cast_uuid_def tbind_def tret_def tfail_def)
  show "FileRequest_at E gen now actor ws host port j d d = FileRequest E gen now actor ws host port j d"
    by (cases "uuid_in E ws")
      (simp_all add: FileRequest_at_def FileRequest_def tx_def cast_uuid_def tbind_def tret_def tfail_def split: option.split)
qed

section \<open>What survives\<close>

lemma seen_Inr: "seen r m d = Inr (a, d') \<longleftrightarrow> d' = d \<and> (\<exists>e. m r = Inr (a, e))"
  by (auto simp: seen_def split: sum.splits)

lemma DeleteZone_at_Inr:
  assumes "DeleteZone_at E now actor i r d = (Inr (), d')"
  obtains u e z where "uuid_in E i = Some u" "delete_zone u d = Inr ((), e)"
    "find (\<lambda>z. z_id z = u) (zones r) = Some z" "\<not> z_is_default z" "\<forall>a \<in> set (assignments r). as_zone a \<noteq> u"
    "audit now actor ''zone_delete'' [(''zone'', JStr i)] e = Inr ((), d')"
  using assms unfolding DeleteZone_at_def
  by (auto simp: tx_Inr txn_Inr seen_Inr select_deletable_def split: option.splits if_splits)

lemma deleted_zone_in:
  assumes "has_default d" "delete_zone u d = Inr ((), e)"
  shows "zone_in e ws = (if zone_in d ws = Some u then None else zone_in d ws)"
    and "has_default e \<longleftrightarrow> (\<forall>z \<in> set (zones d). z_is_default z \<longrightarrow> z_id z \<noteq> u)"
proof -
  have e: "assignments e = assignments d" "zones e = filter (\<lambda>z. z_id z \<noteq> u) (zones d)"
    and free: "\<forall>a \<in> set (assignments d). as_zone a \<noteq> u"
    using assms(2) by (auto simp: delete_zone_def split: if_splits)
  obtain z where z: "filter z_is_default (zones d) = [z]"
    using assms(1) by (auto simp: has_default_def length_Suc_conv)
  have "filter z_is_default (zones e) = filter (\<lambda>z. z_id z \<noteq> u) (filter z_is_default (zones d))"
    unfolding e by (simp add: conj_commute)
  then have rest: "filter z_is_default (zones e) = (if z_id z = u then [] else [z])" by (simp add: z)
  have "as_zone a \<noteq> u" if "find (\<lambda>a. as_ws a = ws) (assignments d) = Some a" for a
    using free that find_Some_mem by fast
  then show "zone_in e ws = (if zone_in d ws = Some u then None else zone_in d ws)"
    by (auto simp: zone_in_def e(1) find_filter [of z_is_default] rest z split: option.splits)
  have "set (filter z_is_default (zones d)) = {z}" by (simp add: z)
  then have "(\<forall>z \<in> set (zones d). z_is_default z \<longrightarrow> z_id z \<noteq> u) \<longleftrightarrow> z_id z \<noteq> u" by auto
  then show "has_default e \<longleftrightarrow> (\<forall>z \<in> set (zones d). z_is_default z \<longrightarrow> z_id z \<noteq> u)"
    by (simp add: has_default_def rest)
qed

lemma find_moved:
  "map_option as_zone (find (\<lambda>a. as_ws a = w) (map (\<lambda>a. if as_ws a = ws then a\<lparr>as_zone := z, as_by := b, as_at := t\<rparr> else a) as)) =
     (if w = ws \<and> ws \<in> as_ws ` set as then Some z else map_option as_zone (find (\<lambda>a. as_ws a = w) as))"
  by (induction as) auto

lemma find_dropped:
  "find (\<lambda>a. as_ws a = w) (filter (\<lambda>a. as_ws a \<noteq> ws) as) = (if w = ws then None else find (\<lambda>a. as_ws a = w) as)"
  by (induction as) auto

lemma find_added:
  "ws \<notin> as_ws ` set as \<Longrightarrow> map_option as_zone (find (\<lambda>a. as_ws a = w) (as @ [\<lparr>as_ws = ws, as_zone = z, as_by = b, as_at = t\<rparr>])) =
     (if w = ws then Some z else map_option as_zone (find (\<lambda>a. as_ws a = w) as))"
  by (induction as) auto

lemma zone_in_find:
  "zone_in d ws = (case map_option as_zone (find (\<lambda>a. as_ws a = ws) (assignments d)) of
      Some z \<Rightarrow> Some z | None \<Rightarrow> map_option z_id (find z_is_default (zones d)))"
  by (auto simp: zone_in_def split: option.splits)

lemma upserted_zone_in:
  assumes "upsert_assignment ws z actor now d = Inr (u, e)"
  shows "zone_in e w = (if w = ws then Some z else zone_in d w)" and "zones e = zones d" and "z \<in> z_id ` set (zones d)"
proof -
  have e: "assignments e = (if ws \<in> as_ws ` set (assignments d)
      then map (\<lambda>a. if as_ws a = ws then a\<lparr>as_zone := z, as_by := actor, as_at := now\<rparr> else a) (assignments d)
      else assignments d @ [\<lparr>as_ws = ws, as_zone = z, as_by = actor, as_at = now\<rparr>])"
    and zs: "zones e = zones d" and "z \<in> z_id ` set (zones d)"
    using assms by (auto simp: upsert_assignment_def split: if_splits)
  then show "zones e = zones d" "z \<in> z_id ` set (zones d)" by simp_all
  have "map_option as_zone (find (\<lambda>a. as_ws a = w) (assignments e)) =
      (if w = ws then Some z else map_option as_zone (find (\<lambda>a. as_ws a = w) (assignments d)))"
    unfolding e by (cases "ws \<in> as_ws ` set (assignments d)") (simp_all only: find_moved find_added if_True if_False simp_thms not_False_eq_True)
  then show "zone_in e w = (if w = ws then Some z else zone_in d w)" by (auto simp: zone_in_find zs split: option.splits)
qed

lemma dropped_zone_in:
  assumes "delete_assignments (\<lambda>a. as_ws a = ws) d = Inr (u, e)"
  shows "zone_in e w = (if w = ws then map_option z_id (find z_is_default (zones d)) else zone_in d w)" and "zones e = zones d"
  using assms by (auto simp: zone_in_find delete_assignments_def find_dropped split: option.splits)

section \<open>Properties\<close>

text \<open>C19. Deleting a zone while other transactions commit between its check and its DELETE: it deletes only a zone that at the check was not
  the default one and had no workspace assigned; the tables stay consistent, no assignment is lost, and nobody's zone changes unless the
  zone is the default one at the DELETE, so has become it after the check. In that case, and only then, the database is left without a
  default zone, and every workspace without an assignment without a zone.\<close>

theorem DeleteZone_overlap:
  assumes "db_ok d" "has_default d" "DeleteZone_at E now actor i r d = (Inr (), d')"
  shows "\<exists>u z. uuid_in E i = Some u \<and> find (\<lambda>z. z_id z = u) (zones r) = Some z \<and> \<not> z_is_default z \<and> (\<forall>a \<in> set (assignments r). as_zone a \<noteq> u) \<and>
    db_ok d' \<and> assignments d' = assignments d \<and> u \<notin> z_id ` set (zones d') \<and>
    (\<forall>ws. zone_in d' ws = (if zone_in d ws = Some u then None else zone_in d ws)) \<and>
    (has_default d' \<longleftrightarrow> (\<forall>z \<in> set (zones d). z_is_default z \<longrightarrow> z_id z \<noteq> u))"
proof -
  obtain u e z where u: "uuid_in E i = Some u" "delete_zone u d = Inr ((), e)"
    and check: "find (\<lambda>z. z_id z = u) (zones r) = Some z" "\<not> z_is_default z" "\<forall>a \<in> set (assignments r). as_zone a \<noteq> u"
    and a: "audit now actor ''zone_delete'' [(''zone'', JStr i)] e = Inr ((), d')"
    using assms(3) by (rule DeleteZone_at_Inr)
  have same: "zones d' = zones e" "assignments d' = assignments e" and "rules d' = rules e" "requests d' = requests e" "denials d' = denials e"
    using a by (auto simp: audit_Inr)
  moreover have "db_ok e" using keepsD [OF keeps_delete_zone assms(1) u(2)] .
  ultimately have "db_ok d'" by (simp add: db_ok_def)
  moreover have "assignments d' = assignments d" "u \<notin> z_id ` set (zones d')" using same u(2) by (auto simp: delete_zone_def split: if_splits)
  moreover have "zone_in d' = zone_in e" "has_default d' = has_default e"
    using zone_in_cong [OF same] same(1) by (simp_all add: has_default_def)
  ultimately show ?thesis using deleted_zone_in [OF assms(2) u(2)] u(1) check by simp
qed

text \<open>Moving a workspace while the default zone may change between the check and the write: nobody else is moved, and the
  workspace ends in the zone asked for, except when that zone was the default one at the check: then the row is dropped,
  and the workspace follows whichever zone is the default one now.\<close>

theorem AssignZone_overlap:
  assumes "AssignZone_at E now actor wsID zoneID r d = (Inr (), d')"
  shows "\<exists>ws z x. uuid_in E wsID = Some ws \<and> uuid_in E zoneID = Some z \<and> find (\<lambda>y. z_id y = z) (zones r) = Some x \<and>
    zones d' = zones d \<and> rules d' = rules d \<and> (\<forall>w. w \<noteq> ws \<longrightarrow> zone_in d' w = zone_in d w) \<and>
    zone_in d' ws = (if z_is_default x then map_option z_id (find z_is_default (zones d)) else Some z)"
proof -
  obtain ws z def e where ids: "uuid_in E wsID = Some ws" "uuid_in E zoneID = Some z"
    and read: "\<exists>r'. select_is_default z r = Inr (def, r')"
    and e: "(if def then delete_assignments (\<lambda>a. as_ws a = ws) else upsert_assignment ws z actor now) d = Inr ((), e)"
    and d': "zones d' = zones e" "assignments d' = assignments e" "rules d' = rules e"
    using assms unfolding AssignZone_at_def by (auto simp: tx_Inr txn_Inr seen_Inr)
  obtain x where x: "find (\<lambda>y. z_id y = z) (zones r) = Some x" "def = z_is_default x"
    using read by (auto simp: select_is_default_def split: option.splits)
  have zi: "zone_in d' = zone_in e" using d'(1,2) by (rule zone_in_cong)
  have "rules e = rules d" using e by (auto simp: delete_assignments_def upsert_assignment_def split: if_splits)
  moreover have "zones e = zones d \<and> (\<forall>w. w \<noteq> ws \<longrightarrow> zone_in e w = zone_in d w) \<and>
      zone_in e ws = (if def then map_option z_id (find z_is_default (zones d)) else Some z)"
  proof (cases def)
    case True
    then show ?thesis using dropped_zone_in [of ws d "()" e] e by simp
  next
    case False
    then show ?thesis using upserted_zone_in [of ws z actor now d "()" e] e by simp
  qed
  ultimately show ?thesis using ids x d' zi by auto
qed

text \<open>C40. Filing a request while another transaction may commit between the query for an identical one and the INSERT: what the
  query found is returned and nothing changes; otherwise exactly one pending request is added at the end, whatever the other
  transaction has filed, with one audit row in the name of the requester and no other change; so an identical request that was
  committed in between stays beside it. The tables stay consistent.\<close>

theorem FileRequest_overlap:
  assumes "db_ok d" "FileRequest_at E gen now actor wsID host port j r d = (Inr i, d')"
  shows "\<exists>ws. uuid_in E wsID = Some ws \<and> db_ok d' \<and>
    (case select_pending ws host port r of
       Some k \<Rightarrow> i = k \<and> d' = d
     | None \<Rightarrow> i = gen 0 \<and> d' = d\<lparr>requests := requests d @ [new_request i ws host port j actor now],
         audits := audits d @ [\<lparr>au_at = now, au_actor = actor, au_action = ''request'',
           au_detail = [(''request'', JStr i), (''workspace'', JStr wsID), (''host'', JStr host), (''port'', JNum port)]\<rparr>]\<rparr> \<and> map rq_id (identical ws host port d') = map rq_id (identical ws host port d) @ [i])"
proof -
  have v: "ValidRule \<lparr>Kind = ''host'', Value = host, Port = port\<rparr>" using assms(2) by (auto simp: FileRequest_at_def split: if_splits)
  then have host: "ValidName host" by (simp add: ValidRule_def)
  from assms(2) v obtain ws where ws: "uuid_in E wsID = Some ws"
    and run: "(case select_pending ws host port r of
          Some i \<Rightarrow> tret i
        | None \<Rightarrow> tbind (insert_request (new_request (gen 0) ws host port j actor now)) (\<lambda>i.
            tbind (audit now actor ''request''
              [(''request'', JStr i), (''workspace'', JStr wsID), (''host'', JStr host), (''port'', JNum port)]) (\<lambda>_.
            tret i))) d = Inr (i, d')"
    by (auto simp: FileRequest_at_def tx_Inr txn_Inr)
  show ?thesis
  proof (cases "select_pending ws host port r")
    case None
    then obtain e where e: "insert_request (new_request (gen 0) ws host port j actor now) d = Inr (i, e)"
      and d': "d' = e\<lparr>audits := audits e @ [\<lparr>au_at = now, au_actor = actor, au_action = ''request'',
        au_detail = [(''request'', JStr i), (''workspace'', JStr wsID), (''host'', JStr host), (''port'', JNum port)]\<rparr>]\<rparr>"
      using run by (auto simp: txn_Inr)
    have "db_ok e" using keepsD [OF keeps_insert_request(1) [OF host] assms(1) e] .
    then have "db_ok d'" by (simp add: db_ok_def d')
    moreover have "i = gen 0" "e = d\<lparr>requests := requests d @ [new_request (gen 0) ws host port j actor now]\<rparr>"
      using e by (auto simp: insert_request_Inr new_request_def)
    ultimately show ?thesis using ws None by (simp add: identical_def new_request_def d')
  qed (use run ws assms(1) in \<open>auto simp: tret_def\<close>)
qed

section \<open>Concrete runs\<close>

definition demo_moved :: db where
  \<comment> \<open>zone \<open>a\<close> has become the default one\<close>
  "demo_moved = snd (SetDefaultZone demo_pg 5 ''ann'' ''a'' demo_zones)"

definition demo_lost :: db where
  "demo_lost = snd (DeleteZone_at demo_pg 6 ''eve'' ''a'' demo_zones demo_moved)"

lemma demo_moved_ok: "db_ok demo_moved" "has_default demo_moved"
  by code_simp+

text \<open>The overlap that loses the default zone: DeleteZone checks zone \<open>a\<close>, SetDefaultZone makes it the default one, and
  DeleteZone deletes it.\<close>

theorem DeleteZone_overlap_witness:
  "fst (DeleteZone_at demo_pg 6 ''eve'' ''a'' demo_zones demo_moved) = Inr () \<and> db_ok demo_lost \<and> \<not> has_default demo_lost \<and>
   zone_in demo_moved ''w2'' = Some ''a'' \<and> zone_in demo_lost ''w2'' = None \<and> zone_in demo_lost ''w1'' = Some ''b''"
proof -
  have ok: "fst (DeleteZone_at demo_pg 6 ''eve'' ''a'' demo_zones demo_moved) = Inr ()" by code_simp
  then have run: "DeleteZone_at demo_pg 6 ''eve'' ''a'' demo_zones demo_moved = (Inr (), demo_lost)"
    by (simp add: demo_lost_def prod_eq_iff)
  have u: "uuid_in demo_pg ''a'' = Some ''a''" by (simp add: demo_pg_def)
  have def: "\<exists>z \<in> set (zones demo_moved). z_is_default z \<and> ''a'' = z_id z"
    and zi: "zone_in demo_moved ''w2'' = Some ''a''" "zone_in demo_moved ''w1'' = Some ''b''" by code_simp+
  obtain u where "Some ''a'' = Some u" "db_ok demo_lost" and z: "\<forall>ws. zone_in demo_lost ws = (if zone_in demo_moved ws = Some u then None else zone_in demo_moved ws)"
    "has_default demo_lost \<longleftrightarrow> (\<forall>z \<in> set (zones demo_moved). z_is_default z \<longrightarrow> z_id z \<noteq> u)"
    using DeleteZone_overlap [OF demo_moved_ok run] unfolding u by blast
  then have "u = ''a''" "db_ok demo_lost" by simp_all
  moreover have "\<not> has_default demo_lost" unfolding z(2) \<open>u = ''a''\<close> using def by metis
  moreover have "zone_in demo_lost ''w2'' = None" "zone_in demo_lost ''w1'' = Some ''b''" using z(1) zi \<open>u = ''a''\<close> by simp_all
  ultimately show ?thesis using ok zi by blast
qed

text \<open>The same change of the default zone during Assign: the workspace asked for zone \<open>d\<close> and is in zone \<open>a\<close>.\<close>

theorem AssignZone_overlap_witness:
  "zone_in (snd (AssignZone_at demo_pg 6 ''eve'' ''w1'' ''d'' demo_zones demo_moved)) ''w1'' = Some ''a'' \<and>
   zone_in (snd (AssignZone_at demo_pg 6 ''eve'' ''w1'' ''d'' demo_zones demo_moved)) ''w2'' = zone_in demo_moved ''w2''"
proof -
  have "fst (AssignZone_at demo_pg 6 ''eve'' ''w1'' ''d'' demo_zones demo_moved) = Inr ()" by code_simp
  then have run: "AssignZone_at demo_pg 6 ''eve'' ''w1'' ''d'' demo_zones demo_moved =
      (Inr (), snd (AssignZone_at demo_pg 6 ''eve'' ''w1'' ''d'' demo_zones demo_moved))" by (simp add: prod_eq_iff)
  have "map_option z_is_default (find (\<lambda>y. z_id y = ''d'') (zones demo_zones)) = Some True"
    "map_option z_id (find z_is_default (zones demo_moved)) = Some ''a''" by code_simp+
  then show ?thesis using AssignZone_overlap [OF run] by (auto simp: demo_pg_def simp del: find_Some_iff)
qed

text \<open>Two identical requests that are filed at the same time are both recorded.\<close>

theorem FileRequest_overlap_witness:
  "map rq_id (identical ''w1'' ''pypi.org'' 443
     (snd (FileRequest_at demo_pg (demo_gen ''z'') 6 ''bob'' ''w1'' ''pypi.org'' 443 ''again'' demo_zones demo_requests))) = [''q'', ''z'']"
proof -
  let ?res = "FileRequest_at demo_pg (demo_gen ''z'') 6 ''bob'' ''w1'' ''pypi.org'' 443 ''again'' demo_zones demo_requests"
  have ok: "db_ok demo_requests" "map rq_id (identical ''w1'' ''pypi.org'' 443 demo_requests) = [''q'']"
    "select_pending ''w1'' ''pypi.org'' 443 demo_zones = None" "fst ?res = Inr ''z''" by code_simp+
  then have run: "?res = (Inr ''z'', snd ?res)" by (simp add: prod_eq_iff)
  show ?thesis using FileRequest_overlap [OF ok(1) run] ok(2,3) by (auto simp: demo_pg_def)
qed

end
