(* ===== verification/Smoke.thy ===== *)
theory Smoke
  imports Wire Snapshot
begin

text \<open>
  The smoke test program (src/admin/hack/smoke/main.go), which serves one fixed snapshot to a real Envoy: what it builds,
  pushes and logs. The environment, protojson, the snapshot cache and the listener are arguments, as in the service.
\<close>

section \<open>Definitions\<close>

definition smoke_params :: "(string, string) gomap \<Rightarrow> Params" where
  "smoke_params vars = \<lparr>Hosts = [(HostKey ''example.com'' 443, [get_or [] vars ''ALLOW_IP''])], RequestURL = ''http://admin.invalid/r'',
     TunnelMax = 3600 * 1000000000\<rparr>"

definition smoke_OnDenial :: "XDenial \<Rightarrow> string list \<Rightarrow> string list" where
  \<comment> \<open>the lines of the log, without their time stamps\<close>
  "smoke_OnDenial d lines = lines @ [''DENIAL src='' @ SrcIP d @ '' host='' @ xd_Host d @ '' port='' @ Itoa (xd_Port d)]"

definition smoke_main :: "(string, string) gomap \<Rightarrow> (string \<Rightarrow> string \<Rightarrow> string + 'm) \<Rightarrow> ('m \<Rightarrow> string option) \<Rightarrow> (string \<Rightarrow> 'm resources \<Rightarrow> string + 's) \<Rightarrow>
    ('s \<Rightarrow> string option) \<Rightarrow> (string \<Rightarrow> 's \<Rightarrow> 'c \<Rightarrow> string option \<times> 'c) \<Rightarrow> string option \<Rightarrow> 'c \<Rightarrow> string + 'c Server" where
  \<comment> \<open>\<open>Inl\<close>: the process ends with this message; \<open>Inr\<close>: it serves\<close>
  "smoke_main vars unmarshal validate new consistent setsnap listenErr c0 =
     (case Build (decode unmarshal validate) (smoke_params vars) of
        Inl e \<Rightarrow> Inl e
      | Inr res \<Rightarrow>
          (case Push new consistent setsnap res (NewServer c0) of
             (Some e, s) \<Rightarrow> Inl e
           | (None, s) \<Rightarrow> (case listenErr of Some e \<Rightarrow> Inl e | None \<Rightarrow> Inr s)))"

section \<open>Properties\<close>

definition smoke_line :: "XDenial \<Rightarrow> string" where
  "smoke_line d = ''DENIAL src='' @ SrcIP d @ '' host='' @ xd_Host d @ '' port='' @ Itoa (xd_Port d)"

lemma smoke_answer:
  assumes "envoy_proxy V" "ValidName host" "CHR ''*'' \<notin> set host" "port = 443 \<or> port = 80" "asks host port q"
    "objects (smoke_params vars) = (ls, cs, vhosts)" "ipv4 (get_or [] vars ''ALLOW_IP'')" "ipv4 (q_ip q)"
  shows "ev_respond V (hcm (RequestURL (smoke_params vars))) vhosts q =
    (if host = ''example.com'' \<and> port = 443 \<and> q_ip q = get_or [] vars ''ALLOW_IP'' then Forward (cluster_for (smoke_params vars) (HostKey ''example.com'' 443)) else LocalReply 403)"
proof -
  let ?k = "HostKey ''example.com'' 443" and ?p = "smoke_params vars"
  have vc: "vhost_choice (ev_pick V)" by (rule envoy_proxy.axioms(1) [OF assms(1)])
  have port: "if port = 443 then q_connect q else \<not> q_connect q \<and> HasPrefix (q_path q) ''/''" using assms(5) by (simp add: asks_def)
  obtain e where e: "port_text e port" "q_authority q = host @ e"
    using assms(4,5) doms_iff [of "HostKey host port" "q_authority q"] by (auto simp: authorities_def asks_def)
  have fq: "fqdn host" using assms(2,3) by (auto elim: ValidName_cases)
  have "ValidName ''example.com''" by code_simp
  then have ks: "keys_ok [?k]" by (simp add: keys_ok_def)
  have vh: "vhosts = map (vhost_of ?p) [?k] @ [deny_vhost]" using assms(6) by (simp add: objects_form smoke_params_def)
  have ips: "get_or [] (Hosts ?p) ?k = [get_or [] vars ''ALLOW_IP'']" by (simp add: smoke_params_def)
  have cand: "candidate host port ?k \<longleftrightarrow> host = ''example.com'' \<and> port = 443" by (auto simp: candidate_def covers_def)
  show ?thesis
  proof (cases "candidate host port ?k")
    case True
    have "ev_pick V vhosts (host @ e) = Some (vhost_of ?p ?k)"
      unfolding vh by (rule vhost_choice.pick_key [OF vc ks fq assms(2) e(1)]) (use True in auto)
    then show ?thesis using envoy_proxy.respond_host [OF assms(1), of vhosts q ?p ?k] True cand port e(2) assms(7,8) by (simp add: ips)
  next
    case False
    have "ev_pick V vhosts (host @ e) = Some deny_vhost"
      unfolding vh by (rule vhost_choice.pick_deny [OF vc ks fq assms(2) e(1)]) (use False in auto)
    then have "ev_respond V (hcm (RequestURL ?p)) vhosts q = LocalReply 403"
      by (intro envoy_proxy.respond_deny [OF assms(1)]) (use port e(2) in \<open>auto split: if_splits\<close>)
    then show ?thesis using False cand by auto
  qed
qed

lemma smoke_log:
  "snd (StreamAccessLogs uni (Some smoke_OnDenial) [Recv es] []) = map smoke_line (List.map_filter (denial uni) es)"
proof -
  have "fold (\<lambda>e s. case denial uni e of None \<Rightarrow> s | Some d \<Rightarrow> smoke_OnDenial d s) es ls = ls @ map smoke_line (List.map_filter (denial uni) es)" for ls
    by (induction es arbitrary: ls) (simp_all add: smoke_OnDenial_def smoke_line_def List.map_filter_def split: option.split)
  then show ?thesis by (simp cong: option.case_cong)
qed

text \<open>C35. The smoke test program, when it gets to serve, serves a snapshot of the configuration it builds, with which a proxy with the documented
  behaviour of Envoy forwards, of all requests for valid host names on ports 443 and 80, exactly the CONNECTs to example.com:443 from the address in ALLOW_IP
  (an IPv4 address) and answers the others with 403; and it logs for every reported denial, in order, one line with its source, host and port.\<close>

theorem smoke_serves:
  assumes "smoke_main vars unmarshal validate new consistent setsnap listenErr c0 = Inr s" "snapshot_cache setsnap served" "envoy_proxy V"
    "ipv4 (get_or [] vars ''ALLOW_IP'')"
  shows "(\<exists>snap v res ls cs vhosts h. served NodeID (srv_cache s) = Some snap \<and> new v res = Inr snap \<and>
      objects (smoke_params vars) = (ls, cs, vhosts) \<and> map (decode unmarshal validate ''Listener'') ls = map Inr (listener_type res) \<and>
      [decode unmarshal validate ''RouteConfiguration'' (route_config vhosts)] = map Inr (route_type res) \<and> hcm_of (hd ls) = Some h \<and>
      (\<forall>host port q. ValidName host \<and> CHR ''*'' \<notin> set host \<and> (port = 443 \<or> port = 80) \<and> asks host port q \<and> ipv4 (q_ip q) \<longrightarrow>
        (if host = ''example.com'' \<and> port = 443 \<and> q_ip q = get_or [] vars ''ALLOW_IP''
         then \<exists>c \<in> obj_name ` set cs. ev_respond V h vhosts q = Forward c else ev_respond V h vhosts q = LocalReply 403))) \<and>
    snd (StreamAccessLogs uni (Some smoke_OnDenial) [Recv es] []) =
      map (\<lambda>d. ''DENIAL src='' @ SrcIP d @ '' host='' @ xd_Host d @ '' port='' @ Itoa (xd_Port d)) (List.map_filter (denial uni) es)"
proof -
  let ?p = "smoke_params vars"
  obtain res where r: "Build (decode unmarshal validate) ?p = Inr res" "Push new consistent setsnap res (NewServer c0) = (None, s)"
    using assms(1) by (auto simp: smoke_main_def split: sum.splits prod.splits option.splits)
  obtain ls cs vhosts where o: "objects ?p = (ls, cs, vhosts)" by (metis prod_cases3)
  have h: "hcm_of (hd ls) = Some (hcm (RequestURL ?p))" using o by (auto simp: objects_form hcm_of_proxy)
  obtain snap v where snap: "served NodeID (srv_cache s) = Some snap" "new v res = Inr snap" using snapshot_cache.push_nil [OF assms(2) r(2)] by blast
  have c: "cluster_for ?p (HostKey ''example.com'' 443) \<in> obj_name ` set cs"
    by (rule cluster_for_built [OF o]) (simp add: smoke_params_def)
  have answer: "\<forall>host port q. ValidName host \<and> CHR ''*'' \<notin> set host \<and> (port = 443 \<or> port = 80) \<and> asks host port q \<and> ipv4 (q_ip q) \<longrightarrow>
        (if host = ''example.com'' \<and> port = 443 \<and> q_ip q = get_or [] vars ''ALLOW_IP''
         then \<exists>c \<in> obj_name ` set cs. ev_respond V (hcm (RequestURL ?p)) vhosts q = Forward c else ev_respond V (hcm (RequestURL ?p)) vhosts q = LocalReply 403)"
    (is "\<forall>host port q. ?asked host port q \<longrightarrow> ?answer host port q")
  proof (intro allI impI)
    fix host port q
    assume "?asked host port q"
    then show "?answer host port q" using smoke_answer [OF assms(3) _ _ _ _ o assms(4), of host port q] c by simp
  qed
  note parts = Build_parts [OF r(1) o]
  show ?thesis
    by (rule conjI [OF _ smoke_log [of uni es, unfolded smoke_line_def [abs_def]]], rule exI, rule exI, rule exI, rule exI, rule exI, rule exI, rule exI)
      (intro conjI; rule snap(1) snap(2) o h answer parts [THEN conjunct1] parts [THEN conjunct2, THEN conjunct2])
qed

theorem smoke_serves_witness:
  "\<exists>s ls cs vhosts h. smoke_main [(''ALLOW_IP'', ''10.0.0.1'')] (\<lambda>_ b. Inr b) (\<lambda>_. None) (\<lambda>_ res. Inr res) (\<lambda>_. None) (mem_set (\<lambda>_. False)) None Map.empty = Inr s \<and>
     (\<exists>snap. mem_served NodeID (srv_cache s) = Some snap \<and> route_type snap = [Marshal (route_config vhosts)]) \<and> hcm_of (hd ls) = Some h \<and>
     (\<exists>c. envoy_respond h vhosts (connect_to ''example.com:443'' ''10.0.0.1'') = Forward c) \<and>
     envoy_respond h vhosts (connect_to ''example.com:443'' ''10.0.0.2'') = LocalReply 403"
proof -
  let ?vars = "[(''ALLOW_IP'', ''10.0.0.1'')]"
  let ?main = "smoke_main ?vars (\<lambda>_ b. Inr b) (\<lambda>_. None) (\<lambda>_ res. Inr res) (\<lambda>_. None) (mem_set (\<lambda>_. False)) None Map.empty"
  have "\<not> Contains (RequestURL (smoke_params ?vars)) ''%''" by (simp add: smoke_params_def Contains_def)
  moreover have "decode_all (decode (\<lambda>_ b. Inr b) (\<lambda>_. None)) what t xs = Inr (map Marshal xs)" for what t xs
    by (induction xs) (simp_all add: decode_def)
  ultimately obtain res where "Build (decode (\<lambda>_ b. Inr b) (\<lambda>_. None)) (smoke_params ?vars) = Inr res"
    by (cases "objects (smoke_params ?vars)") (simp add: Build_def decode_def [of _ _ "''RouteConfiguration''"])
  then obtain s where m: "?main = Inr s" by (simp add: smoke_main_def Push_def Let_def mem_set_def)
  have ip: "ipv4 ''10.0.0.1''" "ipv4 ''10.0.0.2''" by code_simp+
  then have allow: "ipv4 (get_or [] ?vars ''ALLOW_IP'')" by simp
  obtain snap res ls cs vhosts h where o: "mem_served NodeID (srv_cache s) = Some snap" "hcm_of (hd ls) = Some h"
      "[decode (\<lambda>_ b. Inr b) (\<lambda>_. None) ''RouteConfiguration'' (route_config vhosts)] = map Inr (route_type res)"
      "(Inr res :: string + string resources) = Inr snap"
    and E: "\<forall>host port q. ValidName host \<and> CHR ''*'' \<notin> set host \<and> (port = 443 \<or> port = 80) \<and> asks host port q \<and> ipv4 (q_ip q) \<longrightarrow>
        (if host = ''example.com'' \<and> port = 443 \<and> q_ip q = get_or [] ?vars ''ALLOW_IP''
         then \<exists>c \<in> obj_name ` set cs. ev_respond envoy_spec h vhosts q = Forward c else ev_respond envoy_spec h vhosts q = LocalReply 403)"
    using smoke_serves [OF m cache.snapshot_cache_axioms proxy.envoy_proxy_axioms allow, THEN conjunct1] by (elim exE conjE) (rule that)
  have rc: "route_type snap = [Marshal (route_config vhosts)]" using o(3,4) by (auto simp: decode_def)
  have "ValidName ''example.com''" by code_simp
  then have pre: "ValidName ''example.com'' \<and> CHR ''*'' \<notin> set ''example.com'' \<and> ((443 :: int) = 443 \<or> (443 :: int) = 80) \<and>
      asks ''example.com'' 443 (connect_to ''example.com:443'' a) \<and> ipv4 (q_ip (connect_to ''example.com:443'' a))" if "ipv4 a" for a
    using that by (simp add: asks_def connect_to_def authorities_def doms_def)
  have q: "q_ip (connect_to d a) = a" for d a by (simp add: connect_to_def)
  have resp: "ev_respond envoy_spec = envoy_respond" by (simp add: envoy_spec_def)
  have "\<exists>c. envoy_respond h vhosts (connect_to ''example.com:443'' ''10.0.0.1'') = Forward c"
    using E [THEN spec, THEN spec, THEN spec, THEN mp, OF pre [OF ip(1)]] unfolding q resp by auto
  moreover have "envoy_respond h vhosts (connect_to ''example.com:443'' ''10.0.0.2'') = LocalReply 403"
    using E [THEN spec, THEN spec, THEN spec, THEN mp, OF pre [OF ip(2)]] unfolding q resp by (simp split: if_splits)
  ultimately show ?thesis using m o(1,2) rc by blast
qed

end
