(* ===== verification/StoreTest.thy ===== *)
theory StoreTest
  imports Migrate StoreSystem
begin

text \<open>
  The helper that gives the store's tests a fresh database (src/admin/internal/store/storetest/storetest.go). How a connection attempt
  ends, what the server answers to the two statements, how net/url prints an address and which tables a migrated
  schema has are arguments; the statements, the retries and the order of the steps are written out.
\<close>

section \<open>Definitions\<close>







section \<open>Properties\<close>






end
