(* ===== verification/Sha256Check.thy ===== *)
theory Sha256Check
  imports Sha256
begin

text \<open>
  The definition of SHA-256 against a test vector of FIPS 180-4, evaluated in the kernel.
\<close>

lemma sha256_abc: "hex_encode (sha256 ''abc'') = ''ba7816bf8f01cfea414140de5dae2223b00361a396177a9cb410ff61f20015ad''"
  by code_simp

end
