(* ===== verification/Spec2Isabelle.thy ===== *)
theory Spec2Isabelle
  imports Feedback AuthSafety StoreRace Smoke StoreTest Sha256Check
begin

text \<open>
  Verification of the sandcastle admin service (src/admin).

  \<^bold>\<open>The program.\<close> Sandcastle runs workspaces in Kubernetes whose only way out is an Envoy proxy. The admin service decides what each
  workspace may reach. Its policy lives in Postgres (package store): zones with host and dns rules, the zone each workspace is
  assigned to, and grants that give one workspace a rule for a limited time. Users ask for access and admins decide in a web
  interface (web) behind a login through Coder (auth). A loop (cmd/sandcastle-admin) turns the tables and the running pods (watch)
  into a map from destinations to allowed addresses (policy), from it into Envoy's configuration (xds) and into Cilium DNS policies
  (cilium). Envoy reports what it refused; these denials go back into the store and onto the users' pages.

  \<^bold>\<open>The theories.\<close> Each opens with what it holds; definitions carry the names of the source where Isabelle allows it.

  \<^item> Ground: \<open>Prelude\<close> (Go maps as association lists in any iteration order, sorting, collections of rules), \<open>GoLib\<close> (strings, strconv, durations,
    JSON trees), \<open>Regex\<close> (regular expressions by derivatives, behind the locale \<open>regex_engine\<close>), \<open>Sha256\<close> and \<open>Sha256Check\<close> (SHA-256
    and HMAC on 32-bit words, and a published digest recomputed), \<open>Base64\<close>, \<open>Http\<close> (requests, responses, redirects, the multiplexer), \<open>Json\<close> and \<open>JsonFacts\<close> (the
    printer and the parser of encoding/json).
  \<^item> \<open>Policy\<close> (internal/policy): ValidName, ValidRule, Effective and HostIPs. HostIPs is shown correct for every order in which Go may visit the maps,
    through the locale \<open>merge_order\<close>; the pattern of ValidName is shown equal to the rules for DNS labels.
  \<^item> \<open>Store\<close>, \<open>StoreZones\<close>, \<open>StoreRequests\<close> (internal/store): the tables of 001_init.sql with their constraints as a record \<open>db\<close>, every operation as a transaction
    \<open>db \<Rightarrow> (err + 'a) \<times> db\<close> that commits or leaves the state. The locales \<open>store_op\<close> and \<open>audited_op\<close> say what every operation promises
    (the invariant \<open>db_ok\<close> is kept, a failure changes nothing, a change is audited in the caller's name), and each operation is an interpretation.
    \<open>ZonePolicy\<close> and \<open>RequestFlow\<close> state what the operations mean for the rules in force and for requests and denials; \<open>StoreSystem\<close> has the reachable databases and
    their invariant; \<open>StoreRace\<close> what is left of it when transactions overlap at READ COMMITTED; \<open>Migrate\<close> the schema migrations and the opening of the store; \<open>StoreTest\<close> the helper of the tests (internal/store/storetest).
  \<^item> \<open>Watch\<close> (internal/watch): the pod cache, Running, ByIP and ByID behind the locale \<open>pods_view\<close>.
  \<^item> \<open>Cilium\<close> and \<open>CiliumApply\<close> (internal/cilium): the rendered policies refine the effective dns rules; Apply reconciles a cluster given by the locale \<open>kube_api\<close>.
  \<^item> \<open>Xds\<close>, \<open>Envoy\<close>, \<open>Egress\<close>, \<open>Wire\<close> (internal/xds/build.go): the configuration that Build makes, what a proxy does with it, and that the text handed to
    protojson is read back as the same objects. Envoy is a parameter: the locales \<open>vhost_choice\<close>, \<open>envoy_proxy\<close> and \<open>local_replies\<close> state what is documented of the choice of a
    virtual host, of RBAC rules with their actions and principals, of the HTTP filters and routes, and of the text of a local reply; \<open>Egress\<close> shows from them which
    requests are forwarded, to which cluster, and which get a 403. \<open>XdsServer\<close>, \<open>Snapshot\<close> (internal/xds/server.go): versions, pushes, access logs, and
    what a push does to what is served (locale \<open>snapshot_cache\<close>). \<open>Smoke\<close> is the program in hack/smoke.
  \<^item> \<open>Auth\<close> and \<open>AuthSafety\<close> (internal/auth): signed cookies, login, sessions and the gate; sessions survive their cookie and nothing else passes for one.
  \<^item> \<open>Web\<close> and \<open>WebSafety\<close> (internal/web): all routes and handlers; nobody changes the database but whom the gate lets through, and how.
  \<^item> \<open>Throttle\<close>, \<open>Service\<close>, \<open>ServiceSafety\<close> (cmd/sandcastle-admin): the throttle of denials, start-up, and the event loop interleaved with requests, pod events and
    access logs as a step function and the inductive relation \<open>running\<close>. Its invariant \<open>noticed\<close> says that no change of the policy goes unannounced; with it the served
    snapshot is shown to enforce the database whenever the service is at rest, and the service is shown to come to rest, its last
    step being a reconciliation of what it rests with (the field \<open>sv_asked\<close> records when the rules were last queried; no step reads it). \<open>Feedback\<close> follows a
    refusal from Envoy to the page of the owner.

  \<^bold>\<open>Parameters.\<close> Code that is not part of the repository is an argument, with what is relied on as hypotheses or a locale: how Postgres reads a uuid and orders text
  (record \<open>pg\<close>) and executes a migration; the Kubernetes API and its label selectors; protojson, the generated validation and the snapshot cache; Envoy;
  net/url, the oauth2 package and Coder's replies; html/template; clocks, fresh ids and random bytes. Every locale is interpreted on a concrete function, and
  every property with hypotheses has a witness.

  \<^bold>\<open>Bounds.\<close> Go's ints are integers with the range checks of the code written out; the version counter of the xDS server is a 64-bit word and wraps. Only the
  JSON parser takes fuel, twice the length of its input and two: \<open>fuel_enough\<close> shows that more does not change its result. All other recursions have termination proofs; the retries of
  the test helper are bounded by 30, the steps of the service at rest by \<open>8 * calls + 13\<close>.

  \<^bold>\<open>Not modelled.\<close> In the reachable databases and in the service a store operation is one atomic step, except the three queries of a policy load; \<open>StoreRace\<close>
  separates the check of DeleteZone, Assign and FileRequest from their write, and does not feed the results back into the service. The statements on Envoy are
  for IPv4 addresses (the principals have a prefix of 32 bits) and for host names on ports 80 and 443; that two hosts may get the same 40-bit name from hashName
  is not treated beyond that a cluster of this name exists. Sockets, logging, gRPC
  registration and context timeouts (a query that fails or times out is an event); the HTML templates (a page is its data); the limit on JSON nesting; the manifests, images
  and scripts outside src/admin.
\<close>

end
